(* ===== verification/Prelude.thy ===== *)
theory Prelude
  imports Main "HOL-Library.Word" "HOL-Library.AList" "HOL-Library.List_Lexorder"
    "HOL-Library.Char_ord" "HOL-Library.Multiset"
begin

text \<open>
  Shared vocabulary of the development: the Rust integer widths with the standard library's
  saturating operations, hash maps as association lists with distinct keys, results of fallible
  state-changing methods, and the generic lemmas on lists and maps that the component theories use.
\<close>

section \<open>Named collections\<close>

named_theorems word_nat \<open>comparisons and arithmetic of words moved to the natural numbers\<close>
named_theorems inv_intros \<open>preservation of a component's invariant by its operations\<close>


section \<open>Machine integers\<close>

type_synonym u64 = "64 word"
type_synonym u32 = "32 word"

text \<open>The standard library's saturating operations, at any width.\<close>

definition sat_add :: "'l::len word \<Rightarrow> 'l word \<Rightarrow> 'l word" where
  "sat_add x y = (if unat x + unat y < 2 ^ LENGTH('l) then x + y else - 1)"

definition sat_sub :: "'l::len word \<Rightarrow> 'l word \<Rightarrow> 'l word" where
  "sat_sub x y = (if x < y then 0 else x - y)"

definition sat_mul :: "'l::len word \<Rightarrow> 'l word \<Rightarrow> 'l word" where
  "sat_mul x y = (if unat x * unat y < 2 ^ LENGTH('l) then x * y else - 1)"

declare word_less_nat_alt [word_nat] word_le_nat_alt [word_nat]

lemma unat_minus_one_eq: "unat (- 1 :: 'l::len word) = 2 ^ LENGTH('l) - 1"
  by (simp add: unsigned_minus_1_eq_mask mask_eq_exp_minus_1)

lemma unat_sat_add [word_nat]:
  "unat (sat_add x y) = min (unat x + unat y) (2 ^ LENGTH('l) - 1)" for x y :: "'l::len word"
proof (cases "unat x + unat y < 2 ^ LENGTH('l)")
  case True
  then have "unat (x + y) = unat x + unat y" by (simp add: unat_word_ariths)
  with True show ?thesis by (simp add: sat_add_def)
next
  case False
  then show ?thesis by (simp add: sat_add_def unat_minus_one_eq)
qed

lemma unat_sat_sub [word_nat]: "unat (sat_sub x y) = unat x - unat y"
  by (simp add: sat_sub_def word_less_nat_alt unat_sub word_le_nat_alt)

lemma unat_sat_mul [word_nat]:
  "unat (sat_mul x y) = min (unat x * unat y) (2 ^ LENGTH('l) - 1)" for x y :: "'l::len word"
proof (cases "unat x * unat y < 2 ^ LENGTH('l)")
  case True
  then have "unat (x * y) = unat x * unat y" by (simp add: unat_word_ariths)
  with True show ?thesis by (simp add: sat_mul_def)
next
  case False
  then show ?thesis by (simp add: sat_mul_def unat_minus_one_eq)
qed

lemma unat_min_word [word_nat]: "unat (min x y) = min (unat x) (unat y)"
  by (simp add: min_def word_le_nat_alt)

lemma unat_max_word [word_nat]: "unat (max x y) = max (unat x) (unat y)"
  by (simp add: max_def word_le_nat_alt)

lemma sat_add_0 [simp]: "sat_add 0 x = x" "sat_add x 0 = x"
  by (simp_all add: sat_add_def)

lemma sat_sub_mono: "x \<le> y \<Longrightarrow> sat_sub x z \<le> sat_sub y z"
  by (simp add: word_nat)

text \<open>A usize cast to u32 keeps the low 32 bits, so it is exact below \<open>2 ^ 32\<close>.\<close>

lemma unat_of_nat_u32: "n < 2 ^ 32 \<Longrightarrow> unat (of_nat n :: u32) = n"
  by (simp add: unsigned_of_nat take_bit_nat_eq_self)

text \<open>A saturating sum is the true sum cut off at the largest value, in whatever order it is
  taken.\<close>

lemma unat_fold_sat_add:
  "unat (fold (\<lambda>v acc. sat_add acc v) vs a) =
     min (unat a + sum_list (map unat vs)) (2 ^ LENGTH('l) - 1)" for a :: "'l::len word"
proof (induction vs arbitrary: a)
  case Nil
  have "unat a \<le> 2 ^ LENGTH('l) - 1"
    using unsigned_less [of a, where ?'a = nat] by linarith
  then show ?case by simp
next
  case (Cons v vs)
  then show ?case by (simp add: unat_sat_add)
qed


section \<open>Results\<close>

text \<open>\<open>Result<T, E>\<close> is the sum \<open>'e + 'a\<close> with \<open>Inl\<close> the error. A method that takes
  \<open>&mut self\<close> maps a state to its result and the state it leaves behind, so that what a failing
  method has already written stays visible.\<close>

type_synonym ('e, 'a, 's) op = "'s \<Rightarrow> ('e + 'a) \<times> 's"

fun is_ok :: "'e + 'a \<Rightarrow> bool" where
  "is_ok (Inl e) = False"
| "is_ok (Inr x) = True"


section \<open>Hash maps\<close>

text \<open>\<open>HashMap<K, V>\<close> as an association list with distinct keys. The iteration order of the
  source is unspecified; every use in the modelled code either sorts the result or folds it with an
  order-independent function.\<close>

type_synonym ('k, 'v) hmap = "('k \<times> 'v) list"

abbreviation hm_get :: "('k, 'v) hmap \<Rightarrow> 'k \<Rightarrow> 'v option" where
  "hm_get m k \<equiv> map_of m k"

abbreviation hm_insert :: "'k \<Rightarrow> 'v \<Rightarrow> ('k, 'v) hmap \<Rightarrow> ('k, 'v) hmap" where
  "hm_insert k v m \<equiv> AList.update k v m"

abbreviation hm_remove :: "'k \<Rightarrow> ('k, 'v) hmap \<Rightarrow> ('k, 'v) hmap" where
  "hm_remove k m \<equiv> AList.delete k m"

abbreviation hm_keys :: "('k, 'v) hmap \<Rightarrow> 'k set" where
  "hm_keys m \<equiv> fst ` set m"

abbreviation hm_wf :: "('k, 'v) hmap \<Rightarrow> bool" where
  "hm_wf m \<equiv> distinct (map fst m)"

definition hm_contains :: "'k \<Rightarrow> ('k, 'v) hmap \<Rightarrow> bool" where
  "hm_contains k m = (hm_get m k \<noteq> None)"

definition hm_values :: "('k, 'v) hmap \<Rightarrow> 'v list" where
  "hm_values m = map snd m"

lemma hm_contains_iff: "hm_contains k m \<longleftrightarrow> k \<in> hm_keys m"
  by (simp add: hm_contains_def map_of_eq_None_iff)

lemma hm_get_insert [simp]: "hm_get (hm_insert k v m) k' = (if k' = k then Some v else hm_get m k')"
  by (simp add: update_conv')

lemma hm_get_remove [simp]: "hm_get (hm_remove k m) k' = (if k' = k then None else hm_get m k')"
  by (simp add: delete_conv')

lemma hm_keys_insert [simp]: "hm_keys (hm_insert k v m) = insert k (hm_keys m)"
  by (simp add: dom_update)

lemma hm_keys_remove [simp]: "hm_keys (hm_remove k m) = hm_keys m - {k}"
  by (induction m) auto

lemma hm_wf_insert [simp]: "hm_wf m \<Longrightarrow> hm_wf (hm_insert k v m)"
  by (rule distinct_update)

lemma hm_wf_remove [simp]: "hm_wf m \<Longrightarrow> hm_wf (hm_remove k m)"
  by (rule distinct_delete)

lemma hm_remove_absent [simp]: "hm_get m k = None \<Longrightarrow> hm_remove k m = m"
  by (simp add: map_of_eq_None_iff)

lemma hm_get_keys: "hm_get m k = Some v \<Longrightarrow> k \<in> hm_keys m"
  by (metis domI dom_map_of_conv_image_fst)

lemma hm_get_values: "hm_get m k = Some v \<Longrightarrow> v \<in> set (hm_values m)"
  unfolding hm_values_def by (force dest: map_of_SomeD)

lemma hm_insert_same: "hm_get m k = Some v \<Longrightarrow> hm_insert k v m = m"
  by (induction m) auto

lemma hm_insert_insert [simp]: "hm_insert k v (hm_insert k w m) = hm_insert k v m"
  by (induction m) auto

lemma in_hm_insert:
  assumes "hm_wf m"
  shows "(k', v') \<in> set (hm_insert k v m) \<longleftrightarrow> (if k' = k then v' = v else (k', v') \<in> set m)"
proof -
  have "(k', v') \<in> set (hm_insert k v m) \<longleftrightarrow> hm_get (hm_insert k v m) k' = Some v'"
    by (rule map_of_eq_Some_iff [symmetric]) (simp add: assms)
  also have "\<dots> \<longleftrightarrow> (if k' = k then v' = v else hm_get m k' = Some v')" by auto
  finally show ?thesis using assms by simp
qed

lemma in_hm_remove: "(k', v') \<in> set (hm_remove k m) \<longleftrightarrow> k' \<noteq> k \<and> (k', v') \<in> set m"
  by (induction m) auto

text \<open>Weights summed over a hash map: an insertion adds the new weight and drops the replaced one,
  a removal drops the removed one. Counts of entries are the weights 0 and 1.\<close>

definition hm_weight :: "('k \<Rightarrow> 'v \<Rightarrow> nat) \<Rightarrow> ('k, 'v) hmap \<Rightarrow> nat" where
  "hm_weight f m = (\<Sum>(k, v)\<leftarrow>m. f k v)"

lemma hm_weight_Nil [simp]: "hm_weight f [] = 0"
  by (simp add: hm_weight_def)

lemma hm_weight_cong:
  "(\<And>k v. (k, v) \<in> set m \<Longrightarrow> f k v = g k v) \<Longrightarrow> hm_weight f m = hm_weight g m"
  unfolding hm_weight_def by (rule arg_cong [of _ _ sum_list]) auto

lemma hm_weight_insert_new:
  "hm_get m k = None \<Longrightarrow> hm_weight f (hm_insert k v m) = hm_weight f m + f k v"
  unfolding hm_weight_def by (induction m) (auto split: if_splits)

lemma hm_weight_insert_old:
  "hm_get m k = Some w \<Longrightarrow> hm_weight f (hm_insert k v m) + f k w = hm_weight f m + f k v"
  unfolding hm_weight_def by (induction m) (auto split: if_splits)

lemma hm_weight_remove:
  assumes "hm_wf m" and "hm_get m k = Some w"
  shows "hm_weight f (hm_remove k m) + f k w = hm_weight f m"
  using assms
proof (induction m)
  case (Cons p m)
  obtain k' v where p: "p = (k', v)" by (cases p)
  show ?case
  proof (cases "k' = k")
    case True
    with Cons.prems p have "hm_get m k = None" by (simp add: map_of_eq_None_iff)
    with True Cons.prems p show ?thesis by (simp add: hm_weight_def)
  next
    case False
    with Cons p show ?thesis by (simp add: hm_weight_def)
  qed
qed simp

lemma hm_weight_remove_le: "hm_weight f (hm_remove k m) \<le> hm_weight f m"
  unfolding hm_weight_def by (induction m) auto

lemma hm_weight_mono:
  "(\<And>k v. (k, v) \<in> set m \<Longrightarrow> f k v \<le> g k v) \<Longrightarrow> hm_weight f m \<le> hm_weight g m"
  unfolding hm_weight_def by (induction m) (auto intro!: add_mono)

lemma length_filter_values:
  "length (filter P (hm_values m)) = hm_weight (\<lambda>k v. if P v then 1 else 0) m"
  unfolding hm_values_def hm_weight_def by (induction m) auto

lemma hm_weight_pos: "hm_get m k = Some v \<Longrightarrow> f k v \<le> hm_weight f m"
  unfolding hm_weight_def by (induction m) (auto split: if_splits)


section \<open>Lists\<close>

text \<open>The bounded ring: a queue that drops its oldest entry before it grows past its capacity.\<close>

definition ring_push :: "nat \<Rightarrow> 'a \<Rightarrow> 'a list \<Rightarrow> 'a list" where
  "ring_push cap x xs = (if length xs = cap then tl xs else xs) @ [x]"

lemma length_ring_push: "length xs \<le> cap \<Longrightarrow> 0 < cap \<Longrightarrow> length (ring_push cap x xs) \<le> cap"
  by (auto simp: ring_push_def)

lemma ring_push_last: "0 < cap \<Longrightarrow> length xs \<le> cap \<Longrightarrow>
  ring_push cap x (drop (length xs - cap) xs) = drop (Suc (length xs) - cap) (xs @ [x])"
  by (cases xs) (auto simp: ring_push_def)

lemma sort_key_eq_iff_set: "set (sort_key f xs) = set xs"
  by simp

lemma filter_filter_conj: "filter P (filter Q xs) = filter (\<lambda>x. Q x \<and> P x) xs"
  by simp

end
