(* ===== verification/Tenant.thy ===== *)
theory Tenant
  imports Prelude
begin

text \<open>
  Tenant identity, plan caps and the plan ladder: \<open>corelink-fabric/src/tenant.rs\<close>,
  \<open>plans.rs\<close> and the in-memory plan repository of \<open>tenant_plan_repo.rs\<close>.
  A \<open>TenantId\<close> is a newtype over a string, ordered by that string, so that the
  \<open>BTreeMap<TenantId, _>\<close> of the scheduler and the meters iterate in this order.
\<close>

section \<open>Tenant identifiers\<close>

datatype tenant_id = TenantId string

primrec tenant_str :: "tenant_id \<Rightarrow> string" where
  "tenant_str (TenantId s) = s"

instantiation tenant_id :: linorder
begin

definition less_eq_tenant_id :: "tenant_id \<Rightarrow> tenant_id \<Rightarrow> bool" where
  "less_eq_tenant_id a b \<longleftrightarrow> tenant_str a \<le> tenant_str b"

definition less_tenant_id :: "tenant_id \<Rightarrow> tenant_id \<Rightarrow> bool" where
  "less_tenant_id a b \<longleftrightarrow> tenant_str a < tenant_str b"

instance
proof
  fix a b c :: tenant_id
  show "a < b \<longleftrightarrow> a \<le> b \<and> \<not> b \<le> a"
    by (auto simp: less_eq_tenant_id_def less_tenant_id_def)
  show "a \<le> a"
    by (simp add: less_eq_tenant_id_def)
  show "a \<le> b \<Longrightarrow> b \<le> c \<Longrightarrow> a \<le> c"
    by (auto simp: less_eq_tenant_id_def)
  show "a \<le> b \<Longrightarrow> b \<le> a \<Longrightarrow> a = b"
    by (cases a; cases b) (auto simp: less_eq_tenant_id_def)
  show "a \<le> b \<or> b \<le> a"
    by (auto simp: less_eq_tenant_id_def)
qed

end

lemma tenant_str_inject: "tenant_str a = tenant_str b \<longleftrightarrow> a = b"
  by (cases a; cases b) simp

datatype tenant_error = EmptyTenantId | IllegalTenantChar string char

definition is_ascii_lowercase :: "char \<Rightarrow> bool" where
  "is_ascii_lowercase c \<longleftrightarrow> CHR ''a'' \<le> c \<and> c \<le> CHR ''z''"

definition is_ascii_digit :: "char \<Rightarrow> bool" where
  "is_ascii_digit c \<longleftrightarrow> CHR ''0'' \<le> c \<and> c \<le> CHR ''9''"

definition tenant_char_ok :: "char \<Rightarrow> bool" where
  "tenant_char_ok c \<longleftrightarrow> is_ascii_lowercase c \<or> is_ascii_digit c \<or> c = CHR ''-''"

definition tenant_new :: "string \<Rightarrow> tenant_error + tenant_id" where
  "tenant_new raw =
     (if raw = [] then Inl EmptyTenantId
      else case List.find (\<lambda>c. \<not> tenant_char_ok c) raw of
             Some bad \<Rightarrow> Inl (IllegalTenantChar raw bad)
           | None \<Rightarrow> Inr (TenantId raw))"

definition tenant_wf :: "tenant_id \<Rightarrow> bool" where
  "tenant_wf t \<longleftrightarrow> tenant_str t \<noteq> [] \<and> list_all tenant_char_ok (tenant_str t)"

lemma tenant_new_Inr_iff: "tenant_new raw = Inr t \<longleftrightarrow> t = TenantId raw \<and> tenant_wf t"
proof -
  have "List.find (\<lambda>c. \<not> tenant_char_ok c) raw = None \<longleftrightarrow> list_all tenant_char_ok raw"
    by (auto simp: find_None_iff list_all_iff)
  then show ?thesis
    by (cases "List.find (\<lambda>c. \<not> tenant_char_ok c) raw") (auto simp: tenant_new_def tenant_wf_def)
qed


section \<open>Plans\<close>

record tenant_plan =
  tp_tenant :: tenant_id
  tp_max_concurrency :: u32
  tp_rate_ceiling_per_min :: u32
  tp_repo_allowlist :: "string list"

datatype plan_tier = Starter | Pro | Team | Scale | Max

definition plan_tier_ALL :: "plan_tier list" where
  "plan_tier_ALL = [Starter, Pro, Team, Scale, Max]"

primrec plan_for :: "plan_tier \<Rightarrow> u32 \<times> u32" where
  "plan_for Starter = (20, 200)"
| "plan_for Pro = (40, 400)"
| "plan_for Team = (80, 800)"
| "plan_for Scale = (160, 1600)"
| "plan_for Max = (320, 3200)"

definition MS_PER_VCPU_HOUR :: u64 where
  "MS_PER_VCPU_HOUR = 3600000"

primrec ceiling_for :: "plan_tier \<Rightarrow> u64" where
  "ceiling_for Starter = 100 * MS_PER_VCPU_HOUR"
| "ceiling_for Pro = 240 * MS_PER_VCPU_HOUR"
| "ceiling_for Team = 600 * MS_PER_VCPU_HOUR"
| "ceiling_for Scale = 1200 * MS_PER_VCPU_HOUR"
| "ceiling_for Max = 2400 * MS_PER_VCPU_HOUR"

record plan_registry =
  pr_tiers :: "(tenant_id, plan_tier) hmap"

definition plan_registry_new :: plan_registry where
  "plan_registry_new = \<lparr>pr_tiers = []\<rparr>"

definition set_plan :: "tenant_id \<Rightarrow> plan_tier \<Rightarrow> plan_registry \<Rightarrow> plan_registry" where
  "set_plan t tier reg = reg\<lparr>pr_tiers := hm_insert t tier (pr_tiers reg)\<rparr>"

definition tenant_plan_of :: "plan_registry \<Rightarrow> tenant_id \<Rightarrow> tenant_plan" where
  "tenant_plan_of reg t =
     (let (max_concurrency, rate_ceiling_per_min) =
        (case hm_get (pr_tiers reg) t of Some tier \<Rightarrow> plan_for tier | None \<Rightarrow> (0, 0))
      in \<lparr>tp_tenant = t, tp_max_concurrency = max_concurrency,
          tp_rate_ceiling_per_min = rate_ceiling_per_min, tp_repo_allowlist = []\<rparr>)"

definition tenant_ceiling_vcpu_ms :: "plan_registry \<Rightarrow> tenant_id \<Rightarrow> u64" where
  "tenant_ceiling_vcpu_ms reg t =
     (case hm_get (pr_tiers reg) t of Some tier \<Rightarrow> ceiling_for tier | None \<Rightarrow> 0)"

lemma plan_for_rate: "snd (plan_for tier) = 10 * fst (plan_for tier)"
  by (cases tier) simp_all

lemma plan_tier_ALL_complete: "tier \<in> set plan_tier_ALL"
  by (cases tier) (simp_all add: plan_tier_ALL_def)

lemma tenant_plan_of_set_plan:
  "tenant_plan_of (set_plan t tier reg) t' =
     (if t' = t then \<lparr>tp_tenant = t, tp_max_concurrency = fst (plan_for tier),
                      tp_rate_ceiling_per_min = snd (plan_for tier), tp_repo_allowlist = []\<rparr>
      else tenant_plan_of reg t')"
  by (simp add: tenant_plan_of_def set_plan_def split_beta)

text \<open>The price ladder: a higher tier buys strictly more concurrency and a strictly higher
  compute ceiling.\<close>

lemma plan_ladder_strict:
  "i < j \<Longrightarrow> j < length plan_tier_ALL \<Longrightarrow>
     fst (plan_for (plan_tier_ALL ! i)) < fst (plan_for (plan_tier_ALL ! j)) \<and>
     ceiling_for (plan_tier_ALL ! i) < ceiling_for (plan_tier_ALL ! j)"
proof -
  assume "i < j" "j < length plan_tier_ALL"
  then have "i \<in> {0, 1, 2, 3} \<and> j \<in> {1, 2, 3, 4}"
    by (auto simp: plan_tier_ALL_def)
  with \<open>i < j\<close> show ?thesis
    by (auto simp: plan_tier_ALL_def MS_PER_VCPU_HOUR_def)
qed


section \<open>The in-memory plan repository\<close>

type_synonym plan_repo = "(tenant_id, tenant_plan) hmap"

definition plan_repo_len :: "plan_repo \<Rightarrow> nat" where
  "plan_repo_len repo = length repo"

definition plan_repo_load_all :: "plan_repo \<Rightarrow> (tenant_id \<times> tenant_plan) list" where
  "plan_repo_load_all repo = map (\<lambda>(t, p). (t, p)) repo"

definition plan_repo_upsert :: "tenant_id \<Rightarrow> tenant_plan \<Rightarrow> plan_repo \<Rightarrow> plan_repo" where
  "plan_repo_upsert t p repo = hm_insert t p repo"

lemma plan_repo_upsert_load_all:
  "hm_wf repo \<Longrightarrow>
     (t', p') \<in> set (plan_repo_load_all (plan_repo_upsert t p repo)) \<longleftrightarrow>
     (if t' = t then p' = p else (t', p') \<in> set (plan_repo_load_all repo))"
  by (simp add: plan_repo_load_all_def plan_repo_upsert_def in_hm_insert)

end
