(* ===== verification/Compute_Meter.thy ===== *)
theory Compute_Meter
  imports Tenant "HOL-Library.Signed_Division"
begin

text \<open>
  The vCPU-millisecond arithmetic of \<open>corelink-fabric/src/compute_meter.rs\<close>: the signed
  \<open>bigint\<close> boundary, the saturating product, the ceiling of a plan and the calendar month an
  instant is attributed to. The calendar is checked against the Gregorian rules stated
  independently of the algorithm.
\<close>

section \<open>Amounts\<close>

definition MAX_LEDGER_VCPU_MS :: u64 where
  "MAX_LEDGER_VCPU_MS = 2 ^ 63 - 1"

definition fits_ledger :: "u64 \<Rightarrow> bool" where
  "fits_ledger v \<longleftrightarrow> v \<le> MAX_LEDGER_VCPU_MS"

definition vcpu_ms :: "u32 \<Rightarrow> u64 \<Rightarrow> u64" where
  "vcpu_ms vcpu dur_ms = sat_mul (ucast vcpu) dur_ms"

datatype meter_error = CeilingOverflow u64 u64

definition ceiling_vcpu_ms :: "u64 \<Rightarrow> meter_error + u64" where
  "ceiling_vcpu_ms max_vcpu_h =
     (let ceiling = sat_mul max_vcpu_h MS_PER_VCPU_HOUR in
      if \<not> fits_ledger ceiling then Inl (CeilingOverflow max_vcpu_h ceiling) else Inr ceiling)"

lemma unat_MAX_LEDGER: "unat MAX_LEDGER_VCPU_MS = 2 ^ 63 - 1"
  by (simp add: MAX_LEDGER_VCPU_MS_def)

lemma fits_ledger_nat: "fits_ledger v \<longleftrightarrow> unat v \<le> 2 ^ 63 - 1"
  by (simp add: fits_ledger_def word_le_nat_alt unat_MAX_LEDGER)

text \<open>A value fits exactly when the cast to \<open>i64\<close> does not turn it negative.\<close>

lemma bit_uint_63: "bit (uint v) 63 \<longleftrightarrow> 2 ^ 63 \<le> unat v" for v :: u64
proof -
  have lt: "unat v < 2 ^ 64" using unsigned_less [of v, where ?'a = nat] by simp
  have "bit (uint v) 63 \<longleftrightarrow> bit (unat v) 63"
    by (simp add: bit_unsigned_iff)
  also have "\<dots> \<longleftrightarrow> odd (unat v div 2 ^ 63)" by (rule bit_iff_odd)
  also have "\<dots> \<longleftrightarrow> 2 ^ 63 \<le> unat v"
  proof (cases "2 ^ 63 \<le> unat v")
    case True
    with lt have "unat v div 2 ^ 63 = 1" by (intro div_nat_eqI) simp_all
    with True show ?thesis by simp
  next
    case False
    then show ?thesis by simp
  qed
  finally show ?thesis .
qed

lemma fits_ledger_sint: "fits_ledger v \<longleftrightarrow> 0 \<le> sint v"
  unfolding sint_uint by (auto simp: signed_take_bit_nonnegative_iff bit_uint_63 fits_ledger_nat)

lemma unat_vcpu_ms: "unat (vcpu_ms c d) = min (unat c * unat d) (2 ^ 64 - 1)"
  by (simp add: vcpu_ms_def unat_sat_mul unsigned_ucast_eq take_bit_nat_eq_self
      order.strict_trans [OF unsigned_less])

lemma ceiling_vcpu_ms_Inr_iff:
  "ceiling_vcpu_ms h = Inr c \<longleftrightarrow> unat h * 3600000 \<le> 2 ^ 63 - 1 \<and> unat c = unat h * 3600000"
  by (auto simp: ceiling_vcpu_ms_def Let_def fits_ledger_nat unat_sat_mul MS_PER_VCPU_HOUR_def
      min_def word_unat_eq_iff split: if_splits)


section \<open>The month of an instant\<close>

definition civil_from_days :: "int \<Rightarrow> int \<times> int" where
  "civil_from_days z0 =
     (let z = z0 + 719468;
          era = (if z \<ge> 0 then z else z - 146096) sdiv 146097;
          doe = z - era * 146097;
          yoe = (doe - doe sdiv 1460 + doe sdiv 36524 - doe sdiv 146096) sdiv 365;
          year = yoe + era * 400;
          doy = doe - (365 * yoe + yoe sdiv 4 - yoe sdiv 100);
          mp = (5 * doy + 2) sdiv 153;
          month = (if mp < 10 then mp + 3 else mp - 9)
      in (year + (if month \<le> 2 then 1 else 0), month))"

text \<open>\<open>None\<close> is the failed assertion on the month.\<close>

definition period_key :: "u64 \<Rightarrow> u32 option" where
  "period_key now_ms =
     (let days = sint (now_ms div 86400000);
          (year, month) = civil_from_days days
      in if 1 \<le> month \<and> month \<le> 12 then Some (word_of_int year * 100 + word_of_int month)
         else None)"


subsection \<open>The Gregorian calendar\<close>

definition is_leap :: "int \<Rightarrow> bool" where
  "is_leap y \<longleftrightarrow> 4 dvd y \<and> (\<not> 100 dvd y \<or> 400 dvd y)"

definition days_in_month :: "int \<Rightarrow> int \<Rightarrow> int" where
  "days_in_month y m =
     (if m = 2 then (if is_leap y then 29 else 28)
      else if m \<in> {4, 6, 9, 11} then 30 else 31)"

text \<open>Days from 1970-01-01 to the first of January of a year, fixed by the two lemmas below.\<close>

definition leaps :: "int \<Rightarrow> int" where
  "leaps y = y div 4 - y div 100 + y div 400"

definition days_before_year :: "int \<Rightarrow> int" where
  "days_before_year y = 365 * (y - 1970) + leaps (y - 1) - leaps 1969"

lemma leaps_1969: "leaps 1969 = 477"
  by (simp add: leaps_def)

lemma days_before_1970: "days_before_year 1970 = 0"
  by (simp add: days_before_year_def)

lemma div_pred: "0 < n \<Longrightarrow> y div n = (y - 1) div n + (if n dvd y then 1 else 0)" for y n :: int
proof (cases "n dvd y")
  case True
  assume n: "0 < n"
  from True obtain q where q: "y = n * q" by (auto elim: dvdE)
  have "(n * q - 1) div n = q - 1"
    using n by (intro int_div_pos_eq [where r = "n - 1"]) (auto simp: algebra_simps)
  with q True n show ?thesis by simp
next
  case False
  assume n: "0 < n"
  define q r where "q = y div n" and "r = y mod n"
  have y: "y = n * q + r" by (simp add: q_def r_def)
  have "r \<noteq> 0" "0 \<le> r" "r < n" using False n by (auto simp: r_def dvd_eq_mod_eq_0)
  then have "(y - 1) div n = q"
    using y by (intro int_div_pos_eq [where r = "r - 1"]) auto
  with False show ?thesis by (simp add: q_def)
qed

lemma leap_dvd: "100 dvd y \<Longrightarrow> 4 dvd y" "400 dvd y \<Longrightarrow> 100 dvd y" for y :: int
proof -
  have d: "(4::int) dvd 100" "(100::int) dvd 400" by simp_all
  show "100 dvd y \<Longrightarrow> 4 dvd y" by (rule dvd_trans [OF d(1)])
  show "400 dvd y \<Longrightarrow> 100 dvd y" by (rule dvd_trans [OF d(2)])
qed

lemma leap_count_arith:
  "a = a' + (if P then 1 else 0) \<Longrightarrow> b = b' + (if Q then 1 else 0) \<Longrightarrow> c = c' + (if R then 1 else 0)
     \<Longrightarrow> (Q \<longrightarrow> P) \<Longrightarrow> (R \<longrightarrow> Q)
     \<Longrightarrow> a - b + c = a' - b' + c' + (if P \<and> (\<not> Q \<or> R) then 1 else 0)" for a a' b b' c c' :: int
  by (cases P; cases Q; cases R; simp)

lemma leap_count: "leaps y = leaps (y - 1) + (if is_leap y then 1 else 0)"
  unfolding is_leap_def leaps_def
  by (rule leap_count_arith [OF div_pred div_pred div_pred]) (use leap_dvd [of y] in simp_all)

lemma days_before_year_Suc:
  "days_before_year (y + 1) = days_before_year y + (if is_leap y then 366 else 365)"
  using leap_count [of y] by (simp add: days_before_year_def)

definition first_of_month :: "int \<Rightarrow> int \<Rightarrow> int" where
  "first_of_month y m = days_before_year y +
     (\<Sum>k\<leftarrow>filter (\<lambda>k. k < m) [1, 2, 3, 4, 5, 6, 7, 8, 9, 10, 11, 12]. days_in_month y k)"



subsection \<open>The algorithm follows the calendar\<close>

lemma sdiv_nonneg: "0 \<le> a \<Longrightarrow> 0 < b \<Longrightarrow> a sdiv b = a div b" for a b :: int
  by (cases "a = 0") (simp_all add: signed_divide_int_def sgn_if)

lemma era_floor: "(if z \<ge> 0 then z else z - 146096) sdiv 146097 = z div 146097" for z :: int
proof (cases "z \<ge> 0")
  case True
  then show ?thesis by (simp add: sdiv_nonneg)
next
  case False
  then have "(z - 146096) sdiv 146097 = - ((146096 - z) div 146097)"
    by (simp add: signed_divide_int_def sgn_if)
  also have "(146096 - z) div 146097 = - (z div 146097)"
    by (rule int_div_pos_eq [where r = "146096 - z mod 146097"])
      (use mult_div_mod_eq [of 146097 z] pos_mod_bound [of 146097 z] pos_mod_sign [of 146097 z] in linarith)+
  finally show ?thesis using False by simp
qed

lemma div_shift: "(365 * q + x) div 365 = q + x div 365" "(1460 * q + x) div 1460 = q + x div 1460"
   "(36524 * q + x) div 36524 = q + x div 36524" for q x :: int
  by (simp_all only: div_mult_self4)

lemma yoe_century:
  fixes b r :: int
  assumes "0 \<le> b" "b \<le> 3" "0 \<le> r" "r < 36524"
  defines "doe \<equiv> 36524 * b + r"
  shows "(doe - doe div 1460 + doe div 36524 - doe div 146096) div 365
      = 100 * b + 4 * (r div 1461) + min 3 (r mod 1461 div 365)"
proof -
  define k s where "k = r div 1461" and "s = r mod 1461"
  have r: "r = 1461 * k + s" by (simp add: k_def s_def)
  have s: "0 \<le> s" "s < 1461" by (simp_all add: s_def)
  have k: "0 \<le> k" "k \<le> 24" using assms r s by linarith+
  have d1: "doe div 36524 = b" unfolding doe_def using div_shift(3) [of b r] div_pos_pos_trivial [of r 36524] assms(3,4) by linarith
  have d2: "doe div 146096 = 0"
    by (rule div_pos_pos_trivial) (use assms in \<open>simp_all add: doe_def\<close>)
  have d3: "doe div 1460 = 25 * b + k + (24 * b + k + s) div 1460"
  proof -
    have "doe = 1460 * (25 * b + k) + (24 * b + k + s)" by (simp add: doe_def r)
    then show ?thesis by (simp only: div_shift)
  qed
  have "doe = 36524 * b + 1461 * k + s" by (simp add: doe_def r)
  then have "doe - doe div 1460 + doe div 36524 - doe div 146096
      = 365 * (100 * b + 4 * k) + (s - (24 * b + k + s) div 1460)"
    unfolding d1 d2 d3 by (simp only: distrib_left)
  then have n: "(doe - doe div 1460 + doe div 36524 - doe div 146096) div 365
      = 100 * b + 4 * k + (s - (24 * b + k + s) div 1460) div 365"
    by (simp only: div_shift)
  have "(s - (24 * b + k + s) div 1460) div 365 = min 3 (s div 365)"
  proof (cases "24 * b + k + s < 1460")
    case True
    then have "(24 * b + k + s) div 1460 = 0" using assms k s by (intro div_pos_pos_trivial) auto
    moreover have "s < 1460" using True assms k by linarith
    then have "s div 365 \<le> 3" using s by linarith
    ultimately show ?thesis by simp
  next
    case False
    then have "(24 * b + k + s) div 1460 = 1"
      using assms k s by (intro int_div_pos_eq [where r = "24 * b + k + s - 1460"]) auto
    moreover have "1364 \<le> s" using False assms k by linarith
    then have "(s - 1) div 365 = 3" "3 \<le> s div 365" using s by linarith+
    ultimately show ?thesis by simp
  qed
  with n show ?thesis by (simp only: k_def s_def)
qed

lemma le_div5: "5 * a \<le> n \<Longrightarrow> a \<le> n div 5" for a n :: int
  by linarith

lemma div5_le: "n \<le> 5 * a + 4 \<Longrightarrow> n div 5 \<le> a" for a n :: int
  by linarith

lemma month_of_doy:
  fixes doy :: int
  assumes "0 \<le> doy" "doy \<le> 365"
  defines "mp \<equiv> (5 * doy + 2) div 153"
  shows "0 \<le> mp" "mp \<le> 11" "(153 * mp + 2) div 5 \<le> doy" "doy < (153 * (mp + 1) + 2) div 5"
proof -
  define x where "x = (5 * doy + 2) mod 153"
  have x: "0 \<le> x" "x < 153" "5 * doy + 2 = 153 * mp + x" by (simp_all add: x_def mp_def)
  show "0 \<le> mp" "mp \<le> 11" using x assms by linarith+
  show "(153 * mp + 2) div 5 \<le> doy" "doy < (153 * (mp + 1) + 2) div 5"
    using x le_div5 [of "doy + 1" "153 * (mp + 1) + 2"] div5_le [of "153 * mp + 2" doy] by simp_all
qed

definition march_days :: "int \<Rightarrow> int" where
  "march_days y = 365 * y + y div 4 - y div 100"

lemma yoe_bounds:
  fixes doe :: int
  assumes "0 \<le> doe" "doe \<le> 146096"
  defines "yoe \<equiv> (doe - doe div 1460 + doe div 36524 - doe div 146096) div 365"
  shows "0 \<le> yoe \<and> yoe \<le> 399 \<and> march_days yoe \<le> doe \<and> doe \<le> march_days yoe + 365 \<and>
    (doe = march_days yoe + 365 \<longrightarrow> 4 dvd yoe + 1 \<and> (\<not> 100 dvd yoe + 1 \<or> 400 dvd yoe + 1))"
proof (cases "doe = 146096")
  case True
  then show ?thesis by (simp add: yoe_def march_days_def)
next
  case False
  define b r where "b = doe div 36524" and "r = doe mod 36524"
  have r: "0 \<le> r" "r < 36524" and doe: "doe = 36524 * b + r" by (simp_all add: b_def r_def)
  have b: "0 \<le> b" "b \<le> 3" using assms False r doe by linarith+
  define k s where "k = r div 1461" and "s = r mod 1461"
  have s: "0 \<le> s" "s < 1461" and rk: "r = 1461 * k + s" by (simp_all add: k_def s_def)
  have k: "0 \<le> k" "k \<le> 24" using r rk s by linarith+
  define j where "j = min 3 (s div 365)"
  have j: "0 \<le> j" "j \<le> 3" "365 * j \<le> s" "s \<le> 365 * j + 365" "s = 365 * j + 365 \<longrightarrow> j = 3"
    using s by (auto simp: j_def min_def)
  have yoe: "yoe = 100 * b + 4 * k + j"
    using yoe_century [OF b r] by (simp only: yoe_def doe k_def s_def j_def)
  have q4: "yoe div 4 = 25 * b + k"
    unfolding yoe using j by (intro int_div_pos_eq [where r = j]) auto
  have q100: "yoe div 100 = b"
    unfolding yoe using j k by (intro int_div_pos_eq [where r = "4 * k + j"]) auto
  have m: "march_days yoe = 36524 * b + 1461 * k + 365 * j"
    unfolding march_days_def q4 q100 by (simp add: yoe)
  have last: "4 dvd yoe + 1 \<and> \<not> 100 dvd yoe + 1" if "doe = march_days yoe + 365"
  proof -
    from that m doe rk j have "s = 1460" "j = 3" by linarith+
    then have "k \<le> 23" using r rk k by linarith
    have y1: "yoe + 1 = 100 * b + 4 * (k + 1)" using yoe \<open>j = 3\<close> by simp
    have "4 dvd yoe + 1" unfolding y1 by presburger
    moreover have "(yoe + 1) mod 100 = 4 * (k + 1)"
      unfolding y1 using k \<open>k \<le> 23\<close> by (simp add: mod_pos_pos_trivial)
    ultimately show ?thesis using k by (auto simp: dvd_eq_mod_eq_0)
  qed
  show ?thesis using yoe b k j m doe rk last by auto
qed

lemma march_first:
  "days_before_year y + 59 + (if is_leap y then 1 else 0) = march_days y + y div 400 - 719468"
proof -
  have "march_days y + y div 400 = 365 * y + leaps y" by (simp add: march_days_def leaps_def)
  then show ?thesis by (simp add: days_before_year_def leap_count [of y] leaps_1969)
qed

lemma first_of_month_march:
  assumes "0 \<le> mp" "mp \<le> 9"
  shows "first_of_month y (mp + 3) = march_days y + y div 400 - 719468 + (153 * mp + 2) div 5"
    and "days_in_month y (mp + 3) = (153 * (mp + 1) + 2) div 5 - (153 * mp + 2) div 5"
proof -
  have "mp \<in> {0..9}" using assms by simp
  also have "{0..9::int} = {0, 1, 2, 3, 4, 5, 6, 7, 8, 9}" by (simp add: upto.simps flip: set_upto)
  finally have mp: "mp \<in> {0, 1, 2, 3, 4, 5, 6, 7, 8, 9}" .
  show "first_of_month y (mp + 3) =
      march_days y + y div 400 - 719468 + (153 * mp + 2) div 5"
    unfolding march_first [symmetric] using mp
    by (elim insertE) (simp_all add: first_of_month_def days_in_month_def)
  show "days_in_month y (mp + 3) = (153 * (mp + 1) + 2) div 5 - (153 * mp + 2) div 5"
    using mp by (elim insertE) (simp_all add: days_in_month_def)
qed

lemma january_first: "days_before_year (y + 1) = march_days y + y div 400 - 719468 + 306"
  using march_first [of y] days_before_year_Suc [of y] by auto

lemma march_days_cycle:
  assumes "0 \<le> yoe" "yoe \<le> 399"
  shows "march_days (yoe + era * 400) + (yoe + era * 400) div 400 = march_days yoe + 146097 * era"
proof -
  have 4: "(yoe + era * 400) div 4 = era * 100 + yoe div 4"
    using div_mult_self1 [of 4 yoe "era * 100"] by (simp add: mult.assoc)
  have 100: "(yoe + era * 400) div 100 = era * 4 + yoe div 100"
    using div_mult_self1 [of 100 yoe "era * 4"] by (simp add: mult.assoc)
  have 400: "(yoe + era * 400) div 400 = era"
    using div_mult_self1 [of 400 yoe era] assms by (simp add: div_pos_pos_trivial)
  show ?thesis unfolding march_days_def 4 100 400 by (simp only: algebra_simps)
qed

lemma is_leap_cycle: "is_leap (y + era * 400) \<longleftrightarrow> is_leap y"
  unfolding is_leap_def by (simp add: dvd_add_left_iff)

lemma doe_bounds: "0 \<le> (z + 719468) mod 146097" "(z + 719468) mod 146097 \<le> 146096" for z :: int
  using pos_mod_bound [of 146097 "z + 719468"] by simp_all

lemma civil_from_days_parts:
  fixes z :: int
  defines "era \<equiv> (z + 719468) div 146097"
  defines "doe \<equiv> (z + 719468) mod 146097"
  defines "yoe \<equiv> (doe - doe div 1460 + doe div 36524 - doe div 146096) div 365"
  defines "mp \<equiv> (5 * (doe - march_days yoe) + 2) div 153"
  shows "civil_from_days z =
    (yoe + era * 400 + (if (if mp < 10 then mp + 3 else mp - 9) \<le> 2 then 1 else 0),
     if mp < 10 then mp + 3 else mp - 9)"
proof -
  have doe: "0 \<le> doe" "doe \<le> 146096" using doe_bounds [of z] by (simp_all add: doe_def)
  have yb: "0 \<le> yoe" "march_days yoe \<le> doe" using yoe_bounds [OF doe] by (simp_all only: yoe_def)
  have num: "0 \<le> doe - doe div 1460 + doe div 36524 - doe div 146096"
    using yb(1) unfolding yoe_def by (simp only: pos_imp_zdiv_nonneg_iff)
  have e: "z + 719468 - era * 146097 = doe" by (simp add: era_def doe_def minus_div_mult_eq_mod)
  have s: "doe sdiv n = doe div n" "yoe sdiv n = yoe div n" if "0 < n" for n
    using doe(1) yb(1) that by (simp_all only: sdiv_nonneg)
  have sy: "(doe - doe div 1460 + doe div 36524 - doe div 146096) sdiv 365 = yoe"
    unfolding yoe_def by (rule sdiv_nonneg [OF num]) simp
  have sm: "(5 * (doe - march_days yoe) + 2) sdiv 153 = mp"
    unfolding mp_def by (rule sdiv_nonneg) (use yb in simp_all)
  have m: "365 * yoe + yoe div 4 - yoe div 100 = march_days yoe" by (simp only: march_days_def)
  show ?thesis
    unfolding civil_from_days_def Let_def era_floor era_def [symmetric] e
      s(1) [of 1460, simplified] s(1) [of 36524, simplified] s(1) [of 146096, simplified] sy
      s(2) [of 4, simplified] s(2) [of 100, simplified] m sm
    by (rule refl)
qed

lemma civil_from_days_correct:
  assumes "civil_from_days z = (y, m)"
  shows "1 \<le> m \<and> m \<le> 12 \<and> first_of_month y m \<le> z \<and> z < first_of_month y m + days_in_month y m"
proof -
  define era doe where "era = (z + 719468) div 146097" and "doe = (z + 719468) mod 146097"
  define yoe where "yoe = (doe - doe div 1460 + doe div 36524 - doe div 146096) div 365"
  define doy where "doy = doe - march_days yoe"
  define mp where "mp = (5 * doy + 2) div 153"
  have doe: "0 \<le> doe" "doe \<le> 146096" using doe_bounds [of z] by (simp_all add: doe_def)
  note yb = yoe_bounds [OF doe, folded yoe_def]
  have doy: "0 \<le> doy" "doy \<le> 365" using yb by (auto simp: doy_def)
  note mb = month_of_doy [OF doy, folded mp_def]
  have ym: "y = yoe + era * 400 + (if mp < 10 then 0 else 1)" "m = (if mp < 10 then mp + 3 else mp - 9)"
    using assms civil_from_days_parts [of z] mb
    by (auto simp: era_def [symmetric] doe_def [symmetric] yoe_def [symmetric] doy_def [symmetric]
        mp_def [symmetric])
  have zz: "z + 719468 = 146097 * era + doe" by (simp add: era_def doe_def)
  have z: "z = march_days (yoe + era * 400) + (yoe + era * 400) div 400 - 719468 + doy"
    using march_days_cycle [of yoe era] yb zz unfolding doy_def by linarith
  show ?thesis
  proof (cases "mp < 10")
    case True
    with ym mb z first_of_month_march [of mp y] show ?thesis by simp
  next
    case False
    then have mp: "mp = 10 \<or> mp = 11" using mb by auto
    have "y = (yoe + 1) + era * 400" using ym False by simp
    then have "is_leap y \<longleftrightarrow> is_leap (yoe + 1)" using is_leap_cycle [of "yoe + 1" era] by simp
    then have fin: "doy \<le> 364 \<or> is_leap y" using yb unfolding doy_def is_leap_def by force
    have "days_before_year y = march_days (yoe + era * 400) + (yoe + era * 400) div 400 - 719468 + 306"
      using january_first [of "yoe + era * 400"] ym False by simp
    with mp ym z mb fin doy show ?thesis
      by (auto simp: first_of_month_def days_in_month_def)
  qed
qed


subsection \<open>The packed key\<close>

lemma days_before_year_ge: "1970 \<le> y \<Longrightarrow> 365 * (y - 1970) \<le> days_before_year y"
  by (induction y rule: int_ge_induct) (auto simp: days_before_1970 days_before_year_Suc)

lemma days_before_year_le: "y \<le> 1970 \<Longrightarrow> days_before_year y \<le> 0"
proof (induction y rule: int_le_induct)
  case (step y)
  then show ?case using days_before_year_Suc [of "y - 1"] by (simp split: if_splits)
qed (simp add: days_before_1970)

lemma month_end_le:
  assumes "1 \<le> m" "m \<le> 12"
  shows "first_of_month y m + days_in_month y m \<le> days_before_year (y + 1)"
    and "days_before_year y \<le> first_of_month y m"
proof -
  have "m \<in> {1..12}" using assms by simp
  also have "{1..12::int} = {1, 2, 3, 4, 5, 6, 7, 8, 9, 10, 11, 12}"
    by (simp add: upto.simps flip: set_upto)
  finally have m: "m \<in> {1, 2, 3, 4, 5, 6, 7, 8, 9, 10, 11, 12}" .
  show "first_of_month y m + days_in_month y m \<le> days_before_year (y + 1)"
    using m by (elim insertE) (simp_all add: first_of_month_def days_in_month_def days_before_year_Suc)
  show "days_before_year y \<le> first_of_month y m"
    using m by (elim insertE) (simp_all add: first_of_month_def days_in_month_def)
qed

lemma civil_year_bounds:
  assumes "civil_from_days z = (y, m)" "0 \<le> z"
  shows "1970 \<le> y" "365 * (y - 1970) \<le> z"
proof -
  note c = civil_from_days_correct [OF assms(1)]
  show "1970 \<le> y"
  proof (rule ccontr)
    assume "\<not> 1970 \<le> y"
    then have "days_before_year (y + 1) \<le> 0" by (intro days_before_year_le) simp
    with c month_end_le(1) [of m y] assms(2) show False by simp
  qed
  then show "365 * (y - 1970) \<le> z"
    using c month_end_le(2) [of m y] days_before_year_ge [of y] by simp
qed

lemma sint_days: "sint (now_ms div 86400000) = int (unat now_ms div 86400000)" for now_ms :: u64
proof -
  have "unat (now_ms div 86400000) = unat now_ms div 86400000" by (simp add: unat_div)
  moreover have "unat now_ms < 2 ^ 64" using unsigned_less [of now_ms, where ?'a = nat] by simp
  ultimately have d: "unat (now_ms div 86400000) < 2 ^ 63" by simp
  then have "sint (now_ms div 86400000) = int (unat (now_ms div 86400000))"
    using bit_uint_63 [of "now_ms div 86400000"]
    using take_bit_int_eq_self [of "uint (now_ms div 86400000)" 64]
      uint_lt2p [of "now_ms div 86400000"]
    by (simp add: sint_uint signed_take_bit_eq_take_bit_minus)
  then show ?thesis by (simp add: unat_div)
qed

lemma period_key_civil:
  assumes "civil_from_days (int (unat now_ms div 86400000)) = (y, m)"
  shows "period_key now_ms = Some (word_of_int y * 100 + word_of_int m)"
  using civil_from_days_correct [OF assms] assms by (simp add: period_key_def sint_days)

lemma unat_packed_key:
  assumes "0 \<le> y" "y \<le> 42949671" "1 \<le> m" "m \<le> 12"
  shows "unat (word_of_int y * 100 + word_of_int m :: u32) = nat (100 * y + m)"
proof -
  have "word_of_int y * 100 + word_of_int m = (word_of_int (100 * y + m) :: u32)"
    by (simp add: mult.commute)
  moreover have "uint (word_of_int (100 * y + m) :: u32) = 100 * y + m"
    unfolding uint_word_of_int by (rule mod_pos_pos_trivial) (use assms in simp_all)
  ultimately show ?thesis by (simp only: unat_eq_nat_uint)
qed


text \<open>C23: the billing month is the calendar month. For every instant up to the year 42,949,671 the period
  key is \<open>YYYYMM\<close> of the Gregorian month the instant falls in: the instant lies on or after the first
  day of that month and before the first day after it.\<close>

theorem period_key_is_calendar_month:
  assumes "unat now_ms < 365 * 42947701 * 86400000"
  shows "\<exists>y m. period_key now_ms = Some (of_nat (100 * y + m)) \<and> 100 * y + m < 2 ^ 32 \<and> 1 \<le> m \<and> m \<le> 12 \<and>
    first_of_month (int y) (int m) * 86400000 \<le> int (unat now_ms) \<and>
    int (unat now_ms) < (first_of_month (int y) (int m) + days_in_month (int y) (int m)) * 86400000"
proof -
  define k where "k = unat now_ms div 86400000"
  define z where "z = int k"
  have k: "k < 365 * 42947701" unfolding k_def using assms by (rule less_mult_imp_div_less)
  have k2: "k * 86400000 \<le> unat now_ms" "unat now_ms < (k + 1) * 86400000"
    using div_mult_mod_eq [of "unat now_ms" 86400000] mod_less_divisor [of 86400000 "unat now_ms"]
    unfolding k_def [symmetric] by (simp_all add: algebra_simps)
  obtain y m where c: "civil_from_days z = (y, m)" by (cases "civil_from_days z")
  note mo = civil_from_days_correct [OF c]
  have z: "0 \<le> z" "z < 365 * 42947701" using k by (simp_all add: z_def)
  have y: "1970 \<le> y" "365 * (y - 1970) \<le> z" using civil_year_bounds [OF c z(1)] by auto
  then have yb: "0 \<le> y" "y \<le> 42949671" using z(2) by auto
  have key: "unat (word_of_int y * 100 + word_of_int m :: u32) = 100 * nat y + nat m"
    using unat_packed_key [OF yb, of m] mo yb by (simp add: nat_add_distrib nat_mult_distrib)
  have bound: "100 * nat y + nat m < 2 ^ 32"
    using unsigned_less [of "word_of_int y * 100 + word_of_int m :: u32", where ?'a = nat] unfolding key by simp
  have "word_of_int y * 100 + word_of_int m = (of_nat (100 * nat y + nat m) :: u32)"
    by (simp only: word_unat_eq_iff key unat_of_nat_u32 [OF bound])
  then have p: "period_key now_ms = Some (of_nat (100 * nat y + nat m))"
    using period_key_civil [of now_ms y m] c by (simp only: z_def k_def)
  have t: "z * 86400000 \<le> int (unat now_ms)" "int (unat now_ms) < (z + 1) * 86400000"
    using k2 unfolding z_def distrib_right add_mult_distrib by linarith+
  have "first_of_month y m * 86400000 \<le> z * 86400000"
    "(z + 1) * 86400000 \<le> (first_of_month y m + days_in_month y m) * 86400000"
    using mo by (intro mult_right_mono; simp)+
  with t p bound mo yb show ?thesis
    by (intro exI [of _ "nat y"] exI [of _ "nat m"]) auto
qed

theorem period_key_is_calendar_month_witness:
  "\<exists>y m. period_key 1709164800000 = Some (of_nat (100 * y + m)) \<and> 1 \<le> m \<and> m \<le> 12 \<and>
     first_of_month (int y) (int m) * 86400000 \<le> 1709164800000"
  using period_key_is_calendar_month [of 1709164800000] by fastforce

end
