(* ===== verification/Rust_Str.thy ===== *)
theory Rust_Str
  imports Prelude
begin

text \<open>
  The parts of Rust's \<open>str\<close> that the modelled code uses, on strings as sequences of UTF-8 bytes:
  validity, \<open>lines\<close>, the whitespace test behind \<open>trim().is_empty()\<close>, \<open>strip_prefix\<close>; and the comparison of
  secrets that does not stop at the first difference.
\<close>

section \<open>Bytes\<close>

abbreviation byte :: "char \<Rightarrow> nat" where
  "byte c \<equiv> of_char c"

abbreviation newline :: char where
  "newline \<equiv> CHR 0x0A"

definition utf8_cont :: "char \<Rightarrow> bool" where
  "utf8_cont c \<longleftrightarrow> 128 \<le> byte c \<and> byte c \<le> 191"

definition utf8_three :: "char \<Rightarrow> char \<Rightarrow> char \<Rightarrow> bool" where
  "utf8_three a b c \<longleftrightarrow> utf8_cont c \<and>
     (byte a = 224 \<and> 160 \<le> byte b \<and> byte b \<le> 191 \<or>
      225 \<le> byte a \<and> byte a \<le> 236 \<and> utf8_cont b \<or>
      byte a = 237 \<and> 128 \<le> byte b \<and> byte b \<le> 159 \<or>
      238 \<le> byte a \<and> byte a \<le> 239 \<and> utf8_cont b)"

definition utf8_four :: "char \<Rightarrow> char \<Rightarrow> char \<Rightarrow> char \<Rightarrow> bool" where
  "utf8_four a b c d \<longleftrightarrow> utf8_cont c \<and> utf8_cont d \<and>
     (byte a = 240 \<and> 144 \<le> byte b \<and> byte b \<le> 191 \<or>
      241 \<le> byte a \<and> byte a \<le> 243 \<and> utf8_cont b \<or>
      byte a = 244 \<and> 128 \<le> byte b \<and> byte b \<le> 143)"

fun utf8_valid :: "string \<Rightarrow> bool" where
  "utf8_valid [] = True"
| "utf8_valid (a # r) =
     (if byte a < 128 then utf8_valid r
      else case r of [] \<Rightarrow> False | b # r2 \<Rightarrow>
        if 194 \<le> byte a \<and> byte a \<le> 223 \<and> utf8_cont b then utf8_valid r2
        else case r2 of [] \<Rightarrow> False | c # r3 \<Rightarrow>
          if utf8_three a b c then utf8_valid r3
          else case r3 of [] \<Rightarrow> False | d # r4 \<Rightarrow> utf8_four a b c d \<and> utf8_valid r4)"

lemma utf8_valid_append: "utf8_valid x \<Longrightarrow> utf8_valid (x @ y) \<longleftrightarrow> utf8_valid y"
proof (induction x rule: utf8_valid.induct)
  case (2 a r)
  show ?case
  proof (cases "byte a < 128")
    case True
    with 2 show ?thesis by simp
  next
    case a: False
    with 2(5) obtain b r2 where r: "r = b # r2" by (cases r) simp_all
    show ?thesis
    proof (cases "194 \<le> byte a \<and> byte a \<le> 223 \<and> utf8_cont b")
      case True
      with 2(2) [OF a r True] 2(5) a r show ?thesis by simp
    next
      case b: False
      with 2(5) a r obtain c r3 where r2: "r2 = c # r3" by (cases r2) simp_all
      show ?thesis
      proof (cases "utf8_three a b c")
        case True
        with 2(3) [OF a r b r2 True] 2(5) a b r r2 show ?thesis by auto
      next
        case c: False
        with 2(5) a b r r2 obtain d r4 where "r3 = d # r4" by (cases r3) simp_all
        with 2(4) [OF a r b r2 c this] 2(5) a b c r r2 show ?thesis by auto
      qed
    qed
  qed
qed simp

lemma utf8_valid_ascii: "list_all (\<lambda>c. byte c < 128) x \<Longrightarrow> utf8_valid x"
  by (induction x) auto


section \<open>Lines\<close>

fun split_inclusive :: "string \<Rightarrow> string list" where
  "split_inclusive [] = []"
| "split_inclusive (c # cs) =
     (if c = newline then [c] # split_inclusive cs
      else case split_inclusive cs of [] \<Rightarrow> [[c]] | l # ls \<Rightarrow> (c # l) # ls)"

definition strip_eol :: "string \<Rightarrow> string" where
  "strip_eol l =
     (if l \<noteq> [] \<and> last l = newline
      then let m = butlast l in if m \<noteq> [] \<and> last m = CHR 0x0D then butlast m else m
      else l)"

definition str_lines :: "string \<Rightarrow> string list" where
  "str_lines s = map strip_eol (split_inclusive s)"

lemma split_inclusive_line:
  assumes "newline \<notin> set t"
  shows "split_inclusive (t @ newline # s) = (t @ [newline]) # split_inclusive s"
  using assms by (induction t) (auto split: list.splits)

lemma split_inclusive_rest:
  assumes "newline \<notin> set t" and "t \<noteq> []"
  shows "split_inclusive t = [t]"
  using assms
proof (induction t)
  case (Cons c t)
  then show ?case by (cases t) auto
qed simp

lemma strip_eol_line: "t = [] \<or> last t \<noteq> CHR 0x0D \<Longrightarrow> strip_eol (t @ [newline]) = t"
  by (auto simp: strip_eol_def Let_def)

lemma strip_eol_rest: "newline \<notin> set t \<Longrightarrow> strip_eol t = t"
  using last_in_set by (fastforce simp: strip_eol_def)

lemma str_lines_line:
  "newline \<notin> set t \<Longrightarrow> t = [] \<or> last t \<noteq> CHR 0x0D \<Longrightarrow> str_lines (t @ newline # s) = t # str_lines s"
  by (simp add: str_lines_def split_inclusive_line strip_eol_line)

lemma str_lines_rest: "newline \<notin> set t \<Longrightarrow> t \<noteq> [] \<Longrightarrow> str_lines t = [t]"
  by (simp add: str_lines_def split_inclusive_rest strip_eol_rest)

lemma str_lines_Nil [simp]: "str_lines [] = []"
  by (simp add: str_lines_def)


section \<open>Whitespace and prefixes\<close>

definition is_ascii_ws :: "char \<Rightarrow> bool" where
  "is_ascii_ws c \<longleftrightarrow> 9 \<le> byte c \<and> byte c \<le> 13 \<or> byte c = 32"

definition is_ws2 :: "char \<Rightarrow> char \<Rightarrow> bool" where
  "is_ws2 a b \<longleftrightarrow> byte a = 194 \<and> (byte b = 133 \<or> byte b = 160)"

definition is_ws3 :: "char \<Rightarrow> char \<Rightarrow> char \<Rightarrow> bool" where
  "is_ws3 a b c \<longleftrightarrow>
     byte a = 225 \<and> byte b = 154 \<and> byte c = 128 \<or>
     byte a = 226 \<and> byte b = 128 \<and>
       (128 \<le> byte c \<and> byte c \<le> 138 \<or> byte c = 168 \<or> byte c = 169 \<or> byte c = 175) \<or>
     byte a = 226 \<and> byte b = 129 \<and> byte c = 159 \<or>
     byte a = 227 \<and> byte b = 128 \<and> byte c = 128"

text \<open>Whether every character of a UTF-8 text has the Unicode property \<open>White_Space\<close>.\<close>

fun is_blank :: "string \<Rightarrow> bool" where
  "is_blank [] = True"
| "is_blank (a # r) =
     (if is_ascii_ws a then is_blank r
      else case r of [] \<Rightarrow> False | b # r2 \<Rightarrow>
        if is_ws2 a b then is_blank r2
        else case r2 of [] \<Rightarrow> False | c # r3 \<Rightarrow> is_ws3 a b c \<and> is_blank r3)"

lemma not_blank_ascii:
  "byte a < 128 \<Longrightarrow> \<not> is_ascii_ws a \<Longrightarrow> \<not> is_blank (a # r)"
  by (cases r; cases "tl r") (simp_all add: is_ws2_def is_ws3_def)

definition strip_prefix :: "string \<Rightarrow> string \<Rightarrow> string option" where
  "strip_prefix p s = (if take (length p) s = p then Some (drop (length p) s) else None)"

lemma strip_prefix_Some: "strip_prefix p s = Some r \<longleftrightarrow> s = p @ r"
  unfolding strip_prefix_def
  by (cases "take (length p) s = p") (auto, metis append_take_drop_id)


section \<open>Trimming and case\<close>

text \<open>\<open>str::trim\<close> on UTF-8 text: Unicode white space off both ends.\<close>

function trim_start :: "string \<Rightarrow> string" where
  "trim_start s =
     (if s \<noteq> [] \<and> is_ascii_ws (s ! 0) then trim_start (drop 1 s)
      else if 2 \<le> length s \<and> is_ws2 (s ! 0) (s ! 1) then trim_start (drop 2 s)
      else if 3 \<le> length s \<and> is_ws3 (s ! 0) (s ! 1) (s ! 2) then trim_start (drop 3 s)
      else s)"
  by pat_completeness auto
termination by (relation "measure length") auto

function trim_end_rev :: "string \<Rightarrow> string" where
  "trim_end_rev s =
     (if s \<noteq> [] \<and> is_ascii_ws (s ! 0) then trim_end_rev (drop 1 s)
      else if 2 \<le> length s \<and> is_ws2 (s ! 1) (s ! 0) then trim_end_rev (drop 2 s)
      else if 3 \<le> length s \<and> is_ws3 (s ! 2) (s ! 1) (s ! 0) then trim_end_rev (drop 3 s)
      else s)"
  by pat_completeness auto
termination by (relation "measure length") auto

declare trim_start.simps [simp del] trim_end_rev.simps [simp del]

definition str_trim :: "string \<Rightarrow> string" where
  "str_trim s = rev (trim_end_rev (rev (trim_start s)))"

definition ascii_lower :: "char \<Rightarrow> char" where
  "ascii_lower c = (if 65 \<le> byte c \<and> byte c \<le> 90 then char_of (byte c + 32) else c)"

lemma trim_clean:
  assumes "s \<noteq> []" "list_all (\<lambda>c. byte c < 128 \<and> \<not> is_ascii_ws c) s"
  shows "str_trim s = s"
proof -
  have c: "byte (s ! 0) < 128" "\<not> is_ascii_ws (s ! 0)" "byte (rev s ! 0) < 128" "\<not> is_ascii_ws (rev s ! 0)"
    using assms by (auto simp: list_all_length rev_nth)
  have two: "2 \<le> length s \<Longrightarrow> byte (rev s ! 1) < 128" and three: "3 \<le> length s \<Longrightarrow> byte (rev s ! 2) < 128"
    using assms(2) by (auto simp: list_all_length rev_nth)
  have "trim_start s = s" using c(1,2) by (subst trim_start.simps) (auto simp: is_ws2_def is_ws3_def)
  moreover have "trim_end_rev (rev s) = rev s"
    using c(3,4) two three by (subst trim_end_rev.simps) (auto simp: is_ws2_def is_ws3_def)
  ultimately show ?thesis by (simp add: str_trim_def)
qed

lemma str_trim_Nil [simp]: "str_trim [] = []"
  unfolding str_trim_def by (subst trim_start.simps, subst trim_end_rev.simps) simp

text \<open>\<open>str::trim_end_matches\<close> with a character, and \<open>str::replace\<close> with a non-empty pattern.\<close>

definition trim_end_char :: "char \<Rightarrow> string \<Rightarrow> string" where
  "trim_end_char c s = rev (dropWhile (\<lambda>x. x = c) (rev s))"

function str_replace :: "string \<Rightarrow> string \<Rightarrow> string \<Rightarrow> string" where
  "str_replace pat to s =
     (if pat = [] then s else
      case strip_prefix pat s of
        Some r \<Rightarrow> to @ str_replace pat to r
      | None \<Rightarrow> (case s of [] \<Rightarrow> [] | c # r \<Rightarrow> c # str_replace pat to r))"
  by pat_completeness auto
termination by (relation "measure (\<lambda>(p, t, s). length s)") (auto simp: strip_prefix_Some)

declare str_replace.simps [simp del]

text \<open>\<open>str::split_once\<close> with an ASCII character.\<close>

definition split_once :: "char \<Rightarrow> string \<Rightarrow> (string \<times> string) option" where
  "split_once c s =
     (case dropWhile (\<lambda>x. x \<noteq> c) s of [] \<Rightarrow> None | _ # r \<Rightarrow> Some (takeWhile (\<lambda>x. x \<noteq> c) s, r))"

lemma split_once_Some: "split_once c s = Some (a, b) \<longleftrightarrow> s = a @ c # b \<and> c \<notin> set a"
proof
  assume "split_once c s = Some (a, b)"
  then have d: "dropWhile (\<lambda>x. x \<noteq> c) s = c # b" and a: "a = takeWhile (\<lambda>x. x \<noteq> c) s"
    by (auto simp: split_once_def split: list.splits dest: dropWhile_eq_Cons_conv [THEN iffD1])
  then show "s = a @ c # b \<and> c \<notin> set a"
    by (metis set_takeWhileD takeWhile_dropWhile_id)
next
  assume "s = a @ c # b \<and> c \<notin> set a"
  then have "dropWhile (\<lambda>x. x \<noteq> c) s = c # b" "takeWhile (\<lambda>x. x \<noteq> c) s = a"
    by (auto simp: dropWhile_append takeWhile_append)
  then show "split_once c s = Some (a, b)" by (simp add: split_once_def)
qed

definition is_digit :: "char \<Rightarrow> bool" where
  "is_digit c \<longleftrightarrow> 48 \<le> byte c \<and> byte c \<le> 57"

text \<open>ASCII classes.\<close>

definition is_ascii_alnum :: "char \<Rightarrow> bool" where
  "is_ascii_alnum c \<longleftrightarrow> is_digit c \<or> 65 \<le> byte c \<and> byte c \<le> 90 \<or> 97 \<le> byte c \<and> byte c \<le> 122"

definition is_lower_hex :: "char \<Rightarrow> bool" where
  "is_lower_hex c \<longleftrightarrow> is_digit c \<or> 97 \<le> byte c \<and> byte c \<le> 102"

unbundle bit_operations_syntax

section \<open>Comparison without early exit\<close>

text \<open>\<open>get(i).copied().unwrap_or(0)\<close>, on the bytes.\<close>

definition byte_at :: "string \<Rightarrow> nat \<Rightarrow> nat" where
  "byte_at s i = (if i < length s then byte (s ! i) else 0)"

fun secret_loop :: "string \<Rightarrow> string \<Rightarrow> nat list \<Rightarrow> nat \<Rightarrow> nat" where
  "secret_loop expected presented [] diff = diff"
| "secret_loop expected presented (i # is) diff =
     secret_loop expected presented is (diff OR (byte_at expected i XOR byte_at presented i))"

definition secret_matches :: "string \<Rightarrow> string \<Rightarrow> bool" where
  "secret_matches expected presented \<longleftrightarrow>
     secret_loop expected presented [0..<max (length expected) (length presented)]
       (length expected XOR length presented) = 0"

lemma or_nat_zero: "(a :: nat) OR b = 0 \<longleftrightarrow> a = 0 \<and> b = 0"
  by (metis bit_eq_iff bit_or_iff bit_0_eq bot_apply bot_bool_def)

lemma xor_nat_zero: "(a :: nat) XOR b = 0 \<longleftrightarrow> a = b"
  by (metis bit_eq_iff bit_xor_iff bit_0_eq bot_apply bot_bool_def)

lemma secret_loop_zero:
  "secret_loop expected presented is diff = 0 \<longleftrightarrow> diff = 0 \<and> (\<forall>i \<in> set is. byte_at expected i = byte_at presented i)"
  by (induction expected presented "is" diff rule: secret_loop.induct) (auto simp: or_nat_zero xor_nat_zero)

text \<open>The comparison without an early exit is equality.\<close>

lemma secret_matches_iff: "secret_matches expected presented \<longleftrightarrow> expected = presented"
proof -
  have "secret_matches expected presented \<longleftrightarrow> length expected = length presented \<and>
      (\<forall>i < length expected. byte (expected ! i) = byte (presented ! i))"
    by (auto simp: secret_matches_def secret_loop_zero xor_nat_zero byte_at_def)
  then show ?thesis by (auto simp: list_eq_iff_nth_eq)
qed


section \<open>Decimal numbers\<close>

text \<open>\<open>format!("{n}")\<close> of an unsigned number, and its reading.\<close>

definition digit_char :: "nat \<Rightarrow> char" where
  "digit_char d = char_of (48 + d)"

definition digit_val :: "char \<Rightarrow> nat" where
  "digit_val c = byte c - 48"

fun show_nat :: "nat \<Rightarrow> string" where
  "show_nat n = (if n < 10 then [digit_char n] else show_nat (n div 10) @ [digit_char (n mod 10)])"

declare show_nat.simps [simp del]

definition read_digits :: "string \<Rightarrow> nat" where
  "read_digits s = foldl (\<lambda>acc c. 10 * acc + digit_val c) 0 s"

lemma digit_char_props: "d < 10 \<Longrightarrow> digit_val (digit_char d) = d \<and> is_digit (digit_char d)"
  by (simp add: digit_val_def digit_char_def is_digit_def)

lemma read_digits_snoc: "read_digits (s @ [c]) = 10 * read_digits s + digit_val c"
  by (simp add: read_digits_def)

lemma read_show_nat: "read_digits (show_nat n) = n"
proof (induction n rule: show_nat.induct)
  case (1 n)
  then show ?case
    by (subst show_nat.simps) (simp add: read_digits_snoc digit_char_props read_digits_def [of "[_]"])
qed

lemma show_nat_digits: "list_all is_digit (show_nat n)"
proof (induction n rule: show_nat.induct)
  case (1 n)
  then show ?case by (subst show_nat.simps) (simp add: digit_char_props)
qed

lemma show_nat_nonempty: "show_nat n \<noteq> []"
  by (subst show_nat.simps) simp

lemma show_nat_inject: "show_nat m = show_nat n \<longleftrightarrow> m = n"
  by (metis read_show_nat)

end
