(* ===== verification/Ledger.thy ===== *)
theory Ledger
  imports Compute_Meter Rust_Str
begin

text \<open>
  The authoritative lease ledger, in memory: \<open>corelink-fabric/src/ledger.rs\<close> with its submodules
  \<open>ledger/pending_cleanup.rs\<close> and \<open>ledger/provider_binding.rs\<close>, and the wire state of
  \<open>corelink-runners-contracts/src/runner_lease.rs\<close>. \<open>InMemoryInner\<close> is the record
  \<open>in_memory_inner\<close>; each of its methods is one definition \<open>mem_*\<close> that returns its result
  and the state it leaves. \<open>serde_json::from_str\<close> is the parameter \<open>js\<close>.
\<close>

section \<open>Lease records and the transition matrix\<close>

datatype runner_state = Held | Released | Expired | Crashed

datatype lease_state = Pending | Wire runner_state

definition is_held :: "lease_state \<Rightarrow> bool" where
  "is_held st \<longleftrightarrow> st = Wire Held"

record lease_record =
  lr_lease_id :: string
  lr_tenant :: tenant_id
  lr_state :: lease_state
  lr_box_ref :: string
  lr_created_at_ms :: u64
  lr_updated_at_ms :: u64
  lr_deadline_ms :: "u64 option"
  lr_billing_acquired_at_ms :: "u64 option"

datatype ledger_error =
    IllegalTransition string lease_state runner_state
  | UnknownLease string
  | AlreadyExists string
  | FencedByClaim string
  | HeldWithReservation string
  | CheckpointUnknownLease string
  | CleanupClaimed string
  | NotPending string
  | DifferentProviderRef string
  | ProviderRefTooLong
  | ProviderRefBadPrefix
  | ProviderRefInvalidJson
  | ProviderRefEmptyObject
  | ProviderRefNotObject
  | MutexPoisoned
  | Unsupported string
  | SerializeFailed
  | AppendFailed
  | FsyncFailed

fun transition_is_legal :: "lease_state \<Rightarrow> runner_state \<Rightarrow> bool" where
  "transition_is_legal Pending Held = True"
| "transition_is_legal (Wire Held) Released = True"
| "transition_is_legal (Wire Held) Expired = True"
| "transition_is_legal (Wire Held) Crashed = True"
| "transition_is_legal _ _ = False"

definition apply_transition ::
  "lease_record \<Rightarrow> runner_state \<Rightarrow> u64 \<Rightarrow> ledger_error + lease_record" where
  "apply_transition rec to now_ms =
     (if \<not> transition_is_legal (lr_state rec) to
      then Inl (IllegalTransition (lr_lease_id rec) (lr_state rec) to)
      else let rec1 = rec\<lparr>lr_state := Wire to, lr_updated_at_ms := now_ms\<rparr> in
           Inr (if lr_state rec1 = Wire Held \<and> lr_billing_acquired_at_ms rec1 = None
                then rec1\<lparr>lr_billing_acquired_at_ms := Some now_ms\<rparr> else rec1))"


section \<open>Compute reservations\<close>

record compute_gate =
  cg_period_key :: u32
  cg_ceiling_vcpu_ms :: u64
  cg_box_vcpu_count :: u32
  cg_new_reserved_vcpu_ms :: u64

datatype admit_outcome = Admitted | OverConcurrency | OverCompute

record lease_reservation =
  res_box_vcpu_count :: u32
  res_accrual_period_key :: u32
  res_reserved_vcpu_ms :: u64
  res_accrued_at_ms :: "u64 option"

record accrual_event =
  ae_lease_id :: string
  ae_tenant :: tenant_id
  ae_period_key :: u32
  ae_new_accrual_total :: u64

record in_memory_inner =
  im_records :: "(string, lease_record) hmap"
  im_checkpoints :: "(string, string) hmap"
  im_reservations :: "(string, lease_reservation) hmap"
  im_accruals :: "(tenant_id \<times> u32, u64) hmap"
  im_claims :: "string set"

definition mem_new :: in_memory_inner where
  "mem_new = \<lparr>im_records = [], im_checkpoints = [], im_reservations = [], im_accruals = [],
              im_claims = {}\<rparr>"

definition is_active_for :: "tenant_id \<Rightarrow> lease_record \<Rightarrow> bool" where
  "is_active_for t r \<longleftrightarrow> lr_tenant r = t \<and> (lr_state r = Pending \<or> is_held (lr_state r))"

definition concurrency_only_outcome :: "bool \<Rightarrow> admit_outcome" where
  "concurrency_only_outcome admitted = (if admitted then Admitted else OverConcurrency)"

definition admit_decision ::
  "in_memory_inner \<Rightarrow> lease_record \<Rightarrow> u32 \<Rightarrow> compute_gate
     \<Rightarrow> admit_outcome \<times> lease_reservation option" where
  "admit_decision s rec max_concurrency gate =
     (let sigma = fold (\<lambda>v acc. sat_add acc v)
            (map res_reserved_vcpu_ms
              (filter (\<lambda>res. res_accrual_period_key res = cg_period_key gate)
                (List.map_filter (\<lambda>r. hm_get (im_reservations s) (lr_lease_id r))
                  (filter (is_active_for (lr_tenant rec)) (hm_values (im_records s)))))) 0;
          accrued = (case hm_get (im_accruals s) (lr_tenant rec, cg_period_key gate) of
                       Some v \<Rightarrow> v | None \<Rightarrow> 0);
          projected = sat_add (sat_add accrued sigma) (cg_new_reserved_vcpu_ms gate)
      in if projected > cg_ceiling_vcpu_ms gate then (OverCompute, None)
         else let active = length (filter (is_active_for (lr_tenant rec)) (hm_values (im_records s)))
              in if (of_nat active :: u32) \<ge> max_concurrency then (OverConcurrency, None)
                 else (Admitted,
                       Some \<lparr>res_box_vcpu_count = cg_box_vcpu_count gate,
                             res_accrual_period_key = cg_period_key gate,
                             res_reserved_vcpu_ms = cg_new_reserved_vcpu_ms gate,
                             res_accrued_at_ms = None\<rparr>))"

definition accrue_on_terminal ::
  "string \<Rightarrow> tenant_id \<Rightarrow> u64 \<Rightarrow> runner_state \<Rightarrow> u64 \<Rightarrow> in_memory_inner
     \<Rightarrow> accrual_event option \<times> in_memory_inner" where
  "accrue_on_terminal lease_id t created_at_ms to now_ms s =
     (if to \<notin> {Released, Expired, Crashed} then (None, s)
      else case hm_get (im_reservations s) lease_id of
        None \<Rightarrow> (None, s)
      | Some res \<Rightarrow>
          if res_accrued_at_ms res \<noteq> None then (None, s)
          else let actual = min (vcpu_ms (res_box_vcpu_count res) (sat_sub now_ms created_at_ms))
                              (res_reserved_vcpu_ms res);
                   period = res_accrual_period_key res;
                   entry = (case hm_get (im_accruals s) (t, period) of Some v \<Rightarrow> v | None \<Rightarrow> 0);
                   total = min (sat_add entry actual) MAX_LEDGER_VCPU_MS
               in (Some \<lparr>ae_lease_id = lease_id, ae_tenant = t, ae_period_key = period,
                         ae_new_accrual_total = total\<rparr>,
                   s\<lparr>im_reservations :=
                       hm_insert lease_id (res\<lparr>res_accrued_at_ms := Some now_ms\<rparr>) (im_reservations s),
                     im_accruals := hm_insert (t, period) total (im_accruals s)\<rparr>))"

definition transition_capturing ::
  "string \<Rightarrow> runner_state \<Rightarrow> u64
     \<Rightarrow> (ledger_error, lease_record \<times> accrual_event option, in_memory_inner) op" where
  "transition_capturing lease_id to now_ms s =
     (case hm_get (im_records s) lease_id of
        None \<Rightarrow> (Inl (UnknownLease lease_id), s)
      | Some rec \<Rightarrow>
          (case apply_transition rec to now_ms of
             Inl e \<Rightarrow> (Inl e, s)
           | Inr updated \<Rightarrow>
               let s1 = s\<lparr>im_records := hm_insert lease_id updated (im_records s)\<rparr>;
                   (event, s2) = accrue_on_terminal lease_id (lr_tenant rec) (lr_created_at_ms rec)
                                   to now_ms s1
               in (Inr (updated, event), s2)))"


section \<open>The in-memory operations\<close>

definition mem_set_tenant_suspended :: "string \<Rightarrow> bool \<Rightarrow> (ledger_error, unit, in_memory_inner) op" where
  "mem_set_tenant_suspended t suspended s = (Inr (), s)"

definition mem_is_tenant_suspended_durable ::
  "in_memory_inner \<Rightarrow> string \<Rightarrow> ledger_error + bool" where
  "mem_is_tenant_suspended_durable s t = Inr False"

definition mem_put :: "lease_record \<Rightarrow> (ledger_error, unit, in_memory_inner) op" where
  "mem_put rec s =
     (if hm_contains (lr_lease_id rec) (im_records s) then (Inl (AlreadyExists (lr_lease_id rec)), s)
      else (Inr (), s\<lparr>im_records := hm_insert (lr_lease_id rec) rec (im_records s)\<rparr>))"

definition mem_get :: "in_memory_inner \<Rightarrow> string \<Rightarrow> ledger_error + lease_record option" where
  "mem_get s lease_id = Inr (hm_get (im_records s) lease_id)"

definition mem_transition ::
  "string \<Rightarrow> runner_state \<Rightarrow> u64 \<Rightarrow> (ledger_error, lease_record, in_memory_inner) op" where
  "mem_transition lease_id to now_ms s =
     (if lease_id \<in> im_claims s then (Inl (FencedByClaim lease_id), s)
      else case transition_capturing lease_id to now_ms s of
             (Inl e, s') \<Rightarrow> (Inl e, s')
           | (Inr (updated, accrual), s') \<Rightarrow> (Inr updated, s'))"

definition mem_by_tenant :: "in_memory_inner \<Rightarrow> tenant_id \<Rightarrow> ledger_error + lease_record list" where
  "mem_by_tenant s t =
     Inr (sort_key lr_lease_id (filter (\<lambda>r. lr_tenant r = t) (hm_values (im_records s))))"

definition mem_held :: "in_memory_inner \<Rightarrow> ledger_error + lease_record list" where
  "mem_held s =
     Inr (sort_key lr_lease_id (filter (\<lambda>r. is_held (lr_state r)) (hm_values (im_records s))))"

definition mem_pending_older_than ::
  "in_memory_inner \<Rightarrow> u64 \<Rightarrow> u64 \<Rightarrow> ledger_error + lease_record list" where
  "mem_pending_older_than s now_ms max_age_ms =
     (let cutoff = sat_sub now_ms max_age_ms in
      Inr (sort_key lr_lease_id
        (filter (\<lambda>r. lr_state r = Pending \<and> lr_created_at_ms r < cutoff) (hm_values (im_records s)))))"

definition mem_try_admit ::
  "lease_record \<Rightarrow> u32 \<Rightarrow> (ledger_error, bool, in_memory_inner) op" where
  "mem_try_admit rec max_concurrency s =
     (let active = length (filter (is_active_for (lr_tenant rec)) (hm_values (im_records s))) in
      if (of_nat active :: u32) < max_concurrency
      then case mem_put rec s of (Inl e, s') \<Rightarrow> (Inl e, s') | (Inr u, s') \<Rightarrow> (Inr True, s')
      else (Inr False, s))"

definition concurrency_only_admit ::
  "lease_record \<Rightarrow> u32 \<Rightarrow> (ledger_error, admit_outcome, in_memory_inner) op" where
  "concurrency_only_admit rec max_concurrency s =
     (case mem_try_admit rec max_concurrency s of
        (Inl e, s') \<Rightarrow> (Inl e, s')
      | (Inr admitted, s') \<Rightarrow> (Inr (concurrency_only_outcome admitted), s'))"

definition mem_try_admit_with_compute ::
  "lease_record \<Rightarrow> u32 \<Rightarrow> compute_gate option \<Rightarrow> (ledger_error, admit_outcome, in_memory_inner) op"
where
  "mem_try_admit_with_compute rec max_concurrency gate_opt s =
     (case gate_opt of
        None \<Rightarrow> concurrency_only_admit rec max_concurrency s
      | Some gate \<Rightarrow>
          if cg_ceiling_vcpu_ms gate = 0 then concurrency_only_admit rec max_concurrency s
          else case admit_decision s rec max_concurrency gate of
                 (Admitted, Some res) \<Rightarrow>
                   (case mem_put rec s of
                      (Inl e, s') \<Rightarrow> (Inl e, s')
                    | (Inr u, s') \<Rightarrow>
                        (Inr Admitted,
                         s'\<lparr>im_reservations := hm_insert (lr_lease_id rec) res (im_reservations s')\<rparr>))
               | (outcome, reservation) \<Rightarrow> (Inr outcome, s))"

definition mem_compute_accrued :: "in_memory_inner \<Rightarrow> tenant_id \<Rightarrow> u32 \<Rightarrow> ledger_error + u64" where
  "mem_compute_accrued s t period =
     Inr (case hm_get (im_accruals s) (t, period) of Some v \<Rightarrow> v | None \<Rightarrow> 0)"

definition mem_set_envelope_checkpoint ::
  "string \<Rightarrow> string \<Rightarrow> (ledger_error, unit, in_memory_inner) op" where
  "mem_set_envelope_checkpoint lease_id checkpoint_json s =
     (if \<not> hm_contains lease_id (im_records s) then (Inl (CheckpointUnknownLease lease_id), s)
      else (Inr (), s\<lparr>im_checkpoints := hm_insert lease_id checkpoint_json (im_checkpoints s)\<rparr>))"

definition mem_get_envelope_checkpoint ::
  "in_memory_inner \<Rightarrow> string \<Rightarrow> ledger_error + string option" where
  "mem_get_envelope_checkpoint s lease_id = Inr (hm_get (im_checkpoints s) lease_id)"

definition mem_remove :: "string \<Rightarrow> (ledger_error, bool, in_memory_inner) op" where
  "mem_remove lease_id s =
     (if lease_id \<in> im_claims s then (Inl (FencedByClaim lease_id), s)
      else if (case hm_get (im_records s) lease_id of
                 Some rec \<Rightarrow> is_held (lr_state rec) \<and> hm_contains lease_id (im_reservations s)
               | None \<Rightarrow> False)
           then (Inl (HeldWithReservation lease_id), s)
      else (Inr (hm_contains lease_id (im_records s)),
            s\<lparr>im_checkpoints := hm_remove lease_id (im_checkpoints s),
              im_reservations := hm_remove lease_id (im_reservations s),
              im_records := hm_remove lease_id (im_records s)\<rparr>))"

definition mem_remove_if_pending :: "string \<Rightarrow> (ledger_error, bool, in_memory_inner) op" where
  "mem_remove_if_pending lease_id s =
     (if lease_id \<in> im_claims s then (Inr False, s)
      else case hm_get (im_records s) lease_id of
             Some rec \<Rightarrow> if lr_state rec = Pending then mem_remove lease_id s else (Inr False, s)
           | None \<Rightarrow> (Inr False, s))"


section \<open>Stale-Pending cleanup\<close>

definition is_stale_pending :: "lease_record \<Rightarrow> u64 \<Rightarrow> bool" where
  "is_stale_pending rec cutoff_ms \<longleftrightarrow> lr_state rec = Pending \<and> lr_created_at_ms rec < cutoff_ms"

definition candidates :: "in_memory_inner \<Rightarrow> u64 \<Rightarrow> u64 \<Rightarrow> lease_record list" where
  "candidates s now_ms max_age_ms =
     (let cutoff = sat_sub now_ms max_age_ms in
      sort_key lr_lease_id
        (filter (\<lambda>r. lr_state r = Pending \<and>
                   (is_stale_pending r cutoff \<or> lr_lease_id r \<in> im_claims s))
          (hm_values (im_records s))))"

definition mem_claim_pending_cleanup ::
  "string \<Rightarrow> u64 \<Rightarrow> (ledger_error, lease_record option, in_memory_inner) op" where
  "mem_claim_pending_cleanup lease_id now_ms s =
     (case hm_get (im_records s) lease_id of
        None \<Rightarrow> (Inr None, s)
      | Some rec \<Rightarrow>
          if lr_state rec \<noteq> Pending then (Inr None, s)
          else (Inr (Some rec), s\<lparr>im_claims := insert lease_id (im_claims s)\<rparr>))"

definition mem_claim_stale_pending_cleanup ::
  "u64 \<Rightarrow> u64 \<Rightarrow> (ledger_error, lease_record list, in_memory_inner) op" where
  "mem_claim_stale_pending_cleanup now_ms max_age_ms s =
     (let rows = candidates s now_ms max_age_ms in
      (Inr rows, s\<lparr>im_claims := fold (\<lambda>row cs. insert (lr_lease_id row) cs) rows (im_claims s)\<rparr>))"

definition mem_finish_pending_cleanup :: "string \<Rightarrow> (ledger_error, bool, in_memory_inner) op" where
  "mem_finish_pending_cleanup lease_id s =
     (if lease_id \<notin> im_claims s \<or>
         (case hm_get (im_records s) lease_id of Some rec \<Rightarrow> lr_state rec \<noteq> Pending | None \<Rightarrow> True)
      then (Inr False, s)
      else (Inr (hm_contains lease_id (im_records s)),
            s\<lparr>im_claims := im_claims s - {lease_id},
              im_checkpoints := hm_remove lease_id (im_checkpoints s),
              im_reservations := hm_remove lease_id (im_reservations s),
              im_records := hm_remove lease_id (im_records s)\<rparr>))"


section \<open>Provider references\<close>

text \<open>What the code reads off a parsed JSON value: whether it is an object, and of how many
  members. \<open>None\<close> is a parse error.\<close>

datatype json_shape = JsonObject nat | JsonOther

type_synonym json_parser = "string \<Rightarrow> json_shape option"

definition PROVIDER_REF_PREFIX :: string where
  "PROVIDER_REF_PREFIX = ''provider-ref:v1:''"

definition PROVIDER_REF_MAX_BYTES :: nat where
  "PROVIDER_REF_MAX_BYTES = 4096"

definition validate_provider_ref :: "json_parser \<Rightarrow> string \<Rightarrow> ledger_error + unit" where
  "validate_provider_ref js provider_ref =
     (if length provider_ref > PROVIDER_REF_MAX_BYTES then Inl ProviderRefTooLong
      else case strip_prefix PROVIDER_REF_PREFIX provider_ref of
             None \<Rightarrow> Inl ProviderRefBadPrefix
           | Some payload \<Rightarrow>
               (case js payload of
                  None \<Rightarrow> Inl ProviderRefInvalidJson
                | Some (JsonObject n) \<Rightarrow> if n \<noteq> 0 then Inr () else Inl ProviderRefEmptyObject
                | Some JsonOther \<Rightarrow> Inl ProviderRefNotObject))"

definition bind_ref :: "lease_record \<Rightarrow> string \<Rightarrow> ledger_error + lease_record" where
  "bind_ref current provider_ref =
     (if lr_state current \<noteq> Pending then Inl (NotPending (lr_lease_id current))
      else if lr_box_ref current = provider_ref then Inr current
      else if lr_box_ref current \<noteq> ''box:'' @ lr_lease_id current
           then Inl (DifferentProviderRef (lr_lease_id current))
      else Inr (current\<lparr>lr_box_ref := provider_ref\<rparr>))"

definition mem_bind_provider_ref ::
  "json_parser \<Rightarrow> string \<Rightarrow> string \<Rightarrow> (ledger_error, lease_record, in_memory_inner) op" where
  "mem_bind_provider_ref js lease_id provider_ref s =
     (case validate_provider_ref js provider_ref of
        Inl e \<Rightarrow> (Inl e, s)
      | Inr u \<Rightarrow>
          if lease_id \<in> im_claims s then (Inl (CleanupClaimed lease_id), s)
          else case hm_get (im_records s) lease_id of
                 None \<Rightarrow> (Inl (UnknownLease lease_id), s)
               | Some current \<Rightarrow>
                   (case bind_ref current provider_ref of
                      Inl e \<Rightarrow> (Inl e, s)
                    | Inr updated \<Rightarrow>
                        (Inr updated, s\<lparr>im_records := hm_insert lease_id updated (im_records s)\<rparr>)))"


section \<open>The ledger seam\<close>

text \<open>The methods of \<open>trait LeaseLedger\<close> as data. Every method of a backend takes the
  backend's lock exactly once, so that concurrent clients of one ledger are a sequence of these
  calls.\<close>

datatype ledger_call =
    CPut lease_record
  | CGet string
  | CBindProviderRef string string
  | CTransition string runner_state u64
  | CByTenant tenant_id
  | CHeld
  | CPendingOlderThan u64 u64
  | CClaimStalePendingCleanup u64 u64
  | CClaimPendingCleanup string u64
  | CFinishPendingCleanup string
  | CTryAdmit lease_record u32
  | CTryAdmitWithCompute lease_record u32 "compute_gate option"
  | CComputeAccrued tenant_id u32
  | CSetEnvelopeCheckpoint string string
  | CGetEnvelopeCheckpoint string
  | CRemove string
  | CRemoveIfPending string
  | CSetTenantSuspended string bool
  | CIsTenantSuspendedDurable string

datatype ledger_reply =
    RUnit
  | RBool bool
  | RRecord lease_record
  | ROptRecord "lease_record option"
  | RRecords "lease_record list"
  | ROutcome admit_outcome
  | RAmount u64
  | ROptText "string option"

definition reply_op :: "('a \<Rightarrow> ledger_reply) \<Rightarrow> (ledger_error + 'a) \<times> 's
    \<Rightarrow> (ledger_error + ledger_reply) \<times> 's" where
  "reply_op f r = (map_sum id f (fst r), snd r)"

fun mem_call ::
  "json_parser \<Rightarrow> ledger_call \<Rightarrow> (ledger_error, ledger_reply, in_memory_inner) op" where
  "mem_call js (CPut rec) s = reply_op (\<lambda>_. RUnit) (mem_put rec s)"
| "mem_call js (CGet lid) s = reply_op ROptRecord (mem_get s lid, s)"
| "mem_call js (CBindProviderRef lid pref) s =
     reply_op RRecord (mem_bind_provider_ref js lid pref s)"
| "mem_call js (CTransition lid to now) s = reply_op RRecord (mem_transition lid to now s)"
| "mem_call js (CByTenant t) s = reply_op RRecords (mem_by_tenant s t, s)"
| "mem_call js CHeld s = reply_op RRecords (mem_held s, s)"
| "mem_call js (CPendingOlderThan now age) s =
     reply_op RRecords (mem_pending_older_than s now age, s)"
| "mem_call js (CClaimStalePendingCleanup now age) s =
     reply_op RRecords (mem_claim_stale_pending_cleanup now age s)"
| "mem_call js (CClaimPendingCleanup lid now) s =
     reply_op ROptRecord (mem_claim_pending_cleanup lid now s)"
| "mem_call js (CFinishPendingCleanup lid) s = reply_op RBool (mem_finish_pending_cleanup lid s)"
| "mem_call js (CTryAdmit rec mc) s = reply_op RBool (mem_try_admit rec mc s)"
| "mem_call js (CTryAdmitWithCompute rec mc gate) s =
     reply_op ROutcome (mem_try_admit_with_compute rec mc gate s)"
| "mem_call js (CComputeAccrued t pk) s = reply_op RAmount (mem_compute_accrued s t pk, s)"
| "mem_call js (CSetEnvelopeCheckpoint lid cp) s =
     reply_op (\<lambda>_. RUnit) (mem_set_envelope_checkpoint lid cp s)"
| "mem_call js (CGetEnvelopeCheckpoint lid) s =
     reply_op ROptText (mem_get_envelope_checkpoint s lid, s)"
| "mem_call js (CRemove lid) s = reply_op RBool (mem_remove lid s)"
| "mem_call js (CRemoveIfPending lid) s = reply_op RBool (mem_remove_if_pending lid s)"
| "mem_call js (CSetTenantSuspended t b) s = reply_op (\<lambda>_. RUnit) (mem_set_tenant_suspended t b s)"
| "mem_call js (CIsTenantSuspendedDurable t) s =
     reply_op RBool (mem_is_tenant_suspended_durable s t, s)"

text \<open>The shared handle: the inner state behind a mutex that a panicking holder poisons.\<close>

record in_memory_ledger =
  iml_poisoned :: bool
  iml_inner :: in_memory_inner

definition iml_new :: in_memory_ledger where
  "iml_new = \<lparr>iml_poisoned = False, iml_inner = mem_new\<rparr>"

definition iml_lock :: "in_memory_ledger \<Rightarrow> ledger_error + in_memory_inner" where
  "iml_lock h = (if iml_poisoned h then Inl MutexPoisoned else Inr (iml_inner h))"

definition iml_call ::
  "json_parser \<Rightarrow> ledger_call \<Rightarrow> (ledger_error, ledger_reply, in_memory_ledger) op" where
  "iml_call js c h =
     (case iml_lock h of
        Inl e \<Rightarrow> (Inl e, h)
      | Inr s \<Rightarrow> (case mem_call js c s of (r, s') \<Rightarrow> (r, h\<lparr>iml_inner := s'\<rparr>)))"

text \<open>What the trait itself answers for a backend that does not override a method.\<close>

definition default_set_tenant_suspended :: "string \<Rightarrow> bool \<Rightarrow> ledger_error + unit" where
  "default_set_tenant_suspended t b = Inl (Unsupported ''durable tenant suspension authority'')"

definition default_is_tenant_suspended_durable :: "string \<Rightarrow> ledger_error + bool" where
  "default_is_tenant_suspended_durable t = Inr False"

definition default_try_admit_with_compute ::
  "(lease_record \<Rightarrow> u32 \<Rightarrow> (ledger_error, bool, 's) op)
     \<Rightarrow> lease_record \<Rightarrow> u32 \<Rightarrow> compute_gate option \<Rightarrow> (ledger_error, admit_outcome, 's) op" where
  "default_try_admit_with_compute try_admit rec max_concurrency gate s =
     (if gate \<noteq> None then (Inl (Unsupported ''try_admit_with_compute''), s)
      else case try_admit rec max_concurrency s of
             (Inl e, s') \<Rightarrow> (Inl e, s')
           | (Inr b, s') \<Rightarrow> (Inr (if b then Admitted else OverConcurrency), s'))"

definition default_remove_if_pending ::
  "('s \<Rightarrow> string \<Rightarrow> ledger_error + lease_record option)
     \<Rightarrow> (string \<Rightarrow> (ledger_error, bool, 's) op) \<Rightarrow> string \<Rightarrow> (ledger_error, bool, 's) op" where
  "default_remove_if_pending get remove lease_id s =
     (case get s lease_id of
        Inl e \<Rightarrow> (Inl e, s)
      | Inr (Some rec) \<Rightarrow> if lr_state rec = Pending then remove lease_id s else (Inr False, s)
      | Inr None \<Rightarrow> (Inr False, s))"

text \<open>A run of a ledger: the state after a sequence of calls, whoever issued them.\<close>

definition mem_run :: "json_parser \<Rightarrow> ledger_call list \<Rightarrow> in_memory_inner \<Rightarrow> in_memory_inner" where
  "mem_run js cs s = fold (\<lambda>c s. snd (mem_call js c s)) cs s"


section \<open>Single operations\<close>

lemma reply_op_snd [simp]: "snd (reply_op f r) = snd r"
  by (simp add: reply_op_def)

lemma reply_op_fst [simp]: "fst (reply_op f r) = map_sum id f (fst r)"
  by (simp add: reply_op_def)

lemma transition_is_legal_iff:
  "transition_is_legal from to \<longleftrightarrow>
     (from = Pending \<and> to = Held) \<or> (from = Wire Held \<and> to \<noteq> Held)"
  by (cases "(from, to)" rule: transition_is_legal.cases) auto

lemma apply_transition_Inr:
  "apply_transition rec to now = Inr rec' \<longleftrightarrow>
     transition_is_legal (lr_state rec) to \<and>
     rec' = rec\<lparr>lr_state := Wire to, lr_updated_at_ms := now,
                lr_billing_acquired_at_ms :=
                  (if to = Held \<and> lr_billing_acquired_at_ms rec = None then Some now
                   else lr_billing_acquired_at_ms rec)\<rparr>"
  by (auto simp: apply_transition_def Let_def)

lemma apply_transition_Inr_fields:
  assumes "apply_transition rec to now = Inr rec'"
  shows "lr_lease_id rec' = lr_lease_id rec" "lr_tenant rec' = lr_tenant rec"
    "lr_created_at_ms rec' = lr_created_at_ms rec" "lr_deadline_ms rec' = lr_deadline_ms rec"
    "lr_box_ref rec' = lr_box_ref rec" "lr_state rec' = Wire to"
  using assms by (simp_all add: apply_transition_Inr)

lemma bind_ref_Inr:
  "bind_ref rec pref = Inr rec' \<longleftrightarrow>
     lr_state rec = Pending \<and> rec' = rec\<lparr>lr_box_ref := pref\<rparr> \<and>
     (lr_box_ref rec = pref \<or> lr_box_ref rec = ''box:'' @ lr_lease_id rec)"
  by (auto simp: bind_ref_def)

lemma mem_run_Nil [simp]: "mem_run js [] s = s"
  by (simp add: mem_run_def)

lemma mem_run_Cons [simp]: "mem_run js (c # cs) s = mem_run js cs (snd (mem_call js c s))"
  by (simp add: mem_run_def)

lemma mem_run_append [simp]: "mem_run js (cs @ ds) s = mem_run js ds (mem_run js cs s)"
  by (simp add: mem_run_def)

end
