(* ===== verification/Journal.thy ===== *)
theory Journal
  imports Ledger
begin

text \<open>
  The commit log of the lease ledger: the \<open>JournalLine\<close> entries of
  \<open>corelink-fabric/src/ledger.rs\<close> and their replay, as the abstract specification of the ledger.
  A line is legal in a state (\<open>line_ok\<close>) when the contract of the ledger allows it; every call of
  the in-memory ledger is a sequence of legal lines, so an invariant of the ledger is proved once,
  by rule induction over the legal lines.
\<close>

section \<open>Journal lines and their replay\<close>

datatype journal_line =
    JRecord lease_record
  | JTombstone string
  | JPendingCleanupClaim string
  | JCheckpoint string string
  | JReservation string lease_reservation
  | JAccrual tenant_id u32 u64
  | JAdmitCommit lease_record lease_reservation
  | JTerminalTransition lease_record "(tenant_id \<times> u32 \<times> u64) option" "lease_reservation option"

fun replay_line :: "journal_line \<Rightarrow> in_memory_inner \<Rightarrow> in_memory_inner" where
  "replay_line (JRecord rec) s =
     s\<lparr>im_records := hm_insert (lr_lease_id rec) rec (im_records s)\<rparr>"
| "replay_line (JTombstone lid) s =
     s\<lparr>im_records := hm_remove lid (im_records s),
       im_claims := im_claims s - {lid},
       im_checkpoints := hm_remove lid (im_checkpoints s),
       im_reservations := hm_remove lid (im_reservations s)\<rparr>"
| "replay_line (JPendingCleanupClaim lid) s =
     (if (case hm_get (im_records s) lid of Some r \<Rightarrow> lr_state r = Pending | None \<Rightarrow> False)
      then s\<lparr>im_claims := insert lid (im_claims s)\<rparr> else s)"
| "replay_line (JCheckpoint lid cp) s =
     s\<lparr>im_checkpoints := hm_insert lid cp (im_checkpoints s)\<rparr>"
| "replay_line (JReservation lid res) s =
     s\<lparr>im_reservations := hm_insert lid res (im_reservations s)\<rparr>"
| "replay_line (JAccrual t pk amount) s =
     s\<lparr>im_accruals := hm_insert (t, pk) amount (im_accruals s)\<rparr>"
| "replay_line (JAdmitCommit rec res) s =
     s\<lparr>im_records := hm_insert (lr_lease_id rec) rec (im_records s),
       im_reservations := hm_insert (lr_lease_id rec) res (im_reservations s)\<rparr>"
| "replay_line (JTerminalTransition rec accrual reservation) s =
     (let s1 = s\<lparr>im_records := hm_insert (lr_lease_id rec) rec (im_records s)\<rparr>;
          s2 = (case accrual of
                  Some (t, pk, amount) \<Rightarrow> s1\<lparr>im_accruals := hm_insert (t, pk) amount (im_accruals s1)\<rparr>
                | None \<Rightarrow> s1)
      in case reservation of
           Some res \<Rightarrow>
             s2\<lparr>im_reservations := hm_insert (lr_lease_id rec) res (im_reservations s2)\<rparr>
         | None \<Rightarrow> s2)"

definition replay :: "journal_line list \<Rightarrow> in_memory_inner \<Rightarrow> in_memory_inner" where
  "replay ls s = fold replay_line ls s"


section \<open>Well-formed ledger states\<close>

definition is_active :: "lease_record \<Rightarrow> bool" where
  "is_active r \<longleftrightarrow> lr_state r = Pending \<or> lr_state r = Wire Held"

definition mem_inv :: "in_memory_inner \<Rightarrow> bool" where
  "mem_inv s \<longleftrightarrow>
     hm_wf (im_records s) \<and> hm_wf (im_checkpoints s) \<and> hm_wf (im_reservations s) \<and>
     hm_wf (im_accruals s) \<and>
     (\<forall>k r. hm_get (im_records s) k = Some r \<longrightarrow> lr_lease_id r = k) \<and>
     hm_keys (im_checkpoints s) \<subseteq> hm_keys (im_records s) \<and>
     hm_keys (im_reservations s) \<subseteq> hm_keys (im_records s) \<and>
     (\<forall>k\<in>im_claims s. \<exists>r. hm_get (im_records s) k = Some r \<and> lr_state r = Pending) \<and>
     (\<forall>k r res. hm_get (im_records s) k = Some r \<longrightarrow> hm_get (im_reservations s) k = Some res \<longrightarrow>
        is_active r \<longrightarrow> res_accrued_at_ms res = None) \<and>
     (\<forall>k v. hm_get (im_accruals s) k = Some v \<longrightarrow> v \<le> MAX_LEDGER_VCPU_MS)"

lemma mem_invI:
  assumes "hm_wf (im_records s)" "hm_wf (im_checkpoints s)" "hm_wf (im_reservations s)"
    "hm_wf (im_accruals s)"
    "\<And>k r. hm_get (im_records s) k = Some r \<Longrightarrow> lr_lease_id r = k"
    "hm_keys (im_checkpoints s) \<subseteq> hm_keys (im_records s)"
    "hm_keys (im_reservations s) \<subseteq> hm_keys (im_records s)"
    "\<And>k. k \<in> im_claims s \<Longrightarrow> \<exists>r. hm_get (im_records s) k = Some r \<and> lr_state r = Pending"
    "\<And>k r res. hm_get (im_records s) k = Some r \<Longrightarrow> hm_get (im_reservations s) k = Some res \<Longrightarrow>
        is_active r \<Longrightarrow> res_accrued_at_ms res = None"
    "\<And>k v. hm_get (im_accruals s) k = Some v \<Longrightarrow> v \<le> MAX_LEDGER_VCPU_MS"
  shows "mem_inv s"
  using assms by (auto simp: mem_inv_def)

lemma mem_invD:
  assumes "mem_inv s"
  shows "hm_wf (im_records s)" "hm_wf (im_checkpoints s)" "hm_wf (im_reservations s)"
    "hm_wf (im_accruals s)"
    "hm_keys (im_checkpoints s) \<subseteq> hm_keys (im_records s)"
    "hm_keys (im_reservations s) \<subseteq> hm_keys (im_records s)"
  using assms by (simp_all add: mem_inv_def)

lemma mem_inv_key: "mem_inv s \<Longrightarrow> hm_get (im_records s) k = Some r \<Longrightarrow> lr_lease_id r = k"
  unfolding mem_inv_def by blast

lemma mem_inv_claim:
  "mem_inv s \<Longrightarrow> k \<in> im_claims s \<Longrightarrow> \<exists>r. hm_get (im_records s) k = Some r \<and> lr_state r = Pending"
  unfolding mem_inv_def by blast

lemma mem_inv_latch:
  "mem_inv s \<Longrightarrow> hm_get (im_records s) k = Some r \<Longrightarrow> hm_get (im_reservations s) k = Some res \<Longrightarrow>
     is_active r \<Longrightarrow> res_accrued_at_ms res = None"
  unfolding mem_inv_def by blast

lemma mem_inv_accrual:
  "mem_inv s \<Longrightarrow> hm_get (im_accruals s) k = Some v \<Longrightarrow> v \<le> MAX_LEDGER_VCPU_MS"
  unfolding mem_inv_def by blast

lemma mem_inv_absent:
  assumes "mem_inv s" and "hm_get (im_records s) k = None"
  shows "hm_get (im_checkpoints s) k = None" "hm_get (im_reservations s) k = None"
    "k \<notin> im_claims s"
proof -
  show "hm_get (im_checkpoints s) k = None" "hm_get (im_reservations s) k = None"
    using assms(2) mem_invD(5,6) [OF assms(1)] by (auto simp: map_of_eq_None_iff)
  show "k \<notin> im_claims s" using assms(2) mem_inv_claim [OF assms(1), of k] by auto
qed

lemma mem_inv_value:
  assumes "mem_inv s" and "r \<in> set (hm_values (im_records s))"
  shows "hm_get (im_records s) (lr_lease_id r) = Some r"
proof -
  from assms(2) obtain k where "(k, r) \<in> set (im_records s)" by (auto simp: hm_values_def)
  then have "hm_get (im_records s) k = Some r" using mem_invD(1) [OF assms(1)] by simp
  with mem_inv_key [OF assms(1) this] show ?thesis by simp
qed

lemma mem_inv_new: "mem_inv mem_new"
  by (rule mem_invI) (simp_all add: mem_new_def)


section \<open>Legal lines\<close>

definition accrued_of :: "in_memory_inner \<Rightarrow> tenant_id \<Rightarrow> u32 \<Rightarrow> u64" where
  "accrued_of s t pk = (case hm_get (im_accruals s) (t, pk) of Some v \<Rightarrow> v | None \<Rightarrow> 0)"

definition terminal_charge :: "lease_record \<Rightarrow> lease_reservation \<Rightarrow> u64 \<Rightarrow> u64" where
  "terminal_charge rec res now =
     min (vcpu_ms (res_box_vcpu_count res) (sat_sub now (lr_created_at_ms rec)))
         (res_reserved_vcpu_ms res)"

definition folded_total :: "in_memory_inner \<Rightarrow> lease_record \<Rightarrow> lease_reservation \<Rightarrow> u64 \<Rightarrow> u64" where
  "folded_total s rec res now =
     min (sat_add (accrued_of s (lr_tenant rec) (res_accrual_period_key res))
                  (terminal_charge rec res now)) MAX_LEDGER_VCPU_MS"

inductive line_ok :: "in_memory_inner \<Rightarrow> journal_line \<Rightarrow> bool" where
  new_record: "hm_get (im_records s) (lr_lease_id rec) = None \<Longrightarrow> line_ok s (JRecord rec)"
| admit: "\<lbrakk>hm_get (im_records s) (lr_lease_id rec) = None; res_accrued_at_ms res = None\<rbrakk> \<Longrightarrow>
    line_ok s (JAdmitCommit rec res)"
| move: "\<lbrakk>hm_get (im_records s) lid = Some rec; lid \<notin> im_claims s;
      apply_transition rec to now = Inr rec';
      to = Held \<or> hm_get (im_reservations s) lid = None\<rbrakk> \<Longrightarrow>
    line_ok s (JRecord rec')"
| terminal: "\<lbrakk>hm_get (im_records s) lid = Some rec; lid \<notin> im_claims s;
      apply_transition rec to now = Inr rec'; to \<noteq> Held;
      hm_get (im_reservations s) lid = Some res; res_accrued_at_ms res = None\<rbrakk> \<Longrightarrow>
    line_ok s (JTerminalTransition rec'
      (Some (lr_tenant rec, res_accrual_period_key res, folded_total s rec res now))
      (Some (res\<lparr>res_accrued_at_ms := Some now\<rparr>)))"
| rebind: "\<lbrakk>hm_get (im_records s) lid = Some rec; lid \<notin> im_claims s; lr_state rec = Pending;
      lr_box_ref rec = ''box:'' @ lr_lease_id rec\<rbrakk> \<Longrightarrow>
    line_ok s (JRecord (rec\<lparr>lr_box_ref := pref\<rparr>))"
| checkpoint: "hm_get (im_records s) lid = Some rec \<Longrightarrow> line_ok s (JCheckpoint lid cp)"
| rollback: "\<lbrakk>hm_get (im_records s) lid = Some rec; lid \<notin> im_claims s;
      lr_state rec \<noteq> Wire Held \<or> hm_get (im_reservations s) lid = None\<rbrakk> \<Longrightarrow>
    line_ok s (JTombstone lid)"
| claim: "\<lbrakk>hm_get (im_records s) lid = Some rec; lr_state rec = Pending\<rbrakk> \<Longrightarrow>
    line_ok s (JPendingCleanupClaim lid)"
| finish: "\<lbrakk>hm_get (im_records s) lid = Some rec; lr_state rec = Pending; lid \<in> im_claims s\<rbrakk> \<Longrightarrow>
    line_ok s (JTombstone lid)"

inductive_cases line_ok_tombstoneE: "line_ok s (JTombstone lid)"
inductive_cases line_ok_terminalE: "line_ok s (JTerminalTransition rec acc res)"
inductive_simps line_ok_claim_iff: "line_ok s (JPendingCleanupClaim lid)"
inductive_simps line_ok_admit_iff: "line_ok s (JAdmitCommit rec res)"

fun legal_lines :: "in_memory_inner \<Rightarrow> journal_line list \<Rightarrow> bool" where
  "legal_lines s [] = True"
| "legal_lines s (l # ls) \<longleftrightarrow> line_ok s l \<and> legal_lines (replay_line l s) ls"

lemma replay_Nil [simp]: "replay [] s = s"
  by (simp add: replay_def)

lemma replay_Cons [simp]: "replay (l # ls) s = replay ls (replay_line l s)"
  by (simp add: replay_def)

lemma replay_append [simp]: "replay (ls @ ms) s = replay ms (replay ls s)"
  by (simp add: replay_def)

lemma legal_lines_append [simp]:
  "legal_lines s (ls @ ms) \<longleftrightarrow> legal_lines s ls \<and> legal_lines (replay ls s) ms"
  by (induction ls arbitrary: s) auto

text \<open>The invariant principle: what every legal line keeps, every legal sequence keeps.\<close>

lemma legal_lines_invariant:
  assumes step: "\<And>s l. P s \<Longrightarrow> line_ok s l \<Longrightarrow> P (replay_line l s)"
    and "P s" and "legal_lines s ls"
  shows "P (replay ls s)"
  using assms(2,3) by (induction ls arbitrary: s) (auto intro: step)


section \<open>The invariant is kept by every legal line\<close>

lemma folded_total_le: "folded_total s rec res now \<le> MAX_LEDGER_VCPU_MS"
  by (simp add: folded_total_def)

lemma mem_inv_insert_record:
  assumes inv: "mem_inv s"
    and claim: "lr_lease_id rec \<in> im_claims s \<Longrightarrow> lr_state rec = Pending"
    and latch: "\<And>res. hm_get (im_reservations s) (lr_lease_id rec) = Some res \<Longrightarrow> is_active rec \<Longrightarrow>
      res_accrued_at_ms res = None"
  shows "mem_inv (replay_line (JRecord rec) s)"
proof (rule mem_invI, goal_cases)
  case (8 k)
  then show ?case using claim mem_inv_claim [OF inv, of k] by (cases "k = lr_lease_id rec") auto
next
  case (9 k r res)
  then show ?case using latch mem_inv_latch [OF inv] by (auto split: if_splits)
qed (use inv mem_invD [OF inv] mem_inv_key [OF inv] mem_inv_accrual [OF inv]
     in \<open>auto split: if_splits simp del: map_of_eq_Some_iff\<close>)

lemma mem_inv_set_reservation:
  assumes inv: "mem_inv s" and rec: "hm_get (im_records s) lid = Some rec"
    and latch: "is_active rec \<Longrightarrow> res_accrued_at_ms res = None"
  shows "mem_inv (s\<lparr>im_reservations := hm_insert lid res (im_reservations s)\<rparr>)"
proof (rule mem_invI, goal_cases)
  case (9 k r res')
  then show ?case using rec latch mem_inv_latch [OF inv, of k r]
    by (auto split: if_splits simp del: map_of_eq_Some_iff)
qed (use inv mem_invD [OF inv] mem_inv_key [OF inv] mem_inv_accrual [OF inv] mem_inv_claim [OF inv]
     hm_get_keys [OF rec] in \<open>auto split: if_splits simp del: map_of_eq_Some_iff\<close>)

lemma mem_inv_set_accrual:
  assumes inv: "mem_inv s" and "v \<le> MAX_LEDGER_VCPU_MS"
  shows "mem_inv (s\<lparr>im_accruals := hm_insert k v (im_accruals s)\<rparr>)"
  by (rule mem_invI)
    (use assms mem_invD [OF inv] mem_inv_key [OF inv] mem_inv_accrual [OF inv] mem_inv_claim [OF inv]
       mem_inv_latch [OF inv] in \<open>auto split: if_splits simp del: map_of_eq_Some_iff\<close>)

lemma mem_inv_set_checkpoint:
  assumes inv: "mem_inv s" and rec: "hm_get (im_records s) lid = Some rec"
  shows "mem_inv (s\<lparr>im_checkpoints := hm_insert lid cp (im_checkpoints s)\<rparr>)"
  by (rule mem_invI)
    (use assms mem_invD [OF inv] mem_inv_key [OF inv] mem_inv_accrual [OF inv] mem_inv_claim [OF inv]
       mem_inv_latch [OF inv] hm_get_keys [OF rec]
     in \<open>auto split: if_splits simp del: map_of_eq_Some_iff\<close>)

lemma mem_inv_tombstone:
  assumes inv: "mem_inv s"
  shows "mem_inv (replay_line (JTombstone lid) s)"
  by (rule mem_invI)
    (use inv mem_invD [OF inv] mem_inv_key [OF inv] mem_inv_accrual [OF inv] mem_inv_claim [OF inv]
       mem_inv_latch [OF inv] in \<open>auto split: if_splits simp del: map_of_eq_Some_iff\<close>)

lemma mem_inv_add_claim:
  assumes inv: "mem_inv s" and "hm_get (im_records s) lid = Some rec" "lr_state rec = Pending"
  shows "mem_inv (s\<lparr>im_claims := insert lid (im_claims s)\<rparr>)"
  by (rule mem_invI)
    (use assms mem_invD [OF inv] mem_inv_key [OF inv] mem_inv_accrual [OF inv] mem_inv_claim [OF inv]
       mem_inv_latch [OF inv] in \<open>auto split: if_splits simp del: map_of_eq_Some_iff\<close>)

lemma apply_transition_held_inactive:
  "apply_transition rec to now = Inr rec' \<Longrightarrow> to \<noteq> Held \<Longrightarrow> \<not> is_active rec'"
  by (simp add: apply_transition_Inr is_active_def)

lemma apply_transition_from_active: "apply_transition rec to now = Inr rec' \<Longrightarrow> is_active rec"
  by (auto simp: apply_transition_Inr is_active_def transition_is_legal_iff)

lemma line_ok_mem_inv:
  assumes "line_ok s l" and inv: "mem_inv s"
  shows "mem_inv (replay_line l s)"
  using assms(1)
proof cases
  case (new_record rec)
  with mem_inv_absent [OF inv, of "lr_lease_id rec"] mem_inv_insert_record [OF inv, of rec]
  show ?thesis by (simp del: replay_line.simps)
next
  case (admit rec res)
  from admit mem_inv_absent [OF inv, of "lr_lease_id rec"] mem_inv_insert_record [OF inv, of rec]
  have "mem_inv (replay_line (JRecord rec) s)" by (simp del: replay_line.simps)
  from mem_inv_set_reservation [OF this, of "lr_lease_id rec" rec res] admit show ?thesis by simp
next
  case (move lid rec to now rec')
  from mem_inv_key [OF inv move(2)] move(4) have "lr_lease_id rec' = lid"
    by (simp add: apply_transition_Inr_fields(1))
  with move mem_inv_latch [OF inv move(2)] show ?thesis
    by (auto simp del: replay_line.simps intro!: mem_inv_insert_record [OF inv]
        dest: apply_transition_from_active)
next
  case (terminal lid rec to now rec' res)
  from mem_inv_key [OF inv terminal(2)] terminal(4) have lid: "lr_lease_id rec' = lid"
    by (simp add: apply_transition_Inr_fields(1))
  have inactive: "\<not> is_active rec'" by (rule apply_transition_held_inactive [OF terminal(4,5)])
  from lid terminal inactive have 1: "mem_inv (replay_line (JRecord rec') s)"
    by (auto simp del: replay_line.simps intro!: mem_inv_insert_record [OF inv])
  note 2 = mem_inv_set_accrual [OF 1 folded_total_le,
      of "(lr_tenant rec, res_accrual_period_key res)" s rec res now]
  from mem_inv_set_reservation [OF 2, of lid rec'] lid inactive terminal(1) show ?thesis
    by simp
next
  case (rebind lid rec pref)
  from mem_inv_key [OF inv rebind(2)] rebind mem_inv_latch [OF inv rebind(2)] show ?thesis
    by (auto simp del: replay_line.simps intro!: mem_inv_insert_record [OF inv] simp: is_active_def)
next
  case (checkpoint lid rec cp)
  then show ?thesis using mem_inv_set_checkpoint [OF inv] by simp
next
  case (claim lid rec)
  then show ?thesis using mem_inv_add_claim [OF inv] by simp
next
  case (rollback lid rec)
  then show ?thesis by (simp only: mem_inv_tombstone [OF inv])
next
  case (finish lid rec)
  then show ?thesis by (simp only: mem_inv_tombstone [OF inv])
qed

lemma legal_lines_mem_inv: "mem_inv s \<Longrightarrow> legal_lines s ls \<Longrightarrow> mem_inv (replay ls s)"
  by (rule legal_lines_invariant [where P = mem_inv]) (auto intro: line_ok_mem_inv)


section \<open>Every ledger call is a sequence of legal lines\<close>

text \<open>The lines a call commits: what the file-backed ledger journals for it.\<close>

definition transition_lines :: "string \<Rightarrow> runner_state \<Rightarrow> u64 \<Rightarrow> in_memory_inner \<Rightarrow> journal_line list" where
  "transition_lines lid to now s =
     (case transition_capturing lid to now s of
        (Inl e, s') \<Rightarrow> []
      | (Inr (updated, None), s') \<Rightarrow> [JRecord updated]
      | (Inr (updated, Some ev), s') \<Rightarrow>
          [JTerminalTransition updated
             (Some (ae_tenant ev, ae_period_key ev, ae_new_accrual_total ev))
             (hm_get (im_reservations s') (ae_lease_id ev))])"

definition admit_lines :: "lease_record \<Rightarrow> u32 \<Rightarrow> in_memory_inner \<Rightarrow> journal_line list" where
  "admit_lines rec mc s =
     (if (of_nat (length (filter (is_active_for (lr_tenant rec)) (hm_values (im_records s)))) :: u32) < mc
         \<and> \<not> hm_contains (lr_lease_id rec) (im_records s)
      then [JRecord rec] else [])"

definition remove_lines :: "string \<Rightarrow> in_memory_inner \<Rightarrow> journal_line list" where
  "remove_lines lid s =
     (case hm_get (im_records s) lid of
        None \<Rightarrow> []
      | Some rec \<Rightarrow> if lid \<in> im_claims s
                      \<or> (is_held (lr_state rec) \<and> hm_contains lid (im_reservations s))
                    then [] else [JTombstone lid])"

definition stale_claim_lines :: "u64 \<Rightarrow> u64 \<Rightarrow> in_memory_inner \<Rightarrow> journal_line list" where
  "stale_claim_lines now age s =
     map (\<lambda>r. JPendingCleanupClaim (lr_lease_id r))
       (filter (\<lambda>r. lr_lease_id r \<notin> im_claims s) (candidates s now age))"

fun call_lines :: "json_parser \<Rightarrow> ledger_call \<Rightarrow> in_memory_inner \<Rightarrow> journal_line list" where
  "call_lines js (CPut rec) s =
     (if hm_contains (lr_lease_id rec) (im_records s) then [] else [JRecord rec])"
| "call_lines js (CBindProviderRef lid pref) s =
     (case fst (mem_bind_provider_ref js lid pref s) of
        Inl e \<Rightarrow> []
      | Inr updated \<Rightarrow> if hm_get (im_records s) lid = Some updated then [] else [JRecord updated])"
| "call_lines js (CTransition lid to now) s =
     (if lid \<in> im_claims s then [] else transition_lines lid to now s)"
| "call_lines js (CClaimStalePendingCleanup now age) s = stale_claim_lines now age s"
| "call_lines js (CClaimPendingCleanup lid now) s =
     (case hm_get (im_records s) lid of
        None \<Rightarrow> []
      | Some rec \<Rightarrow> if lr_state rec = Pending \<and> lid \<notin> im_claims s
                    then [JPendingCleanupClaim lid] else [])"
| "call_lines js (CFinishPendingCleanup lid) s =
     (case hm_get (im_records s) lid of
        None \<Rightarrow> []
      | Some rec \<Rightarrow> if lr_state rec = Pending \<and> lid \<in> im_claims s then [JTombstone lid] else [])"
| "call_lines js (CTryAdmit rec mc) s = admit_lines rec mc s"
| "call_lines js (CTryAdmitWithCompute rec mc gate_opt) s =
     (case gate_opt of
        None \<Rightarrow> admit_lines rec mc s
      | Some gate \<Rightarrow>
          if cg_ceiling_vcpu_ms gate = 0 then admit_lines rec mc s
          else case admit_decision s rec mc gate of
                 (Admitted, Some res) \<Rightarrow>
                   if hm_contains (lr_lease_id rec) (im_records s) then [] else [JAdmitCommit rec res]
               | _ \<Rightarrow> [])"
| "call_lines js (CSetEnvelopeCheckpoint lid cp) s =
     (if hm_contains lid (im_records s) then [JCheckpoint lid cp] else [])"
| "call_lines js (CRemove lid) s = remove_lines lid s"
| "call_lines js (CRemoveIfPending lid) s =
     (case hm_get (im_records s) lid of
        None \<Rightarrow> []
      | Some rec \<Rightarrow> if lr_state rec = Pending then remove_lines lid s else [])"
| "call_lines js _ s = []"

text \<open>A call refines its lines: they are legal where it runs, and their replay is its effect.\<close>

definition refines_lines :: "in_memory_inner \<Rightarrow> journal_line list \<Rightarrow> in_memory_inner \<Rightarrow> bool" where
  "refines_lines s ls s' \<longleftrightarrow> legal_lines s ls \<and> s' = replay ls s"

lemma refines_lines_Nil: "refines_lines s [] s"
  by (simp add: refines_lines_def)

lemma refines_lines_single: "line_ok s l \<Longrightarrow> s' = replay_line l s \<Longrightarrow> refines_lines s [l] s'"
  by (simp add: refines_lines_def)

lemma accrue_on_terminal_cases:
  assumes "hm_get (im_reservations s) lid = Some res" and "res_accrued_at_ms res = None"
    and "to \<noteq> Held"
  shows "accrue_on_terminal lid (lr_tenant rec) (lr_created_at_ms rec) to now s =
     (Some \<lparr>ae_lease_id = lid, ae_tenant = lr_tenant rec, ae_period_key = res_accrual_period_key res,
            ae_new_accrual_total = folded_total s rec res now\<rparr>,
      s\<lparr>im_reservations := hm_insert lid (res\<lparr>res_accrued_at_ms := Some now\<rparr>) (im_reservations s),
        im_accruals := hm_insert (lr_tenant rec, res_accrual_period_key res)
          (folded_total s rec res now) (im_accruals s)\<rparr>)"
  using assms by (cases to)
    (simp_all add: accrue_on_terminal_def folded_total_def terminal_charge_def accrued_of_def Let_def)

lemma accrue_on_terminal_none:
  "to = Held \<or> hm_get (im_reservations s) lid = None \<Longrightarrow>
     accrue_on_terminal lid t created to now s = (None, s)"
  by (auto simp: accrue_on_terminal_def)

lemma folded_total_records [simp]:
  "folded_total (s\<lparr>im_records := m\<rparr>) rec res now = folded_total s rec res now"
  by (simp add: folded_total_def accrued_of_def)

lemma transition_refines:
  assumes inv: "mem_inv s" and free: "lid \<notin> im_claims s"
  shows "refines_lines s (transition_lines lid to now s) (snd (transition_capturing lid to now s))"
proof (cases "hm_get (im_records s) lid")
  case None
  then show ?thesis by (simp add: transition_lines_def transition_capturing_def refines_lines_Nil)
next
  case (Some rec)
  show ?thesis
  proof (cases "apply_transition rec to now")
    case (Inl e)
    with Some show ?thesis
      by (simp add: transition_lines_def transition_capturing_def refines_lines_Nil)
  next
    case (Inr rec')
    have id: "lr_lease_id rec' = lid"
      using mem_inv_key [OF inv Some] Inr by (simp add: apply_transition_Inr_fields(1))
    show ?thesis
    proof (cases "to = Held \<or> hm_get (im_reservations s) lid = None")
      case True
      with line_ok.move [OF Some free Inr] have "line_ok s (JRecord rec')" by blast
      with True Some Inr id show ?thesis
        by (auto simp: transition_lines_def transition_capturing_def accrue_on_terminal_none
            intro!: refines_lines_single)
    next
      case False
      then obtain res where res: "hm_get (im_reservations s) lid = Some res" "to \<noteq> Held" by auto
      with mem_inv_latch [OF inv Some] apply_transition_from_active [OF Inr]
      have latch: "res_accrued_at_ms res = None" by blast
      from line_ok.terminal [OF Some free Inr res(2) res(1) latch] Some Inr id res latch
      show ?thesis
        by (auto simp: transition_lines_def transition_capturing_def accrue_on_terminal_cases
            intro!: refines_lines_single)
    qed
  qed
qed


lemma put_refines:
  "refines_lines s (if hm_contains (lr_lease_id rec) (im_records s) then [] else [JRecord rec])
     (snd (mem_put rec s))"
  by (auto simp: mem_put_def hm_contains_def refines_lines_Nil
      intro!: refines_lines_single line_ok.new_record)

lemma mem_put_eq:
  "mem_put rec s = (if hm_contains (lr_lease_id rec) (im_records s)
     then (Inl (AlreadyExists (lr_lease_id rec)), s) else (Inr (), replay_line (JRecord rec) s))"
  by (simp add: mem_put_def)

lemma try_admit_refines: "refines_lines s (admit_lines rec mc s) (snd (mem_try_admit rec mc s))"
  using put_refines [of s rec]
  by (auto simp: mem_try_admit_def admit_lines_def mem_put_eq Let_def refines_lines_Nil)

lemma concurrency_only_refines:
  "refines_lines s (admit_lines rec mc s) (snd (concurrency_only_admit rec mc s))"
  using try_admit_refines [of s rec mc]
  by (auto simp: concurrency_only_admit_def split: prod.splits sum.splits)

lemma admit_decision_Admitted:
  "admit_decision s rec mc gate = (Admitted, r) \<Longrightarrow>
     r = Some \<lparr>res_box_vcpu_count = cg_box_vcpu_count gate,
               res_accrual_period_key = cg_period_key gate,
               res_reserved_vcpu_ms = cg_new_reserved_vcpu_ms gate, res_accrued_at_ms = None\<rparr>"
  by (auto simp: admit_decision_def Let_def split: if_splits)

lemma compute_admit_refines:
  "refines_lines s (call_lines js (CTryAdmitWithCompute rec mc gate_opt) s)
     (snd (mem_try_admit_with_compute rec mc gate_opt s))"
proof (cases "\<exists>gate. gate_opt = Some gate \<and> cg_ceiling_vcpu_ms gate \<noteq> 0")
  case False
  then show ?thesis using concurrency_only_refines [of s rec mc]
    by (auto simp: mem_try_admit_with_compute_def split: option.splits)
next
  case True
  then obtain gate where gate: "gate_opt = Some gate" "cg_ceiling_vcpu_ms gate \<noteq> 0" by blast
  obtain out r where dec: "admit_decision s rec mc gate = (out, r)" by (cases "admit_decision s rec mc gate")
  show ?thesis
  proof (cases "out = Admitted \<and> \<not> hm_contains (lr_lease_id rec) (im_records s)")
    case True
    with dec admit_decision_Admitted [of s rec mc gate r] gate show ?thesis
      by (auto simp: mem_try_admit_with_compute_def mem_put_eq hm_contains_def
          intro!: refines_lines_single line_ok.admit)
  next
    case False
    with dec gate show ?thesis
      by (cases out; cases r)
        (auto simp: mem_try_admit_with_compute_def mem_put_eq refines_lines_Nil)
  qed
qed

lemma remove_refines:
  assumes inv: "mem_inv s"
  shows "refines_lines s (remove_lines lid s) (snd (mem_remove lid s))"
proof (cases "hm_get (im_records s) lid")
  case None
  with mem_inv_absent [OF inv None] show ?thesis
    by (simp add: remove_lines_def mem_remove_def refines_lines_Nil)
next
  case (Some rec)
  show ?thesis
  proof (cases "lid \<in> im_claims s \<or> (is_held (lr_state rec) \<and> hm_contains lid (im_reservations s))")
    case True
    with Some show ?thesis by (auto simp: remove_lines_def mem_remove_def refines_lines_Nil)
  next
    case False
    with Some have "line_ok s (JTombstone lid)"
      by (intro line_ok.rollback [OF Some]) (auto simp: hm_contains_def is_held_def)
    with Some False show ?thesis
      by (auto simp: remove_lines_def mem_remove_def intro!: refines_lines_single)
  qed
qed

lemma bind_refines:
  assumes inv: "mem_inv s"
  shows "refines_lines s (call_lines js (CBindProviderRef lid pref) s)
     (snd (mem_bind_provider_ref js lid pref s))"
proof (cases "\<exists>rec rec'. validate_provider_ref js pref = Inr () \<and> lid \<notin> im_claims s
    \<and> hm_get (im_records s) lid = Some rec \<and> bind_ref rec pref = Inr rec'")
  case False
  then show ?thesis
    by (auto simp: mem_bind_provider_ref_def refines_lines_Nil split: sum.splits option.splits)
next
  case True
  then obtain rec rec' where *: "validate_provider_ref js pref = Inr ()" "lid \<notin> im_claims s"
    "hm_get (im_records s) lid = Some rec" "bind_ref rec pref = Inr rec'" by blast
  then have rec': "lr_state rec = Pending" "rec' = rec\<lparr>lr_box_ref := pref\<rparr>"
    "lr_box_ref rec = pref \<or> lr_box_ref rec = ''box:'' @ lr_lease_id rec"
    by (simp_all add: bind_ref_Inr)
  show ?thesis
  proof (cases "rec' = rec")
    case True
    with * show ?thesis
      by (simp add: mem_bind_provider_ref_def refines_lines_Nil hm_insert_same)
  next
    case False
    with rec' have "lr_box_ref rec = ''box:'' @ lr_lease_id rec" by auto
    from line_ok.rebind [OF *(3,2) rec'(1) this] rec'(2) have "line_ok s (JRecord rec')" by simp
    with * False rec'(2) mem_inv_key [OF inv *(3)] show ?thesis
      by (auto simp: mem_bind_provider_ref_def intro!: refines_lines_single)
  qed
qed

lemma claim_lines_replay:
  assumes "mem_inv s"
    and "\<And>r. r \<in> set rs \<Longrightarrow> hm_get (im_records s) (lr_lease_id r) = Some r \<and> lr_state r = Pending"
  shows "refines_lines s (map (\<lambda>r. JPendingCleanupClaim (lr_lease_id r)) rs)
           (s\<lparr>im_claims := im_claims s \<union> lr_lease_id ` set rs\<rparr>)"
  using assms
proof (induction rs arbitrary: s)
  case Nil
  then show ?case by (simp add: refines_lines_Nil)
next
  case (Cons r rs)
  from Cons.prems(2) [of r] have r: "hm_get (im_records s) (lr_lease_id r) = Some r"
    "lr_state r = Pending" by simp_all
  let ?s = "s\<lparr>im_claims := insert (lr_lease_id r) (im_claims s)\<rparr>"
  have "refines_lines ?s (map (\<lambda>r. JPendingCleanupClaim (lr_lease_id r)) rs)
      (?s\<lparr>im_claims := im_claims ?s \<union> lr_lease_id ` set rs\<rparr>)"
    using Cons.prems(2) by (intro Cons.IH mem_inv_add_claim [OF Cons.prems(1) r]) simp_all
  with r show ?case by (auto simp: refines_lines_def line_ok_claim_iff)
qed

lemma candidates_pending:
  assumes "mem_inv s" and "r \<in> set (candidates s now age)"
  shows "hm_get (im_records s) (lr_lease_id r) = Some r \<and> lr_state r = Pending"
  using assms mem_inv_value [OF assms(1), of r] by (auto simp: candidates_def Let_def)

lemma fold_insert_set: "fold (\<lambda>x A. insert (f x) A) xs A = A \<union> f ` set xs"
  by (induction xs arbitrary: A) auto

lemma stale_claim_refines:
  assumes inv: "mem_inv s"
  shows "refines_lines s (stale_claim_lines now age s)
     (snd (mem_claim_stale_pending_cleanup now age s))"
proof -
  let ?rs = "filter (\<lambda>r. lr_lease_id r \<notin> im_claims s) (candidates s now age)"
  have "im_claims s \<union> lr_lease_id ` set ?rs = im_claims s \<union> lr_lease_id ` set (candidates s now age)"
    by auto
  moreover have "refines_lines s (map (\<lambda>r. JPendingCleanupClaim (lr_lease_id r)) ?rs)
      (s\<lparr>im_claims := im_claims s \<union> lr_lease_id ` set ?rs\<rparr>)"
    by (rule claim_lines_replay [OF inv]) (auto dest: candidates_pending [OF inv])
  ultimately show ?thesis
    by (simp add: stale_claim_lines_def mem_claim_stale_pending_cleanup_def Let_def fold_insert_set)
qed

lemma mem_call_refines:
  assumes inv: "mem_inv s"
  shows "refines_lines s (call_lines js c s) (snd (mem_call js c s))"
proof (cases c)
  case (CPut rec)
  then show ?thesis using put_refines by simp
next
  case (CTransition lid to now)
  then show ?thesis using transition_refines [OF inv, of lid to now]
    by (auto simp: mem_transition_def refines_lines_Nil split: prod.splits sum.splits)
next
  case (CClaimPendingCleanup lid now)
  then show ?thesis
    by (auto simp: mem_claim_pending_cleanup_def refines_lines_Nil insert_absorb
        intro!: refines_lines_single line_ok.claim split: option.splits)
next
  case (CFinishPendingCleanup lid)
  then show ?thesis
    by (auto simp: mem_finish_pending_cleanup_def refines_lines_Nil
        intro!: refines_lines_single line_ok.finish split: option.splits)
next
  case (CSetEnvelopeCheckpoint lid cp)
  then show ?thesis
    by (auto simp: mem_set_envelope_checkpoint_def hm_contains_def refines_lines_Nil
        intro!: refines_lines_single line_ok.checkpoint)
next
  case (CRemoveIfPending lid)
  then show ?thesis using remove_refines [OF inv, of lid]
    by (auto simp: mem_remove_if_pending_def remove_lines_def refines_lines_Nil split: option.splits)
qed (use bind_refines [OF inv] remove_refines [OF inv] stale_claim_refines [OF inv]
      try_admit_refines compute_admit_refines
     in \<open>simp_all add: refines_lines_Nil mem_set_tenant_suspended_def
           del: call_lines.simps(2,8) mem_bind_provider_ref_def\<close>)

end
