(* ===== verification/Ledger_Safety.thy ===== *)
theory Ledger_Safety
  imports Journal
begin

text \<open>
  Safety of the lease ledger over every sequence of calls: the concurrency cap, the monthly compute
  ceiling (the \<open>accrued + reserved\<close> bound that \<open>admit_decision\<close> and \<open>accrue_on_terminal\<close> of
  \<open>ledger.rs\<close> maintain together), the lease state machine, and the cleanup fence.
\<close>

section \<open>What a tenant occupies\<close>

definition active_count :: "in_memory_inner \<Rightarrow> tenant_id \<Rightarrow> nat" where
  "active_count s t = length (filter (is_active_for t) (hm_values (im_records s)))"

definition reserved_weight ::
  "(string, lease_reservation) hmap \<Rightarrow> tenant_id \<Rightarrow> u32 \<Rightarrow> string \<Rightarrow> lease_record \<Rightarrow> nat" where
  "reserved_weight m t pk k r =
     (case hm_get m k of
        Some res \<Rightarrow> if is_active_for t r \<and> res_accrual_period_key res = pk
                    then unat (res_reserved_vcpu_ms res) else 0
      | None \<Rightarrow> 0)"

definition reserved_sum :: "in_memory_inner \<Rightarrow> tenant_id \<Rightarrow> u32 \<Rightarrow> nat" where
  "reserved_sum s t pk = hm_weight (reserved_weight (im_reservations s) t pk) (im_records s)"

definition committed :: "in_memory_inner \<Rightarrow> tenant_id \<Rightarrow> u32 \<Rightarrow> nat" where
  "committed s t pk = unat (accrued_of s t pk) + reserved_sum s t pk"

lemma is_active_for_alt: "is_active_for t r \<longleftrightarrow> lr_tenant r = t \<and> is_active r"
  by (simp add: is_active_for_def is_active_def is_held_def)

lemma active_count_weight:
  "active_count s t = hm_weight (\<lambda>k r. if is_active_for t r then 1 else 0) (im_records s)"
  by (simp add: active_count_def length_filter_values)

text \<open>The saturating sum of \<open>admit_decision\<close> is the true sum of the reservations, cut off at the
  largest 64-bit value.\<close>

lemma sum_list_reserved:
  assumes "\<And>k r. (k, r) \<in> set m \<Longrightarrow> lr_lease_id r = k"
  shows "sum_list (map (unat \<circ> res_reserved_vcpu_ms)
            (filter (\<lambda>res. res_accrual_period_key res = pk)
              (List.map_filter (\<lambda>r. hm_get rs (lr_lease_id r)) (filter (is_active_for t) (hm_values m)))))
         = hm_weight (reserved_weight rs t pk) m"
  using assms
proof (induction m)
  case Nil
  then show ?case by (simp add: hm_values_def)
next
  case (Cons p m)
  obtain k r where p: "p = (k, r)" by (cases p)
  from Cons.prems [of k r] p have id: "lr_lease_id r = k" by simp
  note IH = Cons.IH [OF Cons.prems [OF list.set_intros(2)]]
  from id p IH show ?case
    by (cases "hm_get rs k") (simp_all add: hm_values_def hm_weight_def reserved_weight_def)
qed

lemma saturated_sum_le:
  "min (a + min b m) m + n \<le> c \<Longrightarrow> c < m \<Longrightarrow> a + b + n \<le> c" for a b c m n :: nat
  by (auto simp: min_def split: if_splits)

lemma projected_exact:
  assumes inv: "mem_inv s" and adm: "admit_decision s rec mc gate = (Admitted, r)"
    and lim: "unat (cg_ceiling_vcpu_ms gate) < 2 ^ 64 - 1"
  shows "committed s (lr_tenant rec) (cg_period_key gate) + unat (cg_new_reserved_vcpu_ms gate)
           \<le> unat (cg_ceiling_vcpu_ms gate)"
proof -
  have key: "lr_lease_id r = k" if "(k, r) \<in> set (im_records s)" for k r
    using that mem_inv_key [OF inv, of k r] mem_invD(1) [OF inv] by simp
  note sigma = sum_list_reserved [OF key, of "im_records s" "cg_period_key gate"
      "im_reservations s" "lr_tenant rec"]
  from adm have "min (unat (accrued_of s (lr_tenant rec) (cg_period_key gate))
        + min (reserved_sum s (lr_tenant rec) (cg_period_key gate)) (2 ^ 64 - 1)) (2 ^ 64 - 1)
      + unat (cg_new_reserved_vcpu_ms gate) \<le> unat (cg_ceiling_vcpu_ms gate)"
    using lim
    by (simp add: admit_decision_def Let_def not_less accrued_of_def reserved_sum_def word_nat
        unat_fold_sat_add sigma split: if_splits)
  from saturated_sum_le [OF this lim] show ?thesis by (simp add: committed_def)
qed

lemma admitted_below_cap:
  assumes "admit_decision s rec mc gate = (Admitted, r)"
  shows "(of_nat (active_count s (lr_tenant rec)) :: u32) < mc"
  using assms by (auto simp: admit_decision_def Let_def active_count_def not_le split: if_splits)


section \<open>Effect of single lines\<close>

lemma reserved_sum_set_record:
  assumes "hm_get (im_records s) lid = Some rec"
  shows "reserved_sum (s\<lparr>im_records := hm_insert lid rec' (im_records s)\<rparr>) t pk
           + reserved_weight (im_reservations s) t pk lid rec
         = reserved_sum s t pk + reserved_weight (im_reservations s) t pk lid rec'"
  using hm_weight_insert_old [OF assms] by (simp add: reserved_sum_def)

lemma active_count_set_record:
  assumes "hm_get (im_records s) lid = Some rec"
  shows "active_count (s\<lparr>im_records := hm_insert lid rec' (im_records s)\<rparr>) t
           + (if is_active_for t rec then 1 else 0)
         = active_count s t + (if is_active_for t rec' then 1 else 0)"
  using hm_weight_insert_old [OF assms, of "\<lambda>k r. if is_active_for t r then 1 else 0" rec']
  by (simp add: active_count_weight)

lemma active_count_frame [simp]:
  "active_count (s\<lparr>im_reservations := a\<rparr>) t = active_count s t"
  "active_count (s\<lparr>im_accruals := b\<rparr>) t = active_count s t"
  "active_count (s\<lparr>im_checkpoints := c\<rparr>) t = active_count s t"
  "active_count (s\<lparr>im_claims := d\<rparr>) t = active_count s t"
  by (simp_all add: active_count_def)

lemma accrued_of_frame [simp]:
  "accrued_of (s\<lparr>im_records := e\<rparr>) t pk = accrued_of s t pk"
  "accrued_of (s\<lparr>im_reservations := a\<rparr>) t pk = accrued_of s t pk"
  "accrued_of (s\<lparr>im_checkpoints := c\<rparr>) t pk = accrued_of s t pk"
  "accrued_of (s\<lparr>im_claims := d\<rparr>) t pk = accrued_of s t pk"
  by (simp_all add: accrued_of_def)

lemma accrued_of_insert:
  "accrued_of (s\<lparr>im_accruals := hm_insert (t', pk') v (im_accruals s)\<rparr>) t pk =
     (if t = t' \<and> pk = pk' then v else accrued_of s t pk)"
  by (simp add: accrued_of_def)

lemma reserved_sum_frame [simp]:
  "reserved_sum (s\<lparr>im_accruals := b\<rparr>) t pk = reserved_sum s t pk"
  "reserved_sum (s\<lparr>im_checkpoints := c\<rparr>) t pk = reserved_sum s t pk"
  "reserved_sum (s\<lparr>im_claims := d\<rparr>) t pk = reserved_sum s t pk"
  by (simp_all add: reserved_sum_def)

lemma reserved_sum_latch:
  assumes "hm_get (im_reservations s) lid = Some res"
  shows "reserved_sum (s\<lparr>im_reservations :=
           hm_insert lid (res\<lparr>res_accrued_at_ms := v\<rparr>) (im_reservations s)\<rparr>) t pk = reserved_sum s t pk"
  unfolding reserved_sum_def using assms
  by (auto simp: reserved_weight_def intro!: hm_weight_cong split: option.splits)

lemma reserved_sum_tombstone:
  "reserved_sum (replay_line (JTombstone lid) s) t pk \<le> reserved_sum s t pk"
proof -
  have "hm_weight (reserved_weight (hm_remove lid (im_reservations s)) t pk)
          (hm_remove lid (im_records s))
      = hm_weight (reserved_weight (im_reservations s) t pk) (hm_remove lid (im_records s))"
    by (rule hm_weight_cong) (auto simp: in_hm_remove reserved_weight_def)
  then show ?thesis by (simp add: reserved_sum_def hm_weight_remove_le)
qed

lemma active_count_tombstone:
  "active_count (replay_line (JTombstone lid) s) t \<le> active_count s t"
  by (simp add: active_count_weight hm_weight_remove_le)

lemma is_active_for_transition:
  assumes "apply_transition rec to now = Inr rec'"
  shows "is_active_for t rec' \<longleftrightarrow> is_active_for t rec \<and> to = Held"
  using apply_transition_from_active [OF assms] assms
  by (auto simp: is_active_for_alt apply_transition_Inr is_active_def)

text \<open>The charge of a terminal transition never exceeds the reservation it releases.\<close>

lemma terminal_charge_le: "unat (terminal_charge rec res now) \<le> unat (res_reserved_vcpu_ms res)"
  by (simp add: terminal_charge_def word_nat)

lemma folded_total_bound:
  "unat (folded_total s rec res now)
     \<le> unat (accrued_of s (lr_tenant rec) (res_accrual_period_key res))
       + unat (terminal_charge rec res now)"
  by (simp add: folded_total_def word_nat)

text \<open>Lines that bring in a lease: the only ones that may raise a tenant's use.\<close>

fun brings_in :: "in_memory_inner \<Rightarrow> journal_line \<Rightarrow> lease_record option" where
  "brings_in s (JRecord rec) =
     (if hm_get (im_records s) (lr_lease_id rec) = None then Some rec else None)"
| "brings_in s (JAdmitCommit rec res) = Some rec"
| "brings_in s _ = None"


definition uses_at_most :: "in_memory_inner \<Rightarrow> in_memory_inner \<Rightarrow> bool" where
  "uses_at_most s' s \<longleftrightarrow>
     (\<forall>t. active_count s' t \<le> active_count s t) \<and> (\<forall>t pk. committed s' t pk \<le> committed s t pk)"

lemma uses_at_most_refl: "uses_at_most s s"
  by (simp add: uses_at_most_def)

lemma uses_at_most_trans: "uses_at_most s' s \<Longrightarrow> uses_at_most s'' s' \<Longrightarrow> uses_at_most s'' s"
  unfolding uses_at_most_def by (meson order_trans)

lemma uses_set_record:
  assumes "hm_get (im_records s) lid = Some rec"
    and act: "\<And>t. is_active_for t rec' \<Longrightarrow> is_active_for t rec"
  shows "uses_at_most (s\<lparr>im_records := hm_insert lid rec' (im_records s)\<rparr>) s"
  unfolding uses_at_most_def
proof (intro conjI allI)
  fix t
  show "active_count (s\<lparr>im_records := hm_insert lid rec' (im_records s)\<rparr>) t \<le> active_count s t"
    using active_count_set_record [OF assms(1), of rec' t] act [of t] by (auto split: if_splits)
next
  fix t pk
  have "reserved_weight (im_reservations s) t pk lid rec' \<le> reserved_weight (im_reservations s) t pk lid rec"
    using act [of t] by (auto simp: reserved_weight_def split: option.splits)
  then show "committed (s\<lparr>im_records := hm_insert lid rec' (im_records s)\<rparr>) t pk \<le> committed s t pk"
    using reserved_sum_set_record [OF assms(1), of rec' t pk] by (simp add: committed_def)
qed

lemma committed_terminal:
  assumes rec: "hm_get (im_records s) lid = Some rec" and tr: "apply_transition rec to now = Inr rec'"
    and to: "to \<noteq> Held" and res: "hm_get (im_reservations s) lid = Some res"
    and s': "s' = s\<lparr>im_records := hm_insert lid rec' (im_records s),
      im_accruals := hm_insert (lr_tenant rec, res_accrual_period_key res)
        (folded_total s rec res now) (im_accruals s),
      im_reservations := hm_insert lid (res\<lparr>res_accrued_at_ms := Some now\<rparr>) (im_reservations s)\<rparr>"
  shows "reserved_sum s' t pk + reserved_weight (im_reservations s) t pk lid rec = reserved_sum s t pk"
    and "accrued_of s' t pk = (if t = lr_tenant rec \<and> pk = res_accrual_period_key res
           then folded_total s rec res now else accrued_of s t pk)"
proof -
  let ?s1 = "s\<lparr>im_reservations :=
     hm_insert lid (res\<lparr>res_accrued_at_ms := Some now\<rparr>) (im_reservations s)\<rparr>"
  have rw: "reserved_weight (im_reservations ?s1) t pk lid rec =
      reserved_weight (im_reservations s) t pk lid rec"
    using res by (simp add: reserved_weight_def)
  have "\<not> is_active_for t rec'" using is_active_for_transition [OF tr] to by simp
  then have zero: "reserved_weight (im_reservations ?s1) t pk lid rec' = 0"
    by (simp add: reserved_weight_def split: option.splits)
  have "reserved_sum s' t pk =
      reserved_sum (?s1\<lparr>im_records := hm_insert lid rec' (im_records ?s1)\<rparr>) t pk"
    by (simp add: s' reserved_sum_def)
  moreover have "hm_get (im_records ?s1) lid = Some rec" using rec by simp
  ultimately show "reserved_sum s' t pk + reserved_weight (im_reservations s) t pk lid rec
      = reserved_sum s t pk"
    using reserved_sum_set_record [of ?s1 lid rec rec' t pk] rw zero reserved_sum_latch [OF res]
    by simp
  show "accrued_of s' t pk = (if t = lr_tenant rec \<and> pk = res_accrual_period_key res
      then folded_total s rec res now else accrued_of s t pk)"
    by (simp add: s' accrued_of_def)
qed

lemma reserved_weight_own:
  assumes "hm_get rs lid = Some res" and "is_active rec"
  shows "reserved_weight rs (lr_tenant rec) (res_accrual_period_key res) lid rec
    = unat (res_reserved_vcpu_ms res)"
  using assms by (simp add: reserved_weight_def is_active_for_alt)

lemma uses_terminal:
  assumes rec: "hm_get (im_records s) lid = Some rec" and tr: "apply_transition rec to now = Inr rec'"
    and to: "to \<noteq> Held" and res: "hm_get (im_reservations s) lid = Some res"
    and s': "s' = s\<lparr>im_records := hm_insert lid rec' (im_records s),
      im_accruals := hm_insert (lr_tenant rec, res_accrual_period_key res)
        (folded_total s rec res now) (im_accruals s),
      im_reservations := hm_insert lid (res\<lparr>res_accrued_at_ms := Some now\<rparr>) (im_reservations s)\<rparr>"
  shows "uses_at_most s' s"
  unfolding uses_at_most_def
proof (intro conjI allI)
  fix t
  have "active_count s' t = active_count (s\<lparr>im_records := hm_insert lid rec' (im_records s)\<rparr>) t"
    by (simp add: s' active_count_def)
  then show "active_count s' t \<le> active_count s t"
    using active_count_set_record [OF rec, of rec' t] is_active_for_transition [OF tr]
    by (auto split: if_splits)
next
  fix t pk
  note c = committed_terminal [OF rec tr to res s', of t pk]
  show "committed s' t pk \<le> committed s t pk"
  proof (cases "t = lr_tenant rec \<and> pk = res_accrual_period_key res")
    case True
    have "reserved_weight (im_reservations s) t pk lid rec = unat (res_reserved_vcpu_ms res)"
      using reserved_weight_own [OF res apply_transition_from_active [OF tr]] True by simp
    with c True folded_total_bound [of s rec res now] terminal_charge_le [of rec res now]
    show ?thesis unfolding committed_def by auto
  next
    case False
    with c show ?thesis unfolding committed_def by auto
  qed
qed

lemma line_uses:
  assumes "line_ok s l" and inv: "mem_inv s" and "brings_in s l = None"
  shows "uses_at_most (replay_line l s) s"
  using assms(1)
proof cases
  case (new_record rec)
  with assms(3) show ?thesis by simp
next
  case (admit rec res)
  with assms(3) show ?thesis by simp
next
  case (move lid rec to now rec')
  then have "lr_lease_id rec' = lid"
    using mem_inv_key [OF inv] by (simp add: apply_transition_Inr_fields(1))
  with move uses_set_record [OF move(2), of rec'] is_active_for_transition [OF move(4)]
  show ?thesis by simp
next
  case (terminal lid rec to now rec' res)
  then have "lr_lease_id rec' = lid"
    using mem_inv_key [OF inv] by (simp add: apply_transition_Inr_fields(1))
  with terminal show ?thesis
    by (intro uses_terminal [OF terminal(2,4,5,6)]) simp
next
  case (rebind lid rec pref)
  with mem_inv_key [OF inv rebind(2)] uses_set_record [OF rebind(2), of "rec\<lparr>lr_box_ref := pref\<rparr>"]
  show ?thesis by (simp add: is_active_for_def)
next
  case (checkpoint lid rec cp)
  then show ?thesis by (simp add: uses_at_most_def committed_def)
next
  case (rollback lid rec)
  then show ?thesis
    using active_count_tombstone [of lid s] reserved_sum_tombstone [of lid s]
    by (simp add: uses_at_most_def committed_def accrued_of_def)
next
  case (claim lid rec)
  then show ?thesis by (simp add: uses_at_most_def committed_def)
next
  case (finish lid rec)
  then show ?thesis
    using active_count_tombstone [of lid s] reserved_sum_tombstone [of lid s]
    by (simp add: uses_at_most_def committed_def accrued_of_def)
qed


section \<open>Calls that admit nothing\<close>

fun quiet_lines :: "in_memory_inner \<Rightarrow> journal_line list \<Rightarrow> bool" where
  "quiet_lines s [] = True"
| "quiet_lines s (l # ls) \<longleftrightarrow> brings_in s l = None \<and> quiet_lines (replay_line l s) ls"

fun call_admits :: "ledger_call \<Rightarrow> bool" where
  "call_admits (CPut rec) = True"
| "call_admits (CTryAdmit rec mc) = True"
| "call_admits (CTryAdmitWithCompute rec mc gate) = True"
| "call_admits _ = False"

lemma quiet_lines_uses:
  "legal_lines s ls \<Longrightarrow> quiet_lines s ls \<Longrightarrow> mem_inv s \<Longrightarrow> uses_at_most (replay ls s) s"
proof (induction ls arbitrary: s)
  case Nil
  then show ?case by (simp add: uses_at_most_refl)
next
  case (Cons l ls)
  then have "uses_at_most (replay_line l s) s" by (simp add: line_uses)
  moreover have "uses_at_most (replay ls (replay_line l s)) (replay_line l s)"
    using Cons by (simp add: line_ok_mem_inv)
  ultimately show ?case by (simp add: uses_at_most_trans)
qed

lemma quiet_claims: "quiet_lines s (map (\<lambda>r. JPendingCleanupClaim (f r)) rs)"
  by (induction rs arbitrary: s) (simp_all del: replay_line.simps)

lemma quiet_transition:
  assumes inv: "mem_inv s"
  shows "quiet_lines s (transition_lines lid to now s)"
proof (cases "hm_get (im_records s) lid")
  case None
  then show ?thesis by (simp add: transition_lines_def transition_capturing_def)
next
  case (Some rec)
  then show ?thesis
    using mem_inv_key [OF inv Some]
    by (cases "apply_transition rec to now")
      (auto simp: transition_lines_def transition_capturing_def apply_transition_Inr_fields(1)
        simp del: replay_line.simps split: prod.splits option.splits)
qed

lemma quiet_bind:
  assumes inv: "mem_inv s"
  shows "quiet_lines s (call_lines js (CBindProviderRef lid pref) s)"
  using mem_inv_key [OF inv]
  by (auto simp: mem_bind_provider_ref_def bind_ref_Inr split: sum.splits option.splits)

lemma quiet_call:
  assumes inv: "mem_inv s" and "\<not> call_admits c"
  shows "quiet_lines s (call_lines js c s)"
  using assms(2) quiet_transition [OF inv] quiet_bind [OF inv]
  by (cases c) (auto simp: stale_claim_lines_def remove_lines_def quiet_claims
      simp del: call_lines.simps(2) split: option.splits)

lemma call_uses:
  assumes "mem_inv s" and "\<not> call_admits c"
  shows "uses_at_most (snd (mem_call js c s)) s"
  using quiet_lines_uses [OF _ quiet_call [OF assms] assms(1)] mem_call_refines [OF assms(1)]
  by (auto simp: refines_lines_def)

lemma mem_call_inv: "mem_inv s \<Longrightarrow> mem_inv (snd (mem_call js c s))"
  using mem_call_refines [of s js c] legal_lines_mem_inv [of s] by (auto simp: refines_lines_def)

lemma mem_run_invariant:
  assumes step: "\<And>s c. P s \<Longrightarrow> mem_inv s \<Longrightarrow> Q c \<Longrightarrow> P (snd (mem_call js c s))"
    and "P s" "mem_inv s" "list_all Q cs"
  shows "P (mem_run js cs s) \<and> mem_inv (mem_run js cs s)"
  using assms(2-4) by (induction cs arbitrary: s) (auto intro: step mem_call_inv)

lemma mem_run_inv: "mem_inv s \<Longrightarrow> mem_inv (mem_run js cs s)"
  by (induction cs arbitrary: s) (auto intro: mem_call_inv)


section \<open>The concurrency cap\<close>

lemma active_count_new_record:
  assumes "hm_get (im_records s) (lr_lease_id rec) = None"
  shows "active_count (replay_line (JRecord rec) s) t =
    active_count s t + (if is_active_for t rec then 1 else 0)"
  using hm_weight_insert_new [OF assms] by (simp add: active_count_weight)

lemma reserved_sum_new_record:
  assumes "mem_inv s" and "hm_get (im_records s) (lr_lease_id rec) = None"
  shows "reserved_sum (replay_line (JRecord rec) s) t pk = reserved_sum s t pk"
  using hm_weight_insert_new [OF assms(2)] mem_inv_absent(2) [OF assms]
  by (simp add: reserved_sum_def reserved_weight_def)

lemma reserved_sum_admit:
  assumes "hm_get (im_records s) (lr_lease_id rec) = None"
  shows "reserved_sum (replay_line (JAdmitCommit rec res) s) t pk = reserved_sum s t pk +
    (if is_active_for t rec \<and> res_accrual_period_key res = pk
     then unat (res_reserved_vcpu_ms res) else 0)"
proof -
  let ?m = "hm_insert (lr_lease_id rec) res (im_reservations s)"
  have "lr_lease_id rec \<notin> hm_keys (im_records s)" using assms by (simp add: map_of_eq_None_iff)
  then have "hm_weight (reserved_weight ?m t pk) (im_records s)
      = hm_weight (reserved_weight (im_reservations s) t pk) (im_records s)"
    by (intro hm_weight_cong) (force simp: reserved_weight_def)
  with hm_weight_insert_new [OF assms, of "reserved_weight ?m t pk" rec] show ?thesis
    by (simp add: reserved_sum_def reserved_weight_def)
qed

fun within_cap :: "(tenant_id \<Rightarrow> u32) \<Rightarrow> ledger_call \<Rightarrow> bool" where
  "within_cap cap (CPut rec) \<longleftrightarrow> \<not> is_active rec"
| "within_cap cap (CTryAdmit rec mc) \<longleftrightarrow> mc \<le> cap (lr_tenant rec)"
| "within_cap cap (CTryAdmitWithCompute rec mc gate) \<longleftrightarrow> mc \<le> cap (lr_tenant rec)"
| "within_cap cap _ \<longleftrightarrow> True"

definition cap_respected :: "(tenant_id \<Rightarrow> u32) \<Rightarrow> in_memory_inner \<Rightarrow> bool" where
  "cap_respected cap s \<longleftrightarrow> (\<forall>t. active_count s t \<le> unat (cap t))"

lemma below_cap:
  assumes "cap_respected cap s" and "(of_nat (active_count s t) :: u32) < mc" and "mc \<le> cap t"
  shows "active_count s t < unat (cap t)"
proof -
  have "active_count s t \<le> unat (cap t)" using assms(1) by (simp add: cap_respected_def)
  moreover have "unat (cap t) < 2 ^ 32" using unsigned_less [of "cap t", where ?'a = nat] by simp
  ultimately have "unat (of_nat (active_count s t) :: u32) = active_count s t"
    by (simp add: unat_of_nat_u32)
  with assms(2,3) show ?thesis by (simp add: word_nat)
qed

lemma cap_new_record:
  assumes "cap_respected cap s" and "hm_get (im_records s) (lr_lease_id rec) = None"
    and "is_active rec \<Longrightarrow> active_count s (lr_tenant rec) < unat (cap (lr_tenant rec))"
  shows "cap_respected cap (replay_line (JRecord rec) s)"
  unfolding cap_respected_def
  using assms(1,3) active_count_new_record [OF assms(2)]
  by (auto simp: cap_respected_def is_active_for_alt simp del: replay_line.simps
      intro: Suc_leI)

lemma cap_admit_lines:
  assumes "cap_respected cap s" and "mc \<le> cap (lr_tenant rec)"
  shows "cap_respected cap (replay (admit_lines rec mc s) s)"
  using below_cap [OF assms(1) _ assms(2)] cap_new_record [OF assms(1), of rec] assms(1)
  by (auto simp: admit_lines_def active_count_def hm_contains_def simp del: replay_line.simps)

lemma cap_admit_commit:
  "cap_respected cap (replay_line (JAdmitCommit rec res) s) \<longleftrightarrow>
     cap_respected cap (replay_line (JRecord rec) s)"
  by (simp add: cap_respected_def active_count_def)

lemma cap_step:
  assumes cap: "cap_respected cap s" and inv: "mem_inv s" and call: "within_cap cap c"
  shows "cap_respected cap (snd (mem_call js c s))"
proof (cases "call_admits c")
  case False
  with call_uses [OF inv False, of js] cap show ?thesis
    by (auto simp: uses_at_most_def cap_respected_def intro: order_trans)
next
  case True
  have st: "snd (mem_call js c s) = replay (call_lines js c s) s"
    using mem_call_refines [OF inv, of js c] by (simp add: refines_lines_def)
  from True show ?thesis
  proof (cases c rule: call_admits.cases)
    case (1 rec)
    with st call cap cap_new_record [OF cap, of rec] show ?thesis
      by (auto simp: hm_contains_def simp del: replay_line.simps mem_call.simps)
  next
    case (2 rec mc)
    with st call cap_admit_lines [OF cap, of mc rec] show ?thesis
      by (simp del: mem_call.simps)
  next
    case (3 rec mc gate_opt)
    with call have mc: "mc \<le> cap (lr_tenant rec)" by simp
    have "cap_respected cap (replay_line (JAdmitCommit rec res) s)"
      if "admit_decision s rec mc gate = (Admitted, r)" "hm_get (im_records s) (lr_lease_id rec) = None"
      for gate r res
      using below_cap [OF cap admitted_below_cap [OF that(1)] mc] cap_new_record [OF cap that(2)]
      by (simp add: cap_admit_commit del: replay_line.simps)
    with 3 st cap cap_admit_lines [OF cap mc] show ?thesis
      by (auto simp: hm_contains_def simp del: replay_line.simps mem_call.simps
          split: option.splits prod.splits admit_outcome.splits)
  qed simp_all
qed


section \<open>The compute ceiling\<close>

fun within_ceiling :: "(tenant_id \<Rightarrow> u32 \<Rightarrow> u64) \<Rightarrow> ledger_call \<Rightarrow> bool" where
  "within_ceiling lim (CTryAdmitWithCompute rec mc (Some gate)) \<longleftrightarrow>
     cg_ceiling_vcpu_ms gate \<le> lim (lr_tenant rec) (cg_period_key gate)"
| "within_ceiling lim _ \<longleftrightarrow> True"

definition ceiling_respected :: "(tenant_id \<Rightarrow> u32 \<Rightarrow> u64) \<Rightarrow> in_memory_inner \<Rightarrow> bool" where
  "ceiling_respected lim s \<longleftrightarrow> (\<forall>t pk. committed s t pk \<le> unat (lim t pk))"

lemma ceiling_admit_lines:
  assumes "ceiling_respected lim s" and inv: "mem_inv s"
  shows "ceiling_respected lim (replay (admit_lines rec mc s) s)"
  using assms(1) reserved_sum_new_record [OF inv, of rec]
  by (auto simp: admit_lines_def ceiling_respected_def committed_def hm_contains_def)

lemma ceiling_admit_commit:
  assumes lim: "ceiling_respected lim s" and inv: "mem_inv s"
    and absent: "hm_get (im_records s) (lr_lease_id rec) = None"
    and adm: "admit_decision s rec mc gate = (Admitted, Some res)"
    and fits: "\<And>t pk. fits_ledger (lim t pk)"
    and gate: "cg_ceiling_vcpu_ms gate \<le> lim (lr_tenant rec) (cg_period_key gate)"
  shows "ceiling_respected lim (replay_line (JAdmitCommit rec res) s)"
  unfolding ceiling_respected_def
proof (intro allI)
  fix t pk
  have res: "res_accrual_period_key res = cg_period_key gate"
    "res_reserved_vcpu_ms res = cg_new_reserved_vcpu_ms gate"
    using admit_decision_Admitted [OF adm] by auto
  have g: "unat (cg_ceiling_vcpu_ms gate) \<le> unat (lim (lr_tenant rec) (cg_period_key gate))"
    using gate by (simp add: word_nat)
  moreover have "unat (lim (lr_tenant rec) (cg_period_key gate)) < 2 ^ 63"
    using fits [of "lr_tenant rec" "cg_period_key gate"] by (simp add: fits_ledger_nat)
  ultimately have "unat (cg_ceiling_vcpu_ms gate) < 2 ^ 64 - 1" by simp
  note room = projected_exact [OF inv adm this]
  have "committed (replay_line (JAdmitCommit rec res) s) t pk = committed s t pk +
      (if is_active_for t rec \<and> res_accrual_period_key res = pk
       then unat (res_reserved_vcpu_ms res) else 0)"
    using reserved_sum_admit [OF absent, of res t pk] by (simp add: committed_def accrued_of_def)
  then show "committed (replay_line (JAdmitCommit rec res) s) t pk \<le> unat (lim t pk)"
    using room g lim res by (auto simp: ceiling_respected_def is_active_for_alt)
qed

lemma ceiling_step:
  assumes lim: "ceiling_respected lim s" and inv: "mem_inv s" and call: "within_ceiling lim c"
    and fits: "\<And>t pk. fits_ledger (lim t pk)"
  shows "ceiling_respected lim (snd (mem_call js c s))"
proof (cases "call_admits c")
  case False
  with call_uses [OF inv False, of js] lim show ?thesis
    unfolding uses_at_most_def ceiling_respected_def by (meson order_trans)
next
  case True
  have st: "snd (mem_call js c s) = replay (call_lines js c s) s"
    using mem_call_refines [OF inv, of js c] by (simp add: refines_lines_def)
  from True show ?thesis
  proof (cases c rule: call_admits.cases)
    case (1 rec)
    with st lim reserved_sum_new_record [OF inv, of rec] show ?thesis
      by (auto simp: ceiling_respected_def committed_def hm_contains_def simp del: mem_call.simps)
  next
    case (2 rec mc)
    with st ceiling_admit_lines [OF lim inv] show ?thesis by (simp del: mem_call.simps)
  next
    case (3 rec mc gate_opt)
    have "ceiling_respected lim (replay_line (JAdmitCommit rec res) s)"
      if "gate_opt = Some gate" "admit_decision s rec mc gate = (Admitted, Some res)"
        "hm_get (im_records s) (lr_lease_id rec) = None" for gate res
      using ceiling_admit_commit [OF lim inv that(3,2) fits] call 3 that(1) by simp
    with 3 st lim ceiling_admit_lines [OF lim inv] show ?thesis
      by (auto simp: hm_contains_def simp del: replay_line.simps mem_call.simps
          split: option.splits prod.splits admit_outcome.splits)
  qed simp_all
qed


section \<open>The meter\<close>

text \<open>What a call charges to a tenant and period, written over the natural numbers: a terminal
  transition of a lease with a reservation costs its vCPU time, at most the reservation; every other
  call costs nothing.\<close>

fun call_charge :: "ledger_call \<Rightarrow> in_memory_inner \<Rightarrow> tenant_id \<Rightarrow> u32 \<Rightarrow> nat" where
  "call_charge (CTransition lid to now) s t pk =
     (case (hm_get (im_records s) lid, hm_get (im_reservations s) lid) of
        (Some rec, Some res) \<Rightarrow>
          if lid \<notin> im_claims s \<and> lr_state rec = Wire Held \<and> to \<noteq> Held
             \<and> lr_tenant rec = t \<and> res_accrual_period_key res = pk
          then min (unat (res_box_vcpu_count res) * (unat now - unat (lr_created_at_ms rec)))
                   (unat (res_reserved_vcpu_ms res))
          else 0
      | _ \<Rightarrow> 0)"
| "call_charge _ s t pk = 0"

fun run_charges :: "json_parser \<Rightarrow> ledger_call list \<Rightarrow> in_memory_inner \<Rightarrow> tenant_id \<Rightarrow> u32 \<Rightarrow> nat" where
  "run_charges js [] s t pk = 0"
| "run_charges js (c # cs) s t pk =
     call_charge c s t pk + run_charges js cs (snd (mem_call js c s)) t pk"

lemma unat_terminal_charge:
  "unat (terminal_charge rec res now) =
     min (unat (res_box_vcpu_count res) * (unat now - unat (lr_created_at_ms rec)))
         (unat (res_reserved_vcpu_ms res))"
proof -
  have "unat (res_reserved_vcpu_ms res) \<le> 2 ^ 64 - 1"
    using unsigned_less [of "res_reserved_vcpu_ms res", where ?'a = nat] by simp
  then show ?thesis by (simp add: terminal_charge_def unat_vcpu_ms word_nat min_def)
qed

lemma folded_total_exact:
  assumes "unat (accrued_of s (lr_tenant rec) (res_accrual_period_key res))
      + unat (res_reserved_vcpu_ms res) < 2 ^ 63"
  shows "unat (folded_total s rec res now) =
    unat (accrued_of s (lr_tenant rec) (res_accrual_period_key res))
    + unat (terminal_charge rec res now)"
  using assms terminal_charge_le [of rec res now]
  by (simp add: folded_total_def word_nat unat_MAX_LEDGER)

lemma accrued_quiet:
  assumes inv: "mem_inv s" and "\<And>lid to now. c \<noteq> CTransition lid to now"
  shows "accrued_of (snd (mem_call js c s)) t pk = accrued_of s t pk"
proof -
  have claims: "im_accruals (replay (map (\<lambda>r. JPendingCleanupClaim (lr_lease_id r)) rs) s)
      = im_accruals s" for rs s
    by (induction rs arbitrary: s) auto
  have "snd (mem_call js c s) = replay (call_lines js c s) s"
    using mem_call_refines [OF inv, of js c] by (simp add: refines_lines_def)
  moreover have "im_accruals (replay (call_lines js c s) s) = im_accruals s"
    using assms(2) claims
    by (cases c) (auto simp: admit_lines_def remove_lines_def stale_claim_lines_def
        split: option.splits prod.splits admit_outcome.splits sum.splits)
  ultimately show ?thesis by (simp add: accrued_of_def)
qed

lemma apply_transition_Inl:
  "apply_transition rec to now = Inl e \<Longrightarrow> lr_state rec = Wire Held \<Longrightarrow> to = Held"
  by (cases to) (auto simp: apply_transition_def Let_def split: if_splits)

lemma accrued_unfolded:
  assumes "\<nexists>rec rec' res. hm_get (im_records s) lid = Some rec \<and> lid \<notin> im_claims s
    \<and> apply_transition rec to now = Inr rec' \<and> to \<noteq> Held \<and> hm_get (im_reservations s) lid = Some res"
  shows "im_accruals (snd (mem_transition lid to now s)) = im_accruals s"
    and "call_charge (CTransition lid to now) s t pk = 0"
proof (atomize (full), cases "hm_get (im_records s) lid")
  case (Some rec)
  with assms show "im_accruals (snd (mem_transition lid to now s)) = im_accruals s \<and>
      call_charge (CTransition lid to now) s t pk = 0"
    by (cases "apply_transition rec to now")
      (auto simp: mem_transition_def transition_capturing_def accrue_on_terminal_none
        dest: apply_transition_Inl split: option.splits)
qed (simp add: mem_transition_def transition_capturing_def)

lemma accrued_transition:
  assumes inv: "mem_inv s"
    and room: "committed s t pk < 2 ^ 63"
  shows "unat (accrued_of (snd (mem_transition lid to now s)) t pk)
     = unat (accrued_of s t pk) + call_charge (CTransition lid to now) s t pk"
proof (cases "\<exists>rec rec' res. hm_get (im_records s) lid = Some rec \<and> lid \<notin> im_claims s
    \<and> apply_transition rec to now = Inr rec' \<and> to \<noteq> Held \<and> hm_get (im_reservations s) lid = Some res")
  case False
  with accrued_unfolded [of s lid to now] show ?thesis by (simp add: accrued_of_def)
next
  case True
  then obtain rec rec' res where *: "hm_get (im_records s) lid = Some rec" "lid \<notin> im_claims s"
    "apply_transition rec to now = Inr rec'" "to \<noteq> Held" "hm_get (im_reservations s) lid = Some res"
    by blast
  have act: "is_active rec" by (rule apply_transition_from_active [OF *(3)])
  have latch: "res_accrued_at_ms res = None" by (rule mem_inv_latch [OF inv *(1,5) act])
  have held: "lr_state rec = Wire Held"
    using *(3,4) by (simp add: apply_transition_Inr transition_is_legal_iff)
  have new: "accrued_of (snd (mem_transition lid to now s)) t pk =
      (if t = lr_tenant rec \<and> pk = res_accrual_period_key res
       then folded_total s rec res now else accrued_of s t pk)"
    using * latch
    by (simp add: mem_transition_def transition_capturing_def accrue_on_terminal_cases accrued_of_def)
  show ?thesis
  proof (cases "t = lr_tenant rec \<and> pk = res_accrual_period_key res")
    case True
    have "reserved_weight (im_reservations s) t pk lid rec = unat (res_reserved_vcpu_ms res)"
      using reserved_weight_own [OF *(5) act] True by simp
    with hm_weight_pos [OF *(1), of "reserved_weight (im_reservations s) t pk"] room
    have "unat (accrued_of s t pk) + unat (res_reserved_vcpu_ms res) < 2 ^ 63"
      by (simp add: committed_def reserved_sum_def)
    with True folded_total_exact [of s rec res now] new * held show ?thesis
      by (simp add: unat_terminal_charge)
  next
    case False
    with new * show ?thesis by (auto split: if_splits)
  qed
qed

lemma accrued_step:
  assumes inv: "mem_inv s" and room: "committed s t pk < 2 ^ 63"
  shows "unat (accrued_of (snd (mem_call js c s)) t pk)
     = unat (accrued_of s t pk) + call_charge c s t pk"
proof (cases "\<exists>lid to now. c = CTransition lid to now")
  case True
  then show ?thesis using accrued_transition [OF assms] by (auto simp del: call_charge.simps)
next
  case False
  then show ?thesis using accrued_quiet [OF inv, of c js t pk] by (cases c) auto
qed


section \<open>The life of one lease\<close>

definition lease_evolves :: "lease_record \<Rightarrow> lease_record \<Rightarrow> bool" where
  "lease_evolves r r' \<longleftrightarrow>
     lr_lease_id r' = lr_lease_id r \<and> lr_tenant r' = lr_tenant r \<and>
     lr_created_at_ms r' = lr_created_at_ms r \<and> lr_deadline_ms r' = lr_deadline_ms r \<and>
     (lr_state r' = lr_state r \<or> (\<exists>to. transition_is_legal (lr_state r) to \<and> lr_state r' = Wire to)) \<and>
     (lr_box_ref r' = lr_box_ref r \<or>
        lr_state r = Pending \<and> lr_state r' = Pending \<and> lr_box_ref r = ''box:'' @ lr_lease_id r) \<and>
     (lr_billing_acquired_at_ms r' = lr_billing_acquired_at_ms r \<or>
        lr_billing_acquired_at_ms r = None \<and> lr_state r = Pending \<and> lr_state r' = Wire Held \<and>
        lr_billing_acquired_at_ms r' = Some (lr_updated_at_ms r'))"

lemma lease_evolves_refl: "lease_evolves r r"
  by (simp add: lease_evolves_def)

lemma lease_evolves_transition: "apply_transition r to now = Inr r' \<Longrightarrow> lease_evolves r r'"
  by (auto simp: apply_transition_Inr lease_evolves_def transition_is_legal_iff)

lemma lease_evolves_terminal:
  "lease_evolves r r' \<Longrightarrow> \<not> is_active r \<Longrightarrow> lr_state r' = lr_state r"
  by (auto simp: lease_evolves_def is_active_def transition_is_legal_iff)

definition lease_after :: "in_memory_inner \<Rightarrow> string \<Rightarrow> lease_record \<Rightarrow> in_memory_inner \<Rightarrow> bool" where
  "lease_after s lid r s' \<longleftrightarrow>
     (case hm_get (im_records s') lid of
        Some r' \<Rightarrow> lease_evolves r r'
      | None \<Rightarrow> lr_state r \<noteq> Wire Held \<or> hm_get (im_reservations s) lid = None)"

lemma lease_after_same: "hm_get (im_records s') lid = Some r \<Longrightarrow> lease_after s lid r s'"
  by (simp add: lease_after_def lease_evolves_refl)

lemma lease_after_insert:
  assumes "mem_inv s" and "hm_get (im_records s) lid = Some r"
    and "hm_get (im_records s) (lr_lease_id rec) = Some q" and "lease_evolves q rec"
    and "im_records s' = hm_insert (lr_lease_id rec) rec (im_records s)"
  shows "lease_after s lid r s'"
  using assms by (auto simp: lease_after_def lease_evolves_refl)

lemma line_lease_after:
  assumes "line_ok s l" and inv: "mem_inv s" and r: "hm_get (im_records s) lid = Some r"
  shows "lease_after s lid r (replay_line l s)"
  using assms(1)
proof cases
  case (new_record rec)
  with r show ?thesis by (auto intro!: lease_after_same)
next
  case (admit rec res)
  with r show ?thesis by (auto intro!: lease_after_same)
next
  case (move k rec to now rec')
  with mem_inv_key [OF inv move(2)] show ?thesis
    by (intro lease_after_insert [OF inv r, of rec' rec])
      (simp_all add: apply_transition_Inr_fields(1) lease_evolves_transition)
next
  case (terminal k rec to now rec' res)
  with mem_inv_key [OF inv terminal(2)] show ?thesis
    by (intro lease_after_insert [OF inv r, of rec' rec])
      (simp_all add: apply_transition_Inr_fields(1) lease_evolves_transition)
next
  case (rebind k rec pref)
  with mem_inv_key [OF inv rebind(2)] show ?thesis
    by (intro lease_after_insert [OF inv r, of "rec\<lparr>lr_box_ref := pref\<rparr>" rec])
      (simp_all add: lease_evolves_def)
next
  case (rollback k rec)
  with r show ?thesis by (auto simp: lease_after_def lease_evolves_refl)
next
  case (finish k rec)
  with r show ?thesis by (auto simp: lease_after_def lease_evolves_refl)
qed (use r in \<open>auto intro!: lease_after_same\<close>)

lemma call_lines_shape:
  "(\<exists>rs :: lease_record list. call_lines js c s = map (\<lambda>r. JPendingCleanupClaim (lr_lease_id r)) rs) \<or>
   (\<exists>l. call_lines js c s = [l])"
proof -
  have Nil: "\<exists>rs :: lease_record list. [] = map (\<lambda>r. JPendingCleanupClaim (lr_lease_id r)) rs" by (rule exI [of _ "[]"]) simp
  show ?thesis
  proof (cases c)
    case (CClaimStalePendingCleanup now age)
    then have "call_lines js c s = map (\<lambda>r. JPendingCleanupClaim (lr_lease_id r))
        (filter (\<lambda>r. lr_lease_id r \<notin> im_claims s) (candidates s now age))"
      by (simp add: stale_claim_lines_def)
    then show ?thesis by blast
  qed (auto simp: admit_lines_def remove_lines_def transition_lines_def Nil
        split: option.splits prod.splits admit_outcome.splits sum.splits)
qed

lemma replay_claims_records:
  "im_records (replay (map (\<lambda>r. JPendingCleanupClaim (f r)) rs) s) = im_records s"
  by (induction rs arbitrary: s) auto

lemma call_lease_after:
  assumes inv: "mem_inv s" and r: "hm_get (im_records s) lid = Some r"
  shows "lease_after s lid r (snd (mem_call js c s))"
proof -
  have st: "snd (mem_call js c s) = replay (call_lines js c s) s"
    and legal: "legal_lines s (call_lines js c s)"
    using mem_call_refines [OF inv, of js c] by (simp_all add: refines_lines_def)
  from call_lines_shape [of js c s] show ?thesis
  proof (elim disjE exE)
    fix rs :: "lease_record list" assume "call_lines js c s = map (\<lambda>r. JPendingCleanupClaim (lr_lease_id r)) rs"
    with st r show ?thesis by (intro lease_after_same) (simp add: replay_claims_records)
  next
    fix l assume "call_lines js c s = [l]"
    with st legal line_lease_after [OF _ inv r] show ?thesis by simp
  qed
qed


section \<open>The cleanup fence\<close>

lemma line_fenced:
  assumes "line_ok s l" and inv: "mem_inv s" and fence: "lid \<in> im_claims s" and "l \<noteq> JTombstone lid"
  shows "lid \<in> im_claims (replay_line l s) \<and>
    hm_get (im_records (replay_line l s)) lid = hm_get (im_records s) lid"
  using assms(1)
proof cases
  case (new_record rec)
  with mem_inv_claim [OF inv fence] fence show ?thesis by auto
next
  case (admit rec res)
  with mem_inv_claim [OF inv fence] fence show ?thesis by auto
next
  case (move k rec to now rec')
  with mem_inv_key [OF inv move(2)] fence show ?thesis by (auto simp: apply_transition_Inr_fields(1))
next
  case (terminal k rec to now rec' res)
  with mem_inv_key [OF inv terminal(2)] fence show ?thesis
    by (auto simp: apply_transition_Inr_fields(1))
next
  case (rebind k rec pref)
  with mem_inv_key [OF inv rebind(2)] fence show ?thesis by auto
qed (use fence assms(4) in auto)

lemma legal_lines_fenced:
  assumes "legal_lines s ls" and "mem_inv s" and "lid \<in> im_claims s" and "JTombstone lid \<notin> set ls"
  shows "lid \<in> im_claims (replay ls s) \<and>
    hm_get (im_records (replay ls s)) lid = hm_get (im_records s) lid"
  using assms
proof (induction ls arbitrary: s)
  case (Cons l ls)
  from Cons.prems have "line_ok s l" "l \<noteq> JTombstone lid" by auto
  from line_fenced [OF this(1) Cons.prems(2,3) this(2)] Cons show ?case
    by (simp add: line_ok_mem_inv)
qed simp

lemma tombstone_of_fenced:
  assumes "lid \<in> im_claims s" and "JTombstone lid \<in> set (call_lines js c s)"
  shows "c = CFinishPendingCleanup lid"
  using assms
  by (cases c) (auto simp: admit_lines_def remove_lines_def stale_claim_lines_def transition_lines_def
      split: option.splits prod.splits admit_outcome.splits sum.splits if_splits)

lemma call_fenced:
  assumes "mem_inv s" and "lid \<in> im_claims s" and "c \<noteq> CFinishPendingCleanup lid"
  shows "lid \<in> im_claims (snd (mem_call js c s)) \<and>
    hm_get (im_records (snd (mem_call js c s))) lid = hm_get (im_records s) lid"
  using legal_lines_fenced [of s "call_lines js c s" lid] tombstone_of_fenced [OF assms(2), of js c]
    mem_call_refines [OF assms(1), of js c] assms by (auto simp: refines_lines_def)


section \<open>Admission, exactly\<close>

text \<open>The outcome an admission should have, in unbounded arithmetic: the compute ceiling first, then
  the concurrency cap.\<close>

definition admission_outcome :: "nat \<Rightarrow> nat \<Rightarrow> u32 \<Rightarrow> compute_gate \<Rightarrow> admit_outcome" where
  "admission_outcome used active mc gate =
     (if used + unat (cg_new_reserved_vcpu_ms gate) > unat (cg_ceiling_vcpu_ms gate) then OverCompute
      else if unat mc \<le> active then OverConcurrency else Admitted)"

lemma saturated_sum_gt:
  "c < m \<Longrightarrow> c < min (min (a + min b m) m + n) m \<longleftrightarrow> c < a + b + n" for a b c m n :: nat
  by (auto simp: min_def split: if_splits)

lemma admit_decision_outcome:
  assumes inv: "mem_inv s" and lim: "unat (cg_ceiling_vcpu_ms gate) < 2 ^ 64 - 1"
    and "active_count s (lr_tenant rec) < 2 ^ 32"
  shows "fst (admit_decision s rec mc gate) =
    admission_outcome (committed s (lr_tenant rec) (cg_period_key gate))
      (active_count s (lr_tenant rec)) mc gate"
proof -
  let ?t = "lr_tenant rec" and ?pk = "cg_period_key gate"
  have key: "lr_lease_id r = k" if "(k, r) \<in> set (im_records s)" for k r
    using that mem_inv_key [OF inv, of k r] mem_invD(1) [OF inv] by simp
  note sigma = sum_list_reserved [OF key, of "im_records s" ?pk "im_reservations s" ?t]
  define projected where "projected = sat_add (sat_add (accrued_of s ?t ?pk)
    (fold (\<lambda>v acc. sat_add acc v) (map res_reserved_vcpu_ms
       (filter (\<lambda>res. res_accrual_period_key res = ?pk)
         (List.map_filter (\<lambda>r. hm_get (im_reservations s) (lr_lease_id r))
           (filter (is_active_for ?t) (hm_values (im_records s)))))) 0)) (cg_new_reserved_vcpu_ms gate)"
  have "unat projected = min (min (unat (accrued_of s ?t ?pk) + min (reserved_sum s ?t ?pk) (2 ^ 64 - 1))
      (2 ^ 64 - 1) + unat (cg_new_reserved_vcpu_ms gate)) (2 ^ 64 - 1)"
    by (simp add: projected_def word_nat unat_fold_sat_add sigma reserved_sum_def)
  then have "cg_ceiling_vcpu_ms gate < projected \<longleftrightarrow>
      unat (cg_ceiling_vcpu_ms gate) < committed s ?t ?pk + unat (cg_new_reserved_vcpu_ms gate)"
    using saturated_sum_gt [OF lim] by (simp only: word_less_nat_alt committed_def)
  moreover have "mc \<le> (of_nat (active_count s ?t) :: u32) \<longleftrightarrow> unat mc \<le> active_count s ?t"
    using assms(3) by (simp add: word_le_nat_alt unat_of_nat_u32)
  ultimately show ?thesis
    by (simp add: admit_decision_def Let_def admission_outcome_def projected_def accrued_of_def
        active_count_def)
qed

lemma mem_admit_result:
  assumes "hm_get (im_records s) (lr_lease_id rec) = None" and "cg_ceiling_vcpu_ms gate \<noteq> 0"
  shows "mem_try_admit_with_compute rec mc (Some gate) s =
    (Inr (fst (admit_decision s rec mc gate)),
     if fst (admit_decision s rec mc gate) = Admitted
     then replay_line (JAdmitCommit rec
            \<lparr>res_box_vcpu_count = cg_box_vcpu_count gate, res_accrual_period_key = cg_period_key gate,
             res_reserved_vcpu_ms = cg_new_reserved_vcpu_ms gate, res_accrued_at_ms = None\<rparr>) s
     else s)"
proof -
  obtain out r where dec: "admit_decision s rec mc gate = (out, r)" by (cases "admit_decision s rec mc gate")
  then show ?thesis
    using assms admit_decision_Admitted [of s rec mc gate r]
    by (cases out) (auto simp: mem_try_admit_with_compute_def mem_put_eq hm_contains_def)
qed

lemma mem_finish_claimed:
  assumes "mem_inv s" and "lid \<in> im_claims s"
  shows "fst (mem_finish_pending_cleanup lid s) = Inr True"
    and "snd (mem_finish_pending_cleanup lid s) = replay_line (JTombstone lid) s"
  using mem_inv_claim [OF assms] assms(2)
  by (auto simp: mem_finish_pending_cleanup_def hm_contains_def)


lemma validated_not_placeholder:
  assumes "validate_provider_ref js pref = Inr ()"
  shows "pref \<noteq> ''box:'' @ lid"
proof
  assume "pref = ''box:'' @ lid"
  with assms show False
    by (simp add: validate_provider_ref_def strip_prefix_def PROVIDER_REF_PREFIX_def split: if_splits)
qed


section \<open>Properties of the ledger\<close>

text \<open>A lease, a gate and a run that the concrete instances below use: one lease admitted with a
  reservation of 4000 vCPU ms, started, and released after running two vCPUs for 1500 ms.\<close>

definition sample_lease :: lease_record where
  "sample_lease = \<lparr>lr_lease_id = ''l1'', lr_tenant = TenantId ''acme'', lr_state = Pending,
     lr_box_ref = ''box:l1'', lr_created_at_ms = 1000, lr_updated_at_ms = 1000,
     lr_deadline_ms = Some 3000, lr_billing_acquired_at_ms = None\<rparr>"

definition sample_gate :: compute_gate where
  "sample_gate = \<lparr>cg_period_key = 202601, cg_ceiling_vcpu_ms = 10000, cg_box_vcpu_count = 2,
     cg_new_reserved_vcpu_ms = 4000\<rparr>"

definition sample_run :: "ledger_call list" where
  "sample_run = [CTryAdmitWithCompute sample_lease 1 (Some sample_gate), CTransition ''l1'' Held 1500,
     CTransition ''l1'' Released 2500]"

lemmas sample_defs = sample_lease_def sample_gate_def sample_run_def

lemmas ledger_eval = mem_new_def mem_try_admit_with_compute_def admit_decision_def mem_put_def
  hm_contains_def hm_values_def mem_transition_def transition_capturing_def apply_transition_def
  accrue_on_terminal_def is_active_for_def is_held_def Let_def

text \<open>C4: every call of the in-memory ledger refines the commit log. In a well-formed state the lines
  the call commits are legal under the contract of the ledger, and replaying them gives exactly the
  state the call leaves.\<close>

theorem ledger_call_refines_commit_log:
  assumes "mem_inv s"
  shows "legal_lines s (call_lines js c s) \<and> snd (mem_call js c s) = replay (call_lines js c s) s"
  using mem_call_refines [OF assms, of js c] by (simp add: refines_lines_def)

theorem ledger_call_refines_commit_log_witness:
  "mem_inv mem_new \<and>
   snd (mem_call (\<lambda>_. None) (CPut sample_lease) mem_new)
     = replay (call_lines (\<lambda>_. None) (CPut sample_lease) mem_new) mem_new"
  using ledger_call_refines_commit_log [OF mem_inv_new] mem_inv_new by blast

text \<open>Whatever calls are made, in whatever order, the ledger stays well formed: each record is
  stored under its own id, checkpoints and reservations belong to a recorded lease, a cleanup claim
  stands on a Pending lease, an active lease has not been charged, and no accrual exceeds the signed
  64-bit bound of the durable store.\<close>

theorem ledger_stays_well_formed: "mem_inv (mem_run js cs mem_new)"
  by (rule mem_run_inv [OF mem_inv_new])

text \<open>C1: the compute ceiling. If no admission of a tenant in a month is checked against more than
  \<open>lim\<close>, and the limits fit the ledger, then after any sequence of calls the compute charged to a
  tenant in a month plus the worst case still reserved by its active leases is at most its limit.\<close>

theorem compute_ceiling_never_exceeded:
  assumes "\<And>t pk. fits_ledger (lim t pk)" and "list_all (within_ceiling lim) cs"
  shows "unat (accrued_of (mem_run js cs mem_new) t pk) + reserved_sum (mem_run js cs mem_new) t pk
    \<le> unat (lim t pk)"
proof -
  have "ceiling_respected lim mem_new"
    by (simp add: ceiling_respected_def committed_def accrued_of_def reserved_sum_def mem_new_def)
  then have "ceiling_respected lim (mem_run js cs mem_new) \<and> mem_inv (mem_run js cs mem_new)"
    using mem_inv_new assms(2)
    by (rule mem_run_invariant [rotated]) (rule ceiling_step [OF _ _ _ assms(1)])
  then show ?thesis by (simp add: ceiling_respected_def committed_def)
qed

theorem compute_ceiling_never_exceeded_witness:
  "fits_ledger 10000 \<and> list_all (within_ceiling (\<lambda>_ _. 10000)) sample_run \<and>
   unat (accrued_of (mem_run (\<lambda>_. None) sample_run mem_new) (TenantId ''acme'') 202601)
     + reserved_sum (mem_run (\<lambda>_. None) sample_run mem_new) (TenantId ''acme'') 202601 \<le> 10000"
proof -
  have fits: "fits_ledger 10000" by (simp add: fits_ledger_nat)
  have calls: "list_all (within_ceiling (\<lambda>_ _. 10000)) sample_run" by (simp add: sample_defs)
  from compute_ceiling_never_exceeded [OF fits calls, of "\<lambda>_. None" "TenantId ''acme''" 202601]
    fits calls show ?thesis by simp
qed

text \<open>C2: the meter is exact. Under the same limits the compute charged to a tenant in a month is
  the sum, over the terminal transitions the run made, of vCPUs times lifetime capped at the
  reservation: nothing is charged twice, nothing is lost to saturation, no other call charges.\<close>

theorem compute_meter_exact:
  assumes "\<And>t pk. fits_ledger (lim t pk)" and "list_all (within_ceiling lim) cs"
  shows "unat (accrued_of (mem_run js cs mem_new) t pk) = run_charges js cs mem_new t pk"
proof -
  have "ceiling_respected lim s \<Longrightarrow> mem_inv s \<Longrightarrow> list_all (within_ceiling lim) cs \<Longrightarrow>
      unat (accrued_of (mem_run js cs s) t pk) = unat (accrued_of s t pk) + run_charges js cs s t pk"
    for s cs
  proof (induction cs arbitrary: s)
    case (Cons c cs)
    have "committed s t pk \<le> unat (lim t pk)" using Cons.prems(1) by (simp add: ceiling_respected_def)
    also have "\<dots> < 2 ^ 63" using assms(1) [of t pk] by (simp add: fits_ledger_nat)
    finally have "unat (accrued_of (snd (mem_call js c s)) t pk)
        = unat (accrued_of s t pk) + call_charge c s t pk"
      by (rule accrued_step [OF Cons.prems(2)])
    then show ?case
      using Cons.IH [of "snd (mem_call js c s)"] ceiling_step [OF Cons.prems(1,2) _ assms(1)]
        mem_call_inv [OF Cons.prems(2)] Cons.prems(3) by simp
  qed simp
  from this [OF _ mem_inv_new assms(2)] show ?thesis
    by (simp add: ceiling_respected_def committed_def accrued_of_def reserved_sum_def mem_new_def)
qed

theorem compute_meter_exact_witness:
  "list_all (within_ceiling (\<lambda>_ _. 10000)) sample_run \<and>
   unat (accrued_of (mem_run (\<lambda>_. None) sample_run mem_new) (TenantId ''acme'') 202601) = 3000"
proof -
  have fits: "fits_ledger 10000" by (simp add: fits_ledger_nat)
  have calls: "list_all (within_ceiling (\<lambda>_ _. 10000)) sample_run" by (simp add: sample_defs)
  have "run_charges (\<lambda>_. None) sample_run mem_new (TenantId ''acme'') 202601 = 3000"
    by (simp add: sample_defs ledger_eval)
  with compute_meter_exact [OF fits calls, of "\<lambda>_. None" "TenantId ''acme''" 202601] calls
  show ?thesis by simp
qed






text \<open>C6: the cleanup fence. Once a Pending lease is claimed for cleanup, no sequence of calls short of
  finishing that cleanup changes its record, moves it or removes it, so a racing start can never take
  a box that the reaper is deleting; finishing then succeeds and leaves no trace of the lease.\<close>

theorem cleanup_fence:
  assumes "lid \<in> im_claims (mem_run js cs mem_new)"
    and "CFinishPendingCleanup lid \<notin> set ds"
  defines "s \<equiv> mem_run js cs mem_new" and "s' \<equiv> mem_run js (cs @ ds) mem_new"
  shows "lid \<in> im_claims s' \<and> hm_get (im_records s') lid = hm_get (im_records s) lid \<and>
    fst (mem_finish_pending_cleanup lid s') = Inr True \<and>
    (let e = snd (mem_finish_pending_cleanup lid s') in
      hm_get (im_records e) lid = None \<and> hm_get (im_checkpoints e) lid = None \<and>
      hm_get (im_reservations e) lid = None \<and> lid \<notin> im_claims e)"
proof -
  have inv: "mem_inv s" unfolding s_def by (rule mem_run_inv [OF mem_inv_new])
  have "mem_inv q \<Longrightarrow> lid \<in> im_claims q \<Longrightarrow> CFinishPendingCleanup lid \<notin> set ds \<Longrightarrow>
      mem_inv (mem_run js ds q) \<and> lid \<in> im_claims (mem_run js ds q) \<and>
      hm_get (im_records (mem_run js ds q)) lid = hm_get (im_records q) lid" for q
  proof (induction ds arbitrary: q)
    case (Cons d ds)
    from Cons.prems(3) have "d \<noteq> CFinishPendingCleanup lid" by auto
    from call_fenced [OF Cons.prems(1,2) this, of js] mem_call_inv [OF Cons.prems(1), of js d]
      Cons show ?case by simp
  qed simp
  from this [OF inv] assms(1,2) have *: "mem_inv s'" "lid \<in> im_claims s'"
    "hm_get (im_records s') lid = hm_get (im_records s) lid"
    by (simp_all add: s_def s'_def)
  from mem_finish_claimed [OF *(1,2)] *(2,3) show ?thesis by (simp add: Let_def)
qed

theorem cleanup_fence_witness:
  "hm_get (im_records (mem_run (\<lambda>_. None)
     ([CPut sample_lease, CClaimPendingCleanup ''l1'' 9000] @ [CTransition ''l1'' Held 9500, CRemove ''l1''])
     mem_new)) ''l1'' = Some sample_lease"
proof -
  have claimed: "''l1'' \<in> im_claims (mem_run (\<lambda>_. None)
      [CPut sample_lease, CClaimPendingCleanup ''l1'' 9000] mem_new)"
    by (simp add: sample_defs ledger_eval mem_claim_pending_cleanup_def)
  have free: "CFinishPendingCleanup ''l1'' \<notin> set [CTransition ''l1'' Held 9500, CRemove ''l1'']"
    by simp
  have "hm_get (im_records (mem_run (\<lambda>_. None)
      [CPut sample_lease, CClaimPendingCleanup ''l1'' 9000] mem_new)) ''l1'' = Some sample_lease"
    by (simp add: sample_defs ledger_eval mem_claim_pending_cleanup_def)
  with cleanup_fence [OF claimed free] show ?thesis by (simp only: conj_assoc)
qed


text \<open>C7: admission decides in the stated order and acts atomically. For a new lease id under an enabled
  gate the outcome is the one unbounded arithmetic gives, the ceiling before the cap, so a tenant over
  both is told \<open>OverCompute\<close>; an admission records the lease together with its reservation, and a
  refusal changes nothing.\<close>

theorem admission_exact_and_atomic:
  assumes "mem_inv s" and "hm_get (im_records s) (lr_lease_id rec) = None"
    and "cg_ceiling_vcpu_ms gate \<noteq> 0" and "fits_ledger (cg_ceiling_vcpu_ms gate)"
    and "active_count s (lr_tenant rec) < 2 ^ 32"
  shows "\<exists>out s'. mem_try_admit_with_compute rec mc (Some gate) s = (Inr out, s') \<and>
    out = admission_outcome (committed s (lr_tenant rec) (cg_period_key gate))
            (active_count s (lr_tenant rec)) mc gate \<and>
    (out \<noteq> Admitted \<longrightarrow> s' = s) \<and>
    (out = Admitted \<longrightarrow> hm_get (im_records s') (lr_lease_id rec) = Some rec \<and>
       map_option res_reserved_vcpu_ms (hm_get (im_reservations s') (lr_lease_id rec))
         = Some (cg_new_reserved_vcpu_ms gate) \<and> im_accruals s' = im_accruals s)"
proof -
  have "unat (cg_ceiling_vcpu_ms gate) < 2 ^ 64 - 1" using assms(4) by (simp add: fits_ledger_nat)
  from admit_decision_outcome [OF assms(1) this assms(5), of mc] mem_admit_result [OF assms(2,3), of mc]
  show ?thesis by simp
qed

theorem admission_exact_and_atomic_witness:
  "\<exists>s'. mem_try_admit_with_compute sample_lease 1 (Some (sample_gate\<lparr>cg_ceiling_vcpu_ms := 3999\<rparr>)) mem_new
     = (Inr OverCompute, s') \<and> s' = mem_new"
proof -
  let ?g = "sample_gate\<lparr>cg_ceiling_vcpu_ms := 3999\<rparr>"
  have "admission_outcome (committed mem_new (lr_tenant sample_lease) (cg_period_key ?g))
      (active_count mem_new (lr_tenant sample_lease)) 1 ?g = OverCompute"
    by (simp add: admission_outcome_def sample_defs)
  moreover have "hm_get (im_records mem_new) (lr_lease_id sample_lease) = None"
    "cg_ceiling_vcpu_ms ?g \<noteq> 0" "fits_ledger (cg_ceiling_vcpu_ms ?g)"
    "active_count mem_new (lr_tenant sample_lease) < 2 ^ 32"
    by (simp_all add: mem_new_def sample_defs fits_ledger_nat active_count_def hm_values_def)
  ultimately show ?thesis
    using admission_exact_and_atomic [OF mem_inv_new, of sample_lease ?g 1]
    by (metis admit_outcome.distinct(4))
qed

text \<open>A provider reference binds once. A successful bind leaves the lease Pending with exactly
  that reference; repeating it changes nothing, and any other well-formed reference is then
  refused.\<close>

theorem provider_ref_binds_once:
  assumes "mem_bind_provider_ref js lid pref s = (Inr rec, s')"
    and "mem_inv s" and "pref' \<noteq> pref"
    and "validate_provider_ref js pref' = Inr ()"
  shows "lr_state rec = Pending \<and> lr_box_ref rec = pref \<and> hm_get (im_records s') lid = Some rec \<and>
    mem_bind_provider_ref js lid pref s' = (Inr rec, s') \<and>
    mem_bind_provider_ref js lid pref' s' = (Inl (DifferentProviderRef lid), s')"
proof -
  from assms(1) obtain cur where *: "validate_provider_ref js pref = Inr ()" "lid \<notin> im_claims s"
    "hm_get (im_records s) lid = Some cur" "bind_ref cur pref = Inr rec"
    "s' = s\<lparr>im_records := hm_insert lid rec (im_records s)\<rparr>"
    by (auto simp: mem_bind_provider_ref_def split: sum.splits if_splits option.splits)
  have rec: "lr_state rec = Pending" "lr_box_ref rec = pref" "lr_lease_id rec = lid"
    using *(4) mem_inv_key [OF assms(2) *(3)] by (simp_all add: bind_ref_Inr)
  then have "bind_ref rec pref = Inr rec" "bind_ref rec pref' = Inl (DifferentProviderRef lid)"
    using assms(3) validated_not_placeholder [OF *(1), of lid] by (auto simp: bind_ref_def)
  with * rec assms(4) show ?thesis by (simp add: mem_bind_provider_ref_def)
qed

definition sample_json :: json_parser where
  "sample_json p = (if p = ''{\"id\":1}'' then Some (JsonObject 1) else
     if p = ''{\"id\":2}'' then Some (JsonObject 1) else None)"

theorem provider_ref_binds_once_witness:
  "fst (mem_bind_provider_ref sample_json ''l1'' (PROVIDER_REF_PREFIX @ ''{\"id\":2}'')
     (snd (mem_bind_provider_ref sample_json ''l1'' (PROVIDER_REF_PREFIX @ ''{\"id\":1}'')
       (mem_run sample_json [CPut sample_lease] mem_new)))) = Inl (DifferentProviderRef ''l1'')"
proof -
  let ?s = "mem_run sample_json [CPut sample_lease] mem_new"
  let ?p = "PROVIDER_REF_PREFIX @ ''{\"id\":1}''" and ?q = "PROVIDER_REF_PREFIX @ ''{\"id\":2}''"
  have s: "?s = mem_new\<lparr>im_records := [(''l1'', sample_lease)]\<rparr>"
    by (simp add: sample_defs ledger_eval)
  obtain rec s' where b: "mem_bind_provider_ref sample_json ''l1'' ?p ?s = (Inr rec, s')"
    unfolding s by (simp add: mem_bind_provider_ref_def validate_provider_ref_def strip_prefix_def
        PROVIDER_REF_PREFIX_def PROVIDER_REF_MAX_BYTES_def sample_json_def bind_ref_def sample_defs
        mem_new_def)
  have "validate_provider_ref sample_json ?q = Inr ()" "?q \<noteq> ?p"
    by (simp_all add: validate_provider_ref_def strip_prefix_def PROVIDER_REF_PREFIX_def
        PROVIDER_REF_MAX_BYTES_def sample_json_def)
  with provider_ref_binds_once [OF b mem_run_inv [OF mem_inv_new]] b show ?thesis by simp
qed

end
