(* ===== verification/File_Ledger.thy ===== *)
theory File_Ledger
  imports Ledger_Safety Rust_Str
begin

text \<open>
  The file-backed ledger of \<open>corelink-fabric/src/ledger.rs\<close>: an append-only JSON-lines journal with
  replay on open. The state is the journal's bytes and the replay index; \<open>serde_json\<close> is a pair of
  parameters (the encoder may fail, the decoder returns \<open>None\<close> on a parse error), and the outcome of
  each write and fsync is a parameter too, so that torn writes and failing disks are part of the model.
\<close>

section \<open>The environment\<close>

text \<open>What the operating system does with one appended line: everything is written and synced, the write
  stops after some bytes with an error, or the bytes are written and the sync fails.\<close>

datatype io_event = Synced | WriteFails nat | SyncFails

record file_env =
  fe_enc :: "journal_line \<Rightarrow> string option"
  fe_io :: "journal_line \<Rightarrow> io_event"
  fe_json :: json_parser

record file_inner =
  fi_disk :: string
  fi_index :: in_memory_inner


section \<open>Appending\<close>

definition append_line :: "file_env \<Rightarrow> journal_line \<Rightarrow> (ledger_error, unit, file_inner) op" where
  "append_line env entry fi =
     (case fe_enc env entry of
        None \<Rightarrow> (Inl SerializeFailed, fi)
      | Some line \<Rightarrow>
          (case fe_io env entry of
             WriteFails n \<Rightarrow>
               (Inl AppendFailed, fi\<lparr>fi_disk := fi_disk fi @ take n (line @ [newline])\<rparr>)
           | SyncFails \<Rightarrow> (Inl FsyncFailed, fi\<lparr>fi_disk := fi_disk fi @ line @ [newline]\<rparr>)
           | Synced \<Rightarrow> (Inr (), fi\<lparr>fi_disk := fi_disk fi @ line @ [newline]\<rparr>)))"

definition append_record :: "file_env \<Rightarrow> lease_record \<Rightarrow> (ledger_error, unit, file_inner) op" where
  "append_record env rec fi = append_line env (JRecord rec) fi"

text \<open>The \<open>?\<close> operator after an append: stop with the error, or go on from the state it left.\<close>

definition and_then ::
  "(ledger_error + unit) \<times> file_inner \<Rightarrow> (file_inner \<Rightarrow> (ledger_error + 'a) \<times> file_inner)
     \<Rightarrow> (ledger_error + 'a) \<times> file_inner" where
  "and_then r k = (case r of (Inl e, fi) \<Rightarrow> (Inl e, fi) | (Inr u, fi) \<Rightarrow> k fi)"


section \<open>The operations\<close>

definition file_put :: "file_env \<Rightarrow> lease_record \<Rightarrow> (ledger_error, unit, file_inner) op" where
  "file_put env rec fi =
     (if hm_contains (lr_lease_id rec) (im_records (fi_index fi))
      then (Inl (AlreadyExists (lr_lease_id rec)), fi)
      else and_then (append_record env rec fi) (\<lambda>fi.
        (Inr (), fi\<lparr>fi_index := (fi_index fi)\<lparr>im_records :=
           hm_insert (lr_lease_id rec) rec (im_records (fi_index fi))\<rparr>\<rparr>)))"

definition file_get :: "file_inner \<Rightarrow> string \<Rightarrow> ledger_error + lease_record option" where
  "file_get fi lease_id = mem_get (fi_index fi) lease_id"

definition file_transition ::
  "file_env \<Rightarrow> string \<Rightarrow> runner_state \<Rightarrow> u64 \<Rightarrow> (ledger_error, lease_record, file_inner) op" where
  "file_transition env lease_id to now_ms fi =
     (if lease_id \<in> im_claims (fi_index fi) then (Inl (FencedByClaim lease_id), fi)
      else case transition_capturing lease_id to now_ms (fi_index fi) of
             (Inl e, ix) \<Rightarrow> (Inl e, fi\<lparr>fi_index := ix\<rparr>)
           | (Inr (updated, accrual), ix) \<Rightarrow>
               let fi1 = fi\<lparr>fi_index := ix\<rparr> in
               (case accrual of
                  Some event \<Rightarrow>
                    let reservation = hm_get (im_reservations ix) (ae_lease_id event) in
                    and_then (append_line env (JTerminalTransition updated
                        (Some (ae_tenant event, ae_period_key event, ae_new_accrual_total event))
                        reservation) fi1) (\<lambda>fi2. (Inr updated, fi2))
                | None \<Rightarrow> and_then (append_record env updated fi1) (\<lambda>fi2. (Inr updated, fi2))))"

definition file_by_tenant :: "file_inner \<Rightarrow> tenant_id \<Rightarrow> ledger_error + lease_record list" where
  "file_by_tenant fi t = mem_by_tenant (fi_index fi) t"

definition file_held :: "file_inner \<Rightarrow> ledger_error + lease_record list" where
  "file_held fi = mem_held (fi_index fi)"

definition file_pending_older_than ::
  "file_inner \<Rightarrow> u64 \<Rightarrow> u64 \<Rightarrow> ledger_error + lease_record list" where
  "file_pending_older_than fi now_ms max_age_ms = mem_pending_older_than (fi_index fi) now_ms max_age_ms"

definition file_try_admit :: "file_env \<Rightarrow> lease_record \<Rightarrow> u32 \<Rightarrow> (ledger_error, bool, file_inner) op" where
  "file_try_admit env rec max_concurrency fi =
     (let active = length (filter (is_active_for (lr_tenant rec))
                     (hm_values (im_records (fi_index fi)))) in
      if (of_nat active :: u32) < max_concurrency
      then and_then (file_put env rec fi) (\<lambda>fi. (Inr True, fi))
      else (Inr False, fi))"

definition file_concurrency_only ::
  "file_env \<Rightarrow> lease_record \<Rightarrow> u32 \<Rightarrow> (ledger_error, admit_outcome, file_inner) op" where
  "file_concurrency_only env rec max_concurrency fi =
     (case file_try_admit env rec max_concurrency fi of
        (Inl e, fi) \<Rightarrow> (Inl e, fi)
      | (Inr admitted, fi) \<Rightarrow> (Inr (concurrency_only_outcome admitted), fi))"

definition file_try_admit_with_compute ::
  "file_env \<Rightarrow> lease_record \<Rightarrow> u32 \<Rightarrow> compute_gate option
     \<Rightarrow> (ledger_error, admit_outcome, file_inner) op" where
  "file_try_admit_with_compute env rec max_concurrency gate_opt fi =
     (case gate_opt of
        None \<Rightarrow> file_concurrency_only env rec max_concurrency fi
      | Some gate \<Rightarrow>
          if cg_ceiling_vcpu_ms gate = 0 then file_concurrency_only env rec max_concurrency fi
          else case admit_decision (fi_index fi) rec max_concurrency gate of
                 (Admitted, Some res) \<Rightarrow>
                   if hm_contains (lr_lease_id rec) (im_records (fi_index fi))
                   then (Inl (AlreadyExists (lr_lease_id rec)), fi)
                   else and_then (append_line env (JAdmitCommit rec res) fi) (\<lambda>fi.
                     (Inr Admitted, fi\<lparr>fi_index := (fi_index fi)
                        \<lparr>im_records := hm_insert (lr_lease_id rec) rec (im_records (fi_index fi)),
                         im_reservations :=
                           hm_insert (lr_lease_id rec) res (im_reservations (fi_index fi))\<rparr>\<rparr>))
               | (outcome, reservation) \<Rightarrow> (Inr outcome, fi))"

definition file_compute_accrued :: "file_inner \<Rightarrow> tenant_id \<Rightarrow> u32 \<Rightarrow> ledger_error + u64" where
  "file_compute_accrued fi t pk = mem_compute_accrued (fi_index fi) t pk"

definition file_set_envelope_checkpoint ::
  "file_env \<Rightarrow> string \<Rightarrow> string \<Rightarrow> (ledger_error, unit, file_inner) op" where
  "file_set_envelope_checkpoint env lease_id checkpoint_json fi =
     (if \<not> hm_contains lease_id (im_records (fi_index fi))
      then (Inl (CheckpointUnknownLease lease_id), fi)
      else and_then (append_line env (JCheckpoint lease_id checkpoint_json) fi) (\<lambda>fi.
        (Inr (), fi\<lparr>fi_index := (fi_index fi)\<lparr>im_checkpoints :=
           hm_insert lease_id checkpoint_json (im_checkpoints (fi_index fi))\<rparr>\<rparr>)))"

definition file_get_envelope_checkpoint :: "file_inner \<Rightarrow> string \<Rightarrow> ledger_error + string option" where
  "file_get_envelope_checkpoint fi lease_id = mem_get_envelope_checkpoint (fi_index fi) lease_id"

definition file_remove :: "file_env \<Rightarrow> string \<Rightarrow> (ledger_error, bool, file_inner) op" where
  "file_remove env lease_id fi =
     (if lease_id \<in> im_claims (fi_index fi) then (Inl (FencedByClaim lease_id), fi)
      else if \<not> hm_contains lease_id (im_records (fi_index fi)) then (Inr False, fi)
      else if (case hm_get (im_records (fi_index fi)) lease_id of
                 Some rec \<Rightarrow> is_held (lr_state rec)
                            \<and> hm_contains lease_id (im_reservations (fi_index fi))
               | None \<Rightarrow> False)
           then (Inl (HeldWithReservation lease_id), fi)
      else and_then (append_line env (JTombstone lease_id) fi) (\<lambda>fi.
        (Inr True, fi\<lparr>fi_index := (fi_index fi)
           \<lparr>im_records := hm_remove lease_id (im_records (fi_index fi)),
            im_checkpoints := hm_remove lease_id (im_checkpoints (fi_index fi)),
            im_reservations := hm_remove lease_id (im_reservations (fi_index fi))\<rparr>\<rparr>)))"

definition file_remove_if_pending :: "file_env \<Rightarrow> string \<Rightarrow> (ledger_error, bool, file_inner) op" where
  "file_remove_if_pending env lease_id fi =
     (if lease_id \<in> im_claims (fi_index fi) then (Inr False, fi)
      else case hm_get (im_records (fi_index fi)) lease_id of
             Some rec \<Rightarrow> if lr_state rec = Pending then file_remove env lease_id fi else (Inr False, fi)
           | None \<Rightarrow> (Inr False, fi))"

definition file_claim_pending_cleanup ::
  "file_env \<Rightarrow> string \<Rightarrow> u64 \<Rightarrow> (ledger_error, lease_record option, file_inner) op" where
  "file_claim_pending_cleanup env lease_id now_ms fi =
     (case hm_get (im_records (fi_index fi)) lease_id of
        None \<Rightarrow> (Inr None, fi)
      | Some rec \<Rightarrow>
          if lr_state rec \<noteq> Pending then (Inr None, fi)
          else if lease_id \<notin> im_claims (fi_index fi)
               then and_then (append_line env (JPendingCleanupClaim lease_id) fi) (\<lambda>fi.
                 (Inr (Some rec), fi\<lparr>fi_index := (fi_index fi)
                    \<lparr>im_claims := insert lease_id (im_claims (fi_index fi))\<rparr>\<rparr>))
               else (Inr (Some rec), fi))"

fun file_claim_rows ::
  "file_env \<Rightarrow> string set \<Rightarrow> lease_record list \<Rightarrow> (ledger_error, unit, file_inner) op" where
  "file_claim_rows env prior [] fi = (Inr (), fi)"
| "file_claim_rows env prior (row # rows) fi =
     and_then (if lr_lease_id row \<notin> prior
               then append_line env (JPendingCleanupClaim (lr_lease_id row)) fi else (Inr (), fi)) (\<lambda>fi.
       file_claim_rows env prior rows (fi\<lparr>fi_index := (fi_index fi)
         \<lparr>im_claims := insert (lr_lease_id row) (im_claims (fi_index fi))\<rparr>\<rparr>))"

definition file_claim_stale_pending_cleanup ::
  "file_env \<Rightarrow> u64 \<Rightarrow> u64 \<Rightarrow> (ledger_error, lease_record list, file_inner) op" where
  "file_claim_stale_pending_cleanup env now_ms max_age_ms fi =
     (let prior = im_claims (fi_index fi);
          rows = candidates (fi_index fi) now_ms max_age_ms
      in and_then (file_claim_rows env prior rows fi) (\<lambda>fi. (Inr rows, fi)))"

definition file_finish_pending_cleanup :: "file_env \<Rightarrow> string \<Rightarrow> (ledger_error, bool, file_inner) op" where
  "file_finish_pending_cleanup env lease_id fi =
     (if lease_id \<notin> im_claims (fi_index fi) \<or>
         (case hm_get (im_records (fi_index fi)) lease_id of
            Some rec \<Rightarrow> lr_state rec \<noteq> Pending | None \<Rightarrow> True)
      then (Inr False, fi)
      else and_then (append_line env (JTombstone lease_id) fi) (\<lambda>fi.
        (Inr True, fi\<lparr>fi_index := (fi_index fi)
           \<lparr>im_records := hm_remove lease_id (im_records (fi_index fi)),
            im_claims := im_claims (fi_index fi) - {lease_id},
            im_checkpoints := hm_remove lease_id (im_checkpoints (fi_index fi)),
            im_reservations := hm_remove lease_id (im_reservations (fi_index fi))\<rparr>\<rparr>)))"

definition file_bind_provider_ref ::
  "file_env \<Rightarrow> string \<Rightarrow> string \<Rightarrow> (ledger_error, lease_record, file_inner) op" where
  "file_bind_provider_ref env lease_id provider_ref fi =
     (case validate_provider_ref (fe_json env) provider_ref of
        Inl e \<Rightarrow> (Inl e, fi)
      | Inr u \<Rightarrow>
          if lease_id \<in> im_claims (fi_index fi) then (Inl (CleanupClaimed lease_id), fi)
          else case hm_get (im_records (fi_index fi)) lease_id of
                 None \<Rightarrow> (Inl (UnknownLease lease_id), fi)
               | Some current \<Rightarrow>
                   (case bind_ref current provider_ref of
                      Inl e \<Rightarrow> (Inl e, fi)
                    | Inr updated \<Rightarrow>
                        if lr_box_ref updated = lr_box_ref current then (Inr updated, fi)
                        else and_then (append_line env (JRecord updated) fi) (\<lambda>fi.
                          (Inr updated, fi\<lparr>fi_index := (fi_index fi)\<lparr>im_records :=
                             hm_insert lease_id updated (im_records (fi_index fi))\<rparr>\<rparr>))))"


fun file_call :: "file_env \<Rightarrow> ledger_call \<Rightarrow> (ledger_error, ledger_reply, file_inner) op" where
  "file_call env (CPut rec) fi = reply_op (\<lambda>_. RUnit) (file_put env rec fi)"
| "file_call env (CGet lid) fi = reply_op ROptRecord (file_get fi lid, fi)"
| "file_call env (CBindProviderRef lid pref) fi =
     reply_op RRecord (file_bind_provider_ref env lid pref fi)"
| "file_call env (CTransition lid to now) fi = reply_op RRecord (file_transition env lid to now fi)"
| "file_call env (CByTenant t) fi = reply_op RRecords (file_by_tenant fi t, fi)"
| "file_call env CHeld fi = reply_op RRecords (file_held fi, fi)"
| "file_call env (CPendingOlderThan now age) fi =
     reply_op RRecords (file_pending_older_than fi now age, fi)"
| "file_call env (CClaimStalePendingCleanup now age) fi =
     reply_op RRecords (file_claim_stale_pending_cleanup env now age fi)"
| "file_call env (CClaimPendingCleanup lid now) fi =
     reply_op ROptRecord (file_claim_pending_cleanup env lid now fi)"
| "file_call env (CFinishPendingCleanup lid) fi =
     reply_op RBool (file_finish_pending_cleanup env lid fi)"
| "file_call env (CTryAdmit rec mc) fi = reply_op RBool (file_try_admit env rec mc fi)"
| "file_call env (CTryAdmitWithCompute rec mc gate) fi =
     reply_op ROutcome (file_try_admit_with_compute env rec mc gate fi)"
| "file_call env (CComputeAccrued t pk) fi = reply_op RAmount (file_compute_accrued fi t pk, fi)"
| "file_call env (CSetEnvelopeCheckpoint lid cp) fi =
     reply_op (\<lambda>_. RUnit) (file_set_envelope_checkpoint env lid cp fi)"
| "file_call env (CGetEnvelopeCheckpoint lid) fi =
     reply_op ROptText (file_get_envelope_checkpoint fi lid, fi)"
| "file_call env (CRemove lid) fi = reply_op RBool (file_remove env lid fi)"
| "file_call env (CRemoveIfPending lid) fi = reply_op RBool (file_remove_if_pending env lid fi)"
| "file_call env (CSetTenantSuspended t b) fi =
     reply_op (\<lambda>_. RUnit) (default_set_tenant_suspended t b, fi)"
| "file_call env (CIsTenantSuspendedDurable t) fi =
     reply_op RBool (default_is_tenant_suspended_durable t, fi)"

definition file_run :: "file_env \<Rightarrow> ledger_call list \<Rightarrow> file_inner \<Rightarrow> file_inner" where
  "file_run env cs fi = fold (\<lambda>c fi. snd (file_call env c fi)) cs fi"


section \<open>Opening a journal\<close>

datatype open_error = CannotRead | CorruptJournal nat | CannotTruncate | CannotFsync | CannotOpenForAppend

text \<open>The steps of \<open>open\<close> that the operating system may refuse.\<close>

datatype open_step = ReadStep | TruncateOpenStep | SetLenStep | FsyncStep | AppendOpenStep

fun phys_lines :: "nat \<Rightarrow> nat \<Rightarrow> string list \<Rightarrow> (nat \<times> nat \<times> string) list" where
  "phys_lines n offset [] = []"
| "phys_lines n offset (line # lines) =
     (if is_blank line then phys_lines (n + 1) (offset + (length line + 1)) lines
      else (n + 1, offset, line) # phys_lines (n + 1) (offset + (length line + 1)) lines)"

fun replay_phys :: "(string \<Rightarrow> journal_line option) \<Rightarrow> (nat \<times> nat \<times> string) list \<Rightarrow> in_memory_inner
    \<Rightarrow> open_error + in_memory_inner \<times> nat option" where
  "replay_phys dec [] ix = Inr (ix, None)"
| "replay_phys dec ((lineno, byte_start, line) # rest) ix =
     (case dec line of
        Some entry \<Rightarrow> replay_phys dec rest (replay_line entry ix)
      | None \<Rightarrow> if rest = [] then Inr (ix, Some byte_start) else Inl (CorruptJournal lineno))"

definition set_len :: "nat \<Rightarrow> string \<Rightarrow> string" where
  "set_len n s = take n s @ replicate (n - length s) (CHR 0x00)"

definition file_open ::
  "(string \<Rightarrow> journal_line option) \<Rightarrow> (open_step \<Rightarrow> bool) \<Rightarrow> string option
     \<Rightarrow> (open_error + file_inner) \<times> string option" where
  "file_open dec refused disk =
     (let append_open = (\<lambda>content ix.
            if refused AppendOpenStep then (Inl CannotOpenForAppend, content)
            else let raw = (case content of Some raw \<Rightarrow> raw | None \<Rightarrow> []) in
                 (Inr \<lparr>fi_disk = raw, fi_index = ix\<rparr>, Some raw))
      in case disk of
           None \<Rightarrow> append_open None mem_new
         | Some raw \<Rightarrow>
             if refused ReadStep \<or> \<not> utf8_valid raw then (Inl CannotRead, disk)
             else (case replay_phys dec (phys_lines 0 0 (str_lines raw)) mem_new of
                     Inl e \<Rightarrow> (Inl e, disk)
                   | Inr (ix, None) \<Rightarrow> append_open disk ix
                   | Inr (ix, Some len) \<Rightarrow>
                       if refused TruncateOpenStep \<or> refused SetLenStep then (Inl CannotTruncate, disk)
                       else if refused FsyncStep then (Inl CannotFsync, Some (set_len len raw))
                       else append_open (Some (set_len len raw)) ix))"


section \<open>A healthy disk: the file ledger refines the in-memory ledger\<close>

definition line_bytes :: "(journal_line \<Rightarrow> string option) \<Rightarrow> journal_line \<Rightarrow> string" where
  "line_bytes enc l = (case enc l of Some t \<Rightarrow> t @ [newline] | None \<Rightarrow> [])"

definition journal_bytes :: "(journal_line \<Rightarrow> string option) \<Rightarrow> journal_line list \<Rightarrow> string" where
  "journal_bytes enc ls = concat (map (line_bytes enc) ls)"

definition healthy :: "file_env \<Rightarrow> journal_line list \<Rightarrow> bool" where
  "healthy env ls \<longleftrightarrow> (\<forall>l\<in>set ls. fe_io env l = Synced \<and> fe_enc env l \<noteq> None)"

lemma healthy_simps [simp]:
  "healthy env []"
  "healthy env (l # ls) \<longleftrightarrow> fe_io env l = Synced \<and> fe_enc env l \<noteq> None \<and> healthy env ls"
  "healthy env (ls @ ms) \<longleftrightarrow> healthy env ls \<and> healthy env ms"
  by (auto simp: healthy_def)

lemma journal_bytes_simps [simp]:
  "journal_bytes enc [] = []"
  "journal_bytes enc (l # ls) = line_bytes enc l @ journal_bytes enc ls"
  "journal_bytes enc (ls @ ms) = journal_bytes enc ls @ journal_bytes enc ms"
  by (simp_all add: journal_bytes_def)

lemma append_line_healthy:
  "fe_io env l = Synced \<Longrightarrow> fe_enc env l \<noteq> None \<Longrightarrow>
     append_line env l fi = (Inr (), fi\<lparr>fi_disk := fi_disk fi @ line_bytes (fe_enc env) l\<rparr>)"
  by (auto simp: append_line_def line_bytes_def)

lemma append_record_eq: "append_record env rec = append_line env (JRecord rec)"
  by (rule ext) (simp add: append_record_def)

lemma and_then_Inr [simp]: "and_then (Inr u, fi) k = k fi"
  by (simp add: and_then_def)

lemma and_then_Inl [simp]: "and_then (Inl e, fi) k = (Inl e, fi)"
  by (simp add: and_then_def)

text \<open>The state and reply of a file-backed call that went through.\<close>

definition committed_call :: "file_env \<Rightarrow> file_inner \<Rightarrow> ledger_call \<Rightarrow> file_inner" where
  "committed_call env fi c =
     \<lparr>fi_disk = fi_disk fi @ journal_bytes (fe_enc env) (call_lines (fe_json env) c (fi_index fi)),
      fi_index = snd (mem_call (fe_json env) c (fi_index fi))\<rparr>"


lemma file_put_healthy:
  assumes "hm_contains (lr_lease_id rec) (im_records (fi_index fi)) \<or> healthy env [JRecord rec]"
  shows "file_put env rec fi = (fst (mem_put rec (fi_index fi)),
    \<lparr>fi_disk = fi_disk fi @ journal_bytes (fe_enc env)
        (if hm_contains (lr_lease_id rec) (im_records (fi_index fi)) then [] else [JRecord rec]),
     fi_index = snd (mem_put rec (fi_index fi))\<rparr>)"
  using assms by (auto simp: file_put_def mem_put_def append_record_eq append_line_healthy)

lemma file_try_admit_healthy:
  assumes "healthy env (admit_lines rec mc (fi_index fi))"
  shows "file_try_admit env rec mc fi = (fst (mem_try_admit rec mc (fi_index fi)),
    \<lparr>fi_disk = fi_disk fi @ journal_bytes (fe_enc env) (admit_lines rec mc (fi_index fi)),
     fi_index = snd (mem_try_admit rec mc (fi_index fi))\<rparr>)"
proof (cases "(of_nat (length (filter (is_active_for (lr_tenant rec))
    (hm_values (im_records (fi_index fi))))) :: u32) < mc")
  case True
  with assms have h: "hm_contains (lr_lease_id rec) (im_records (fi_index fi)) \<or> healthy env [JRecord rec]"
    by (auto simp: admit_lines_def)
  from True file_put_healthy [OF h] show ?thesis
    by (auto simp: file_try_admit_def mem_try_admit_def admit_lines_def mem_put_eq Let_def
        split: if_splits)
next
  case False
  then show ?thesis by (simp add: file_try_admit_def mem_try_admit_def admit_lines_def Let_def)
qed

lemma file_concurrency_only_healthy:
  assumes "healthy env (admit_lines rec mc (fi_index fi))"
  shows "file_concurrency_only env rec mc fi = (fst (concurrency_only_admit rec mc (fi_index fi)),
    \<lparr>fi_disk = fi_disk fi @ journal_bytes (fe_enc env) (admit_lines rec mc (fi_index fi)),
     fi_index = snd (concurrency_only_admit rec mc (fi_index fi))\<rparr>)"
  unfolding file_concurrency_only_def concurrency_only_admit_def file_try_admit_healthy [OF assms]
  by (cases "mem_try_admit rec mc (fi_index fi)"; cases "fst (mem_try_admit rec mc (fi_index fi))") auto

lemma file_admit_compute_healthy:
  assumes "healthy env (call_lines js (CTryAdmitWithCompute rec mc gate_opt) (fi_index fi))"
  shows "file_try_admit_with_compute env rec mc gate_opt fi =
    (fst (mem_try_admit_with_compute rec mc gate_opt (fi_index fi)),
     \<lparr>fi_disk = fi_disk fi @ journal_bytes (fe_enc env)
        (call_lines js (CTryAdmitWithCompute rec mc gate_opt) (fi_index fi)),
      fi_index = snd (mem_try_admit_with_compute rec mc gate_opt (fi_index fi))\<rparr>)"
proof (cases "\<exists>gate. gate_opt = Some gate \<and> cg_ceiling_vcpu_ms gate \<noteq> 0")
  case False
  then show ?thesis using assms file_concurrency_only_healthy [of env rec mc fi]
    by (auto simp: file_try_admit_with_compute_def mem_try_admit_with_compute_def
        split: option.splits)
next
  case True
  then obtain gate where gate: "gate_opt = Some gate" "cg_ceiling_vcpu_ms gate \<noteq> 0" by blast
  obtain out r where dec: "admit_decision (fi_index fi) rec mc gate = (out, r)"
    by (cases "admit_decision (fi_index fi) rec mc gate")
  with gate assms show ?thesis
    by (cases out; cases r)
      (auto simp: file_try_admit_with_compute_def mem_try_admit_with_compute_def mem_put_eq
        append_line_healthy split: if_splits)
qed

lemma file_transition_healthy:
  assumes "healthy env (call_lines js (CTransition lid to now) (fi_index fi))"
  shows "file_transition env lid to now fi =
    (fst (mem_transition lid to now (fi_index fi)),
     \<lparr>fi_disk = fi_disk fi @ journal_bytes (fe_enc env)
        (call_lines js (CTransition lid to now) (fi_index fi)),
      fi_index = snd (mem_transition lid to now (fi_index fi))\<rparr>)"
proof (cases "lid \<in> im_claims (fi_index fi)")
  case True
  then show ?thesis by (simp add: file_transition_def mem_transition_def)
next
  case False
  obtain r ix where tc: "transition_capturing lid to now (fi_index fi) = (r, ix)"
    by (cases "transition_capturing lid to now (fi_index fi)")
  show ?thesis
  proof (cases r)
    case (Inl e)
    with False tc show ?thesis
      by (auto simp: file_transition_def mem_transition_def transition_lines_def)
  next
    case (Inr p)
    with False tc assms show ?thesis
      by (cases p; cases "snd p")
        (auto simp: file_transition_def mem_transition_def transition_lines_def append_record_eq
          append_line_healthy Let_def)
  qed
qed

lemma file_remove_healthy:
  assumes inv: "mem_inv (fi_index fi)" and "healthy env (remove_lines lid (fi_index fi))"
  shows "file_remove env lid fi = (fst (mem_remove lid (fi_index fi)),
    \<lparr>fi_disk = fi_disk fi @ journal_bytes (fe_enc env) (remove_lines lid (fi_index fi)),
     fi_index = snd (mem_remove lid (fi_index fi))\<rparr>)"
proof (cases "hm_get (im_records (fi_index fi)) lid")
  case None
  with mem_inv_absent [OF inv None] show ?thesis
    by (simp add: file_remove_def mem_remove_def remove_lines_def hm_contains_def)
next
  case (Some rec)
  with assms(2) show ?thesis
    by (auto simp: file_remove_def mem_remove_def remove_lines_def hm_contains_def
        append_line_healthy split: if_splits)
qed

lemma file_claim_rows_healthy:
  assumes "healthy env (map (\<lambda>r. JPendingCleanupClaim (lr_lease_id r))
      (filter (\<lambda>r. lr_lease_id r \<notin> prior) rows))"
  shows "file_claim_rows env prior rows fi = (Inr (),
    \<lparr>fi_disk = fi_disk fi @ journal_bytes (fe_enc env)
       (map (\<lambda>r. JPendingCleanupClaim (lr_lease_id r)) (filter (\<lambda>r. lr_lease_id r \<notin> prior) rows)),
     fi_index = (fi_index fi)\<lparr>im_claims := im_claims (fi_index fi) \<union> lr_lease_id ` set rows\<rparr>\<rparr>)"
  using assms by (induction rows arbitrary: fi) (auto simp: append_line_healthy)

lemma file_bind_healthy:
  assumes "healthy env (call_lines (fe_json env) (CBindProviderRef lid pref) (fi_index fi))"
  shows "file_bind_provider_ref env lid pref fi =
    (fst (mem_bind_provider_ref (fe_json env) lid pref (fi_index fi)),
     \<lparr>fi_disk = fi_disk fi @ journal_bytes (fe_enc env)
        (call_lines (fe_json env) (CBindProviderRef lid pref) (fi_index fi)),
      fi_index = snd (mem_bind_provider_ref (fe_json env) lid pref (fi_index fi))\<rparr>)"
proof (cases "\<exists>rec rec'. validate_provider_ref (fe_json env) pref = Inr ()
    \<and> lid \<notin> im_claims (fi_index fi) \<and> hm_get (im_records (fi_index fi)) lid = Some rec
    \<and> bind_ref rec pref = Inr rec'")
  case False
  then show ?thesis
    by (auto simp: file_bind_provider_ref_def mem_bind_provider_ref_def
        split: sum.splits option.splits)
next
  case True
  then obtain rec rec' where *: "validate_provider_ref (fe_json env) pref = Inr ()"
    "lid \<notin> im_claims (fi_index fi)" "hm_get (im_records (fi_index fi)) lid = Some rec"
    "bind_ref rec pref = Inr rec'" by blast
  then have "lr_box_ref rec' = lr_box_ref rec \<longleftrightarrow> rec' = rec"
    by (cases rec) (auto simp: bind_ref_Inr)
  with * assms show ?thesis
    by (cases "rec' = rec")
      (auto simp: file_bind_provider_ref_def mem_bind_provider_ref_def hm_insert_same
        append_line_healthy)
qed


lemma file_call_healthy:
  assumes inv: "mem_inv (fi_index fi)"
    and ok: "healthy env (call_lines (fe_json env) c (fi_index fi))"
    and c: "\<And>t b. c \<noteq> CSetTenantSuspended t b"
  shows "file_call env c fi = (fst (mem_call (fe_json env) c (fi_index fi)), committed_call env fi c)"
proof (cases c)
  case (CPut rec)
  with ok file_put_healthy [of rec fi env] show ?thesis
    by (auto simp: committed_call_def reply_op_def split: if_splits)
next
  case (CBindProviderRef lid pref)
  with ok file_bind_healthy show ?thesis
    by (simp add: committed_call_def reply_op_def del: call_lines.simps)
next
  case (CTransition lid to now)
  with ok file_transition_healthy show ?thesis
    by (simp add: committed_call_def reply_op_def del: call_lines.simps)
next
  case (CClaimStalePendingCleanup now age)
  with ok file_claim_rows_healthy [of env "im_claims (fi_index fi)" "candidates (fi_index fi) now age" fi]
  show ?thesis
    by (simp add: committed_call_def reply_op_def stale_claim_lines_def Let_def fold_insert_set
        file_claim_stale_pending_cleanup_def mem_claim_stale_pending_cleanup_def)
next
  case (CClaimPendingCleanup lid now)
  with ok show ?thesis
    by (auto simp: committed_call_def reply_op_def file_claim_pending_cleanup_def
        mem_claim_pending_cleanup_def append_line_healthy insert_absorb
        split: option.splits if_splits)
next
  case (CFinishPendingCleanup lid)
  with ok show ?thesis
    by (auto simp: committed_call_def reply_op_def file_finish_pending_cleanup_def
        mem_finish_pending_cleanup_def append_line_healthy hm_contains_def
        split: option.splits if_splits)
next
  case (CTryAdmit rec mc)
  with ok file_try_admit_healthy show ?thesis by (simp add: committed_call_def reply_op_def)
next
  case (CTryAdmitWithCompute rec mc gate)
  with ok file_admit_compute_healthy show ?thesis
    by (simp add: committed_call_def reply_op_def del: call_lines.simps)
next
  case (CSetEnvelopeCheckpoint lid cp)
  with ok show ?thesis
    by (auto simp: committed_call_def reply_op_def file_set_envelope_checkpoint_def
        mem_set_envelope_checkpoint_def append_line_healthy split: if_splits)
next
  case (CRemove lid)
  with ok file_remove_healthy [OF inv] show ?thesis by (simp add: committed_call_def reply_op_def)
next
  case (CRemoveIfPending lid)
  with ok file_remove_healthy [OF inv, of env lid] show ?thesis
    by (auto simp: committed_call_def reply_op_def file_remove_if_pending_def
        mem_remove_if_pending_def remove_lines_def split: option.splits if_splits)
next
  case (CSetTenantSuspended t b)
  with c [of t b] show ?thesis by simp
qed (simp_all add: committed_call_def reply_op_def file_get_def file_by_tenant_def file_held_def
      file_pending_older_than_def file_compute_accrued_def file_get_envelope_checkpoint_def
      default_is_tenant_suspended_durable_def mem_is_tenant_suspended_durable_def)


fun run_lines :: "json_parser \<Rightarrow> ledger_call list \<Rightarrow> in_memory_inner \<Rightarrow> journal_line list" where
  "run_lines js [] s = []"
| "run_lines js (c # cs) s = call_lines js c s @ run_lines js cs (snd (mem_call js c s))"

fun keeps_authority :: "ledger_call \<Rightarrow> bool" where
  "keeps_authority (CSetTenantSuspended t b) = False"
| "keeps_authority _ = True"

lemma run_lines_replay: "mem_inv s \<Longrightarrow> mem_run js cs s = replay (run_lines js cs s) s"
proof (induction cs arbitrary: s)
  case (Cons c cs)
  then show ?case
    using mem_call_refines [OF Cons.prems, of js c] mem_call_inv [OF Cons.prems, of js c]
    by (simp add: refines_lines_def)
qed simp

lemma run_lines_append:
  "run_lines js (cs @ ds) s = run_lines js cs s @ run_lines js ds (mem_run js cs s)"
  by (induction cs arbitrary: s) simp_all

lemma file_run_healthy:
  assumes "mem_inv (fi_index fi)" and "healthy env (run_lines (fe_json env) cs (fi_index fi))"
    and "list_all keeps_authority cs"
  shows "file_run env cs fi =
    \<lparr>fi_disk = fi_disk fi @ journal_bytes (fe_enc env) (run_lines (fe_json env) cs (fi_index fi)),
     fi_index = mem_run (fe_json env) cs (fi_index fi)\<rparr>"
  using assms
proof (induction cs arbitrary: fi)
  case Nil
  then show ?case by (simp add: file_run_def)
next
  case (Cons c cs)
  from Cons.prems(2,3) have ok: "healthy env (call_lines (fe_json env) c (fi_index fi))"
    and c: "c \<noteq> CSetTenantSuspended t b" for t b
    by auto
  let ?fi = "committed_call env fi c"
  have step: "snd (file_call env c fi) = ?fi" using file_call_healthy [OF Cons.prems(1) ok c] by simp
  have "file_run env (c # cs) fi = file_run env cs ?fi" by (simp add: file_run_def step)
  also have "\<dots> = \<lparr>fi_disk = fi_disk ?fi @ journal_bytes (fe_enc env) (run_lines (fe_json env) cs (fi_index ?fi)),
     fi_index = mem_run (fe_json env) cs (fi_index ?fi)\<rparr>"
    using Cons.prems mem_call_inv [OF Cons.prems(1), of "fe_json env" c]
    by (intro Cons.IH) (simp_all add: committed_call_def)
  finally show ?case by (simp add: committed_call_def)
qed


section \<open>Opening what was written\<close>

text \<open>What the journal relies on of \<open>serde_json\<close> for a line: its text is one line of valid UTF-8 that
  starts with a brace and does not end in a carriage return, it decodes to the line, and no proper
  prefix of it decodes.\<close>

definition codec_line ::
  "(journal_line \<Rightarrow> string option) \<Rightarrow> (string \<Rightarrow> journal_line option) \<Rightarrow> journal_line \<Rightarrow> bool" where
  "codec_line enc dec l \<longleftrightarrow>
     (case enc l of
        None \<Rightarrow> False
      | Some t \<Rightarrow> dec t = Some l \<and> newline \<notin> set t \<and> t \<noteq> [] \<and> hd t = CHR ''{'' \<and>
          last t \<noteq> CHR 0x0D \<and> utf8_valid t \<and> (\<forall>n < length t. dec (take n t) = None))"

lemma codec_lineE:
  assumes "codec_line enc dec l"
  obtains t where "enc l = Some t" "line_bytes enc l = t @ [newline]" "dec t = Some l"
    "newline \<notin> set t" "t \<noteq> []" "hd t = CHR ''{''" "last t \<noteq> CHR 0x0D" "utf8_valid t"
    "\<And>n. n < length t \<Longrightarrow> dec (take n t) = None"
  using assms by (auto simp: codec_line_def line_bytes_def split: option.splits)

lemma brace_not_blank: "t \<noteq> [] \<Longrightarrow> hd t = CHR ''{'' \<Longrightarrow> \<not> is_blank t"
  using not_blank_ascii [of "CHR ''{''" "tl t"]
  by (cases t) (simp_all add: is_ascii_ws_def del: is_blank.simps)

lemma utf8_journal: "list_all (codec_line enc dec) ls \<Longrightarrow> utf8_valid (journal_bytes enc ls)"
proof (induction ls)
  case (Cons l ls)
  then have "codec_line enc dec l" by simp
  then obtain t where "line_bytes enc l = t @ [newline]" "utf8_valid t" by (rule codec_lineE)
  then have "utf8_valid (line_bytes enc l)" using utf8_valid_append [of t "[newline]"] by simp
  with Cons show ?case by (simp add: utf8_valid_append)
qed simp

lemma replay_journal:
  assumes "list_all (codec_line enc dec) ls"
  shows "replay_phys dec (phys_lines n off (str_lines (journal_bytes enc ls @ tail))) s
    = replay_phys dec (phys_lines (n + length ls) (off + length (journal_bytes enc ls)) (str_lines tail))
        (replay ls s)"
  using assms
proof (induction ls arbitrary: n off s)
  case (Cons l ls)
  then have "codec_line enc dec l" by simp
  then obtain t where t: "line_bytes enc l = t @ [newline]" "dec t = Some l" "newline \<notin> set t"
    "t \<noteq> []" "hd t = CHR ''{''" "last t \<noteq> CHR 0x0D" by (rule codec_lineE)
  have "str_lines (line_bytes enc l @ journal_bytes enc ls @ tail)
      = t # str_lines (journal_bytes enc ls @ tail)"
    using t str_lines_line [of t "journal_bytes enc ls @ tail"] by simp
  moreover have "\<not> is_blank t" by (rule brace_not_blank) (use t in simp_all)
  ultimately show ?case
    using Cons t by (simp add: algebra_simps)
qed simp


abbreviation no_faults :: "open_step \<Rightarrow> bool" where
  "no_faults \<equiv> \<lambda>_. False"

lemma open_clean:
  assumes "list_all (codec_line enc dec) ls"
  shows "file_open dec no_faults (Some (journal_bytes enc ls)) =
    (Inr \<lparr>fi_disk = journal_bytes enc ls, fi_index = replay ls mem_new\<rparr>, Some (journal_bytes enc ls))"
  using utf8_journal [OF assms] replay_journal [OF assms, of 0 0 "[]" mem_new]
  by (simp add: file_open_def Let_def)

text \<open>A last line without its newline: it is replayed if it decodes, and cut off if it does not.\<close>

lemma open_tail:
  assumes ls: "list_all (codec_line enc dec) ls" and p: "newline \<notin> set p" "\<not> is_blank p" "utf8_valid p"
  shows "file_open dec no_faults (Some (journal_bytes enc ls @ p)) =
    (case dec p of
       Some l \<Rightarrow> (Inr \<lparr>fi_disk = journal_bytes enc ls @ p, fi_index = replay (ls @ [l]) mem_new\<rparr>,
                 Some (journal_bytes enc ls @ p))
     | None \<Rightarrow> (Inr \<lparr>fi_disk = journal_bytes enc ls, fi_index = replay ls mem_new\<rparr>,
                 Some (journal_bytes enc ls)))"
proof -
  have "p \<noteq> []" using p(2) by auto
  with p have "str_lines p = [p]" by (simp add: str_lines_rest)
  with replay_journal [OF ls, of 0 0 p mem_new] p(2)
  have "replay_phys dec (phys_lines 0 0 (str_lines (journal_bytes enc ls @ p))) mem_new =
      (case dec p of Some l \<Rightarrow> Inr (replay (ls @ [l]) mem_new, None)
       | None \<Rightarrow> Inr (replay ls mem_new, Some (length (journal_bytes enc ls))))"
    by (simp split: option.splits)
  moreover have "utf8_valid (journal_bytes enc ls @ p)"
    using utf8_journal [OF ls] p(3) by (simp add: utf8_valid_append)
  ultimately show ?thesis
    by (simp add: file_open_def set_len_def Let_def split: option.splits)
qed

lemma open_middle:
  assumes ls: "list_all (codec_line enc dec) ls" and p: "newline \<notin> set p" "last p \<noteq> CHR 0x0D"
    "\<not> is_blank p" "dec p = None"
    and rest: "phys_lines (Suc (length ls)) off (str_lines rest) \<noteq> []"
    and off: "off = length (journal_bytes enc ls @ p) + 1"
    and utf8: "utf8_valid (p @ newline # rest)"
  shows "file_open dec no_faults (Some (journal_bytes enc ls @ p @ newline # rest)) =
    (Inl (CorruptJournal (length ls + 1)), Some (journal_bytes enc ls @ p @ newline # rest))"
proof -
  have "str_lines (p @ newline # rest) = p # str_lines rest" using p by (simp add: str_lines_line)
  with replay_journal [OF ls, of 0 0 "p @ newline # rest" mem_new] p rest off
  have "replay_phys dec (phys_lines 0 0 (str_lines (journal_bytes enc ls @ p @ newline # rest))) mem_new
      = Inl (CorruptJournal (length ls + 1))"
    by (simp add: algebra_simps)
  moreover have "utf8_valid (journal_bytes enc ls @ p @ newline # rest)"
    using utf8_journal [OF ls] utf8 by (simp add: utf8_valid_append)
  ultimately show ?thesis by (simp add: file_open_def Let_def)
qed

text \<open>Where a journal can be cut: after some whole lines, inside the text of the next one.\<close>

lemma take_journal:
  "\<exists>j p. take k (journal_bytes enc ls) = journal_bytes enc (take j ls) @ p \<and>
     (p = [] \<or> j < length ls \<and> (\<exists>t n. enc (ls ! j) = Some t \<and> p = take n t \<and> 0 < n \<and> n \<le> length t))"
  (is "\<exists>j p. ?P k ls j p")
proof (induction ls arbitrary: k)
  case Nil
  have "?P k [] 0 []" by simp
  then show ?case by blast
next
  case (Cons l ls)
  show ?case
  proof (cases "length (line_bytes enc l) \<le> k")
    case True
    from Cons.IH [of "k - length (line_bytes enc l)"] obtain j p
      where "?P (k - length (line_bytes enc l)) ls j p" by blast
    with True have "?P k (l # ls) (Suc j) p" by auto
    then show ?thesis by blast
  next
    case False
    then obtain t where t: "enc l = Some t" "line_bytes enc l = t @ [newline]" "k \<le> length t"
      by (cases "enc l") (auto simp: line_bytes_def)
    then have "take k (journal_bytes enc (l # ls)) = take k t" by simp
    with t have "?P k (l # ls) 0 (take k t)" by (cases "k = 0") auto
    then show ?thesis by blast
  qed
qed

lemma open_cut:
  assumes ls: "list_all (codec_line enc dec) (ls @ ms)"
    and utf8: "utf8_valid (take k (journal_bytes enc ms))"
  shows "\<exists>j fi disk. file_open dec no_faults (Some (journal_bytes enc ls @ take k (journal_bytes enc ms)))
    = (Inr fi, disk) \<and> fi_index fi = replay (take j ms) (replay ls mem_new)"
proof -
  from take_journal [of k enc ms] obtain j p where
    cut: "take k (journal_bytes enc ms) = journal_bytes enc (take j ms) @ p"
    and p: "p = [] \<or> j < length ms \<and>
      (\<exists>t n. enc (ms ! j) = Some t \<and> p = take n t \<and> 0 < n \<and> n \<le> length t)" by blast
  let ?ls = "ls @ take j ms"
  have good: "list_all (codec_line enc dec) ?ls"
    using ls by (auto simp: list_all_iff dest: in_set_takeD)
  have bytes: "journal_bytes enc ls @ take k (journal_bytes enc ms) = journal_bytes enc ?ls @ p"
    by (simp add: cut)
  have up: "utf8_valid p" using utf8 utf8_journal [of enc dec "take j ms"] good
    by (simp add: cut utf8_valid_append)
  from p show ?thesis
  proof (elim disjE conjE exE)
    assume "p = []"
    with open_clean [OF good] bytes show ?thesis by (intro exI [of _ j]) simp
  next
    fix t n assume j: "j < length ms" and t: "enc (ms ! j) = Some t" "p = take n t" "0 < n" "n \<le> length t"
    then have "codec_line enc dec (ms ! j)" using ls by (simp add: list_all_iff)
    then obtain t' where t': "enc (ms ! j) = Some t'" "dec t' = Some (ms ! j)" "newline \<notin> set t'"
      "t' \<noteq> []" "hd t' = CHR ''{''" "\<And>n. n < length t' \<Longrightarrow> dec (take n t') = None"
      by (elim codec_lineE) blast
    with t have [simp]: "t' = t" by simp
    have "p \<noteq> []" "hd p = CHR ''{''" using t t' by (cases t; cases n; simp)+
    then have "\<not> is_blank p" by (rule brace_not_blank)
    moreover have "newline \<notin> set p" using t t' by (auto dest: in_set_takeD)
    ultimately have p': "\<not> is_blank p" "newline \<notin> set p" .
    note open_p = open_tail [OF good p'(2,1) up]
    show ?thesis
    proof (cases "n = length t")
      case True
      with open_p t t' bytes j show ?thesis
        by (intro exI [of _ "Suc j"]) (simp add: take_Suc_conv_app_nth)
    next
      case False
      with open_p t t' bytes show ?thesis by (intro exI [of _ j]) simp
    qed
  qed
qed


section \<open>Failing disks\<close>

lemma append_line_index [simp]: "fi_index (snd (append_line env l fi)) = fi_index fi"
  by (simp add: append_line_def split: option.splits io_event.splits)

lemma and_then_snd:
  "snd (and_then r k) = (case fst r of Inl e \<Rightarrow> snd r | Inr u \<Rightarrow> snd (k (snd r)))"
  by (cases r; cases "fst r") auto

lemma and_then_fst:
  "fst (and_then r k) = (case fst r of Inl e \<Rightarrow> Inl e | Inr u \<Rightarrow> fst (k (snd r)))"
  by (cases r; cases "fst r") auto

lemmas file_defs = file_put_def file_try_admit_def file_concurrency_only_def
  file_try_admit_with_compute_def file_set_envelope_checkpoint_def file_remove_def
  file_remove_if_pending_def file_claim_pending_cleanup_def file_finish_pending_cleanup_def
  file_bind_provider_ref_def file_get_def file_by_tenant_def file_held_def
  file_pending_older_than_def file_compute_accrued_def file_get_envelope_checkpoint_def
  append_record_eq Let_def

lemma map_sum_Inl_iff: "map_sum id f x = Inl e \<longleftrightarrow> x = Inl e"
  by (cases x) auto

lemma file_put_error:
  "fst (file_put env rec fi) = Inl e \<Longrightarrow> fi_index (snd (file_put env rec fi)) = fi_index fi"
  by (auto simp: file_defs and_then_fst and_then_snd split: sum.splits if_splits)

lemma file_try_admit_error:
  "fst (file_try_admit env rec mc fi) = Inl e \<Longrightarrow> fi_index (snd (file_try_admit env rec mc fi)) = fi_index fi"
  using file_put_error [of env rec fi]
  by (auto simp: file_try_admit_def Let_def and_then_fst and_then_snd split: sum.splits if_splits)

lemma file_concurrency_only_error:
  "fst (file_concurrency_only env rec mc fi) = Inl e \<Longrightarrow>
     fi_index (snd (file_concurrency_only env rec mc fi)) = fi_index fi"
  using file_try_admit_error [of env rec mc fi]
  by (auto simp: file_concurrency_only_def split: prod.splits sum.splits)

lemma file_admit_compute_error:
  "fst (file_try_admit_with_compute env rec mc g fi) = Inl e \<Longrightarrow>
     fi_index (snd (file_try_admit_with_compute env rec mc g fi)) = fi_index fi"
  using file_concurrency_only_error [of env rec mc fi]
  by (auto simp: file_try_admit_with_compute_def and_then_fst and_then_snd
      split: option.splits prod.splits sum.splits if_splits admit_outcome.splits)

lemma file_remove_error:
  "fst (file_remove env lid fi) = Inl e \<Longrightarrow> fi_index (snd (file_remove env lid fi)) = fi_index fi"
  by (auto simp: file_remove_def and_then_fst and_then_snd split: sum.splits if_splits option.splits)

fun mutates_before_append :: "ledger_call \<Rightarrow> bool" where
  "mutates_before_append (CTransition lid to now) = True"
| "mutates_before_append (CClaimStalePendingCleanup now age) = True"
| "mutates_before_append _ = False"

lemma file_call_error:
  assumes "fst (file_call env c fi) = Inl e" and "\<not> mutates_before_append c"
  shows "fi_index (snd (file_call env c fi)) = fi_index fi"
proof (cases c)
  case (CPut rec)
  with assms file_put_error [of env rec fi e] show ?thesis by (simp add: map_sum_Inl_iff)
next
  case (CTryAdmit rec mc)
  with assms file_try_admit_error [of env rec mc fi e] show ?thesis by (simp add: map_sum_Inl_iff)
next
  case (CTryAdmitWithCompute rec mc g)
  with assms file_admit_compute_error [of env rec mc g fi e] show ?thesis
    by (simp add: map_sum_Inl_iff)
next
  case (CRemove lid)
  with assms file_remove_error [of env lid fi e] show ?thesis by (simp add: map_sum_Inl_iff)
next
  case (CRemoveIfPending lid)
  with assms file_remove_error [of env lid fi e] show ?thesis
    by (auto simp: map_sum_Inl_iff file_remove_if_pending_def split: option.splits if_splits)
next
  case (CBindProviderRef lid pref)
  with assms show ?thesis
    by (auto simp: map_sum_Inl_iff file_bind_provider_ref_def and_then_fst and_then_snd
        split: sum.splits if_splits option.splits)
next
  case (CClaimPendingCleanup lid now)
  with assms show ?thesis
    by (auto simp: map_sum_Inl_iff file_claim_pending_cleanup_def and_then_fst and_then_snd
        split: sum.splits if_splits option.splits)
next
  case (CFinishPendingCleanup lid)
  with assms show ?thesis
    by (auto simp: map_sum_Inl_iff file_finish_pending_cleanup_def and_then_fst and_then_snd
        split: sum.splits if_splits option.splits)
next
  case (CSetEnvelopeCheckpoint lid cp)
  with assms show ?thesis
    by (auto simp: map_sum_Inl_iff file_set_envelope_checkpoint_def and_then_fst and_then_snd
        split: sum.splits if_splits)
qed (use assms in simp_all)

text \<open>The journal only ever grows.\<close>

definition grows :: "file_inner \<Rightarrow> file_inner \<Rightarrow> bool" where
  "grows fi fi' \<longleftrightarrow> (\<exists>x. fi_disk fi' = fi_disk fi @ x)"

lemma grows_refl [simp]: "fi_disk fi' = fi_disk fi \<Longrightarrow> grows fi fi'"
  by (simp add: grows_def)

lemma grows_trans: "grows a b \<Longrightarrow> grows b c \<Longrightarrow> grows a c"
  by (auto simp: grows_def)

lemma grows_append_line [simp]: "grows fi (snd (append_line env l fi))"
  by (simp add: append_line_def grows_def split: option.splits io_event.splits)

lemma grows_and_then:
  assumes "grows fi (snd r)" and "\<And>fi'. grows fi' (snd (k fi'))"
  shows "grows fi (snd (and_then r k))"
  using assms grows_trans by (cases r; cases "fst r") auto

lemma grows_claim_rows: "grows fi (snd (file_claim_rows env prior rows fi))"
proof (induction rows arbitrary: fi)
  case (Cons row rows)
  have "grows fi' (snd (file_claim_rows env prior rows (fi'\<lparr>fi_index := ix\<rparr>)))" for fi' ix
    using Cons.IH [of "fi'\<lparr>fi_index := ix\<rparr>"] by (simp add: grows_def)
  then show ?case by (auto intro!: grows_and_then)
qed simp


lemma grows_put: "grows fi (snd (file_put env rec fi))"
  by (simp add: file_put_def append_record_eq grows_and_then)

lemma grows_try_admit: "grows fi (snd (file_try_admit env rec mc fi))"
  by (auto simp: file_try_admit_def Let_def intro!: grows_and_then grows_put)

lemma grows_concurrency_only: "grows fi (snd (file_concurrency_only env rec mc fi))"
  using grows_try_admit [of fi env rec mc]
  by (auto simp: file_concurrency_only_def split: prod.splits sum.splits)

lemma grows_admit_compute: "grows fi (snd (file_try_admit_with_compute env rec mc g fi))"
  by (auto simp: file_try_admit_with_compute_def grows_concurrency_only
      intro!: grows_and_then split: option.splits prod.splits admit_outcome.splits)

lemma grows_remove: "grows fi (snd (file_remove env lid fi))"
  by (auto simp: file_remove_def intro!: grows_and_then)

lemma grows_transition: "grows fi (snd (file_transition env lid to now fi))"
proof -
  have "grows fi (snd (and_then (append_line env l (fi\<lparr>fi_index := ix\<rparr>)) (\<lambda>fi2. (Inr r, fi2))))"
    for l ix and r :: lease_record
    using grows_and_then [OF grows_append_line [of "fi\<lparr>fi_index := ix\<rparr>" env l],
        of "\<lambda>fi2. (Inr r, fi2)"]
    by (simp add: grows_def)
  then show ?thesis
    by (auto simp: file_transition_def append_record_eq Let_def
        split: prod.splits sum.splits option.splits)
qed

lemma grows_call: "grows fi (snd (file_call env c fi))"
proof (cases c)
  case (CClaimStalePendingCleanup now age)
  then show ?thesis
    by (simp add: file_claim_stale_pending_cleanup_def Let_def grows_and_then grows_claim_rows)
next
  case (CBindProviderRef lid pref)
  then show ?thesis
    by (auto simp: file_bind_provider_ref_def intro!: grows_and_then split: sum.splits option.splits)
next
  case (CClaimPendingCleanup lid now)
  then show ?thesis
    by (auto simp: file_claim_pending_cleanup_def intro!: grows_and_then split: option.splits)
next
  case (CFinishPendingCleanup lid)
  then show ?thesis by (auto simp: file_finish_pending_cleanup_def intro!: grows_and_then)
next
  case (CSetEnvelopeCheckpoint lid cp)
  then show ?thesis by (auto simp: file_set_envelope_checkpoint_def intro!: grows_and_then)
next
  case (CRemoveIfPending lid)
  then show ?thesis by (auto simp: file_remove_if_pending_def grows_remove split: option.splits)
qed (simp_all add: grows_put grows_try_admit grows_admit_compute grows_remove grows_transition)


section \<open>Properties of the file ledger\<close>

definition file_new :: file_inner where
  "file_new = \<lparr>fi_disk = [], fi_index = mem_new\<rparr>"

text \<open>A codec and a disk for the concrete instances below.\<close>

definition second_lease :: lease_record where
  "second_lease = sample_lease\<lparr>lr_lease_id := ''l2'', lr_box_ref := ''box:l2''\<rparr>"

definition sample_enc :: "journal_line \<Rightarrow> string option" where
  "sample_enc l = (if l = JRecord sample_lease then Some ''{1}''
     else if l = JCheckpoint ''l1'' ''cp'' then Some ''{2}''
     else if l = JRecord second_lease then Some ''{3}'' else None)"

definition sample_dec :: "string \<Rightarrow> journal_line option" where
  "sample_dec t = (if t = ''{1}'' then Some (JRecord sample_lease)
     else if t = ''{2}'' then Some (JCheckpoint ''l1'' ''cp'')
     else if t = ''{3}'' then Some (JRecord second_lease) else None)"

definition sample_env :: file_env where
  "sample_env = \<lparr>fe_enc = sample_enc, fe_io = \<lambda>_. Synced, fe_json = \<lambda>_. None\<rparr>"

definition sample_calls :: "ledger_call list" where
  "sample_calls = [CPut sample_lease, CSetEnvelopeCheckpoint ''l1'' ''cp'']"

lemma sample_dec_short: "length t < 3 \<Longrightarrow> sample_dec t = None"
  by (auto simp: sample_dec_def)

lemma sample_codec:
  "codec_line sample_enc sample_dec (JRecord sample_lease)"
  "codec_line sample_enc sample_dec (JCheckpoint ''l1'' ''cp'')"
  "codec_line sample_enc sample_dec (JRecord second_lease)"
  using sample_dec_short
  by (simp_all add: codec_line_def sample_enc_def sample_dec_def [of "[_, _, _]"] second_lease_def
      sample_lease_def)

lemma sample_lines:
  "run_lines (\<lambda>_. None) sample_calls mem_new = [JRecord sample_lease, JCheckpoint ''l1'' ''cp'']"
  by (simp add: sample_calls_def ledger_eval sample_lease_def)

lemma sample_healthy:
  "healthy sample_env [JRecord sample_lease, JCheckpoint ''l1'' ''cp'']"
  by (simp add: sample_env_def sample_enc_def)




text \<open>C9: restart survival. Opening the journal that a run on a healthy disk has written gives back the
  very state the run left, and leaves the journal as it is.\<close>

theorem restart_survival:
  assumes "healthy env (run_lines (fe_json env) cs mem_new)" and "list_all keeps_authority cs"
    and "list_all (codec_line (fe_enc env) dec) (run_lines (fe_json env) cs mem_new)"
  shows "file_open dec no_faults (Some (fi_disk (file_run env cs file_new))) =
    (Inr (file_run env cs file_new), Some (fi_disk (file_run env cs file_new)))"
  using file_run_healthy [of file_new env cs] assms(1,2) mem_inv_new open_clean [OF assms(3)]
    run_lines_replay [OF mem_inv_new, of "fe_json env" cs]
  by (simp add: file_new_def)

theorem restart_survival_witness:
  "file_open sample_dec no_faults (Some (fi_disk (file_run sample_env sample_calls file_new))) =
    (Inr (file_run sample_env sample_calls file_new),
     Some (fi_disk (file_run sample_env sample_calls file_new)))"
proof -
  have lines: "run_lines (fe_json sample_env) sample_calls mem_new
      = [JRecord sample_lease, JCheckpoint ''l1'' ''cp'']"
    using sample_lines by (simp add: sample_env_def)
  have enc: "fe_enc sample_env = sample_enc" by (simp add: sample_env_def)
  show ?thesis
    by (rule restart_survival)
      (simp_all only: lines enc sample_healthy sample_codec list.pred_inject simp_thms,
       simp add: sample_calls_def)
qed






text \<open>Corruption in the middle is refused. A line that does not decode, followed by another
  non-blank line, makes opening fail with that line's number and leaves the journal untouched.\<close>

theorem middle_corruption_refused:
  assumes "list_all (codec_line enc dec) ls" and "newline \<notin> set p" and "last p \<noteq> CHR 0x0D"
    and "\<not> is_blank p" and "dec p = None" and "codec_line enc dec l" and "utf8_valid p"
  shows "file_open dec no_faults (Some (journal_bytes enc ls @ p @ newline # journal_bytes enc [l])) =
    (Inl (CorruptJournal (length ls + 1)), Some (journal_bytes enc ls @ p @ newline # journal_bytes enc [l]))"
proof (rule open_middle [OF assms(1-5)])
  from assms(6) obtain t where t: "line_bytes enc l = t @ [newline]" "newline \<notin> set t" "t \<noteq> []"
    "hd t = CHR ''{''" "last t \<noteq> CHR 0x0D" "utf8_valid t" by (rule codec_lineE)
  then have "str_lines (journal_bytes enc [l]) = [t]" "\<not> is_blank t"
    using str_lines_line [of t "[]"] brace_not_blank by simp_all
  then show "phys_lines (Suc (length ls)) (length (journal_bytes enc ls @ p) + 1)
      (str_lines (journal_bytes enc [l])) \<noteq> []" by simp
  show "utf8_valid (p @ newline # journal_bytes enc [l])"
    using assms(7) utf8_journal [of enc dec "[l]"] assms(6) by (simp add: utf8_valid_append)
qed simp

theorem middle_corruption_refused_witness:
  "fst (file_open sample_dec no_faults (Some (journal_bytes sample_enc [JRecord sample_lease]
     @ ''{x'' @ newline # journal_bytes sample_enc [JRecord second_lease]))) = Inl (CorruptJournal 2)"
proof -
  have ls: "list_all (codec_line sample_enc sample_dec) [JRecord sample_lease]" using sample_codec by simp
  have p: "newline \<notin> set ''{x''" "last ''{x'' \<noteq> CHR 0x0D" "\<not> is_blank ''{x''"
    "sample_dec ''{x'' = None" "utf8_valid ''{x''"
    by (simp_all add: is_ascii_ws_def is_ws2_def sample_dec_def)
  from middle_corruption_refused [OF ls p(1-4) sample_codec(3) p(5)] show ?thesis
    by (simp only: fst_conv) simp
qed

text \<open>A failed write is not published. Whatever the disk does, a call that answers with an error
  leaves the index as it was, except for transitions and the stale sweep; and no call ever rewrites
  what the journal already holds.\<close>

theorem failed_append_not_published:
  assumes "fst (file_call env c fi) = Inl e" and "\<not> mutates_before_append c"
  shows "fi_index (snd (file_call env c fi)) = fi_index fi \<and>
    take (length (fi_disk fi)) (fi_disk (snd (file_call env c fi))) = fi_disk fi"
  using file_call_error [OF assms] grows_call [of fi env c] by (auto simp: grows_def)

definition failing_env :: file_env where
  "failing_env = sample_env\<lparr>fe_io := \<lambda>_. WriteFails 2\<rparr>"

theorem failed_append_not_published_witness:
  "fi_index (snd (file_call failing_env (CPut sample_lease) file_new)) = mem_new"
proof -
  have "fst (file_call failing_env (CPut sample_lease) file_new) = Inl AppendFailed"
    by (simp add: failing_env_def sample_env_def sample_enc_def file_put_def append_record_eq
        append_line_def file_new_def mem_new_def hm_contains_def reply_op_def)
  from failed_append_not_published [OF this] show ?thesis by (simp add: file_new_def)
qed

text \<open>C22: a transition whose append fails is the exception. The index has already moved when the write
  fails, so the caller sees an error, the live ledger shows the new state, the journal holds the old
  one, and repeating the call is refused as an illegal transition.\<close>

theorem transition_append_failure_diverges:
  assumes "hm_get (im_records (fi_index fi)) lid = Some rec" and "lid \<notin> im_claims (fi_index fi)"
    and "apply_transition rec to now = Inr rec'" and "hm_get (im_reservations (fi_index fi)) lid = None"
    and "fe_enc env (JRecord rec') = Some t" and "fe_io env (JRecord rec') = WriteFails 0"
  shows "fst (file_transition env lid to now fi) = Inl AppendFailed \<and>
    fi_disk (snd (file_transition env lid to now fi)) = fi_disk fi \<and>
    hm_get (im_records (fi_index (snd (file_transition env lid to now fi)))) lid = Some rec' \<and>
    fst (file_transition env' lid to now' (snd (file_transition env lid to now fi)))
      = Inl (IllegalTransition (lr_lease_id rec) (Wire to) to)"
proof -
  let ?ix = "(fi_index fi)\<lparr>im_records := hm_insert lid rec' (im_records (fi_index fi))\<rparr>"
  have step: "file_transition env lid to now fi = (Inl AppendFailed, fi\<lparr>fi_index := ?ix\<rparr>)"
    using assms by (simp add: file_transition_def transition_capturing_def accrue_on_terminal_none
        append_record_eq append_line_def)
  have "lr_state rec' = Wire to" "lr_lease_id rec' = lr_lease_id rec"
    using assms(3) by (simp_all add: apply_transition_Inr_fields)
  moreover have "\<not> transition_is_legal (Wire to) to" by (cases to) simp_all
  ultimately have "apply_transition rec' to now' = Inl (IllegalTransition (lr_lease_id rec) (Wire to) to)"
    by (simp add: apply_transition_def)
  then show ?thesis using assms(2) step by (simp add: file_transition_def transition_capturing_def)
qed

definition held_lease :: lease_record where
  "held_lease = sample_lease\<lparr>lr_state := Wire Held, lr_updated_at_ms := 1500,
     lr_billing_acquired_at_ms := Some 1500\<rparr>"

theorem transition_append_failure_diverges_witness:
  "fst (file_transition \<lparr>fe_enc = \<lambda>_. Some ''{}'', fe_io = \<lambda>_. WriteFails 0, fe_json = \<lambda>_. None\<rparr>
     ''l1'' Held 1500 \<lparr>fi_disk = [], fi_index = mem_new\<lparr>im_records := [(''l1'', sample_lease)]\<rparr>\<rparr>)
   = Inl AppendFailed"
proof -
  let ?env = "\<lparr>fe_enc = \<lambda>_. Some ''{}'', fe_io = \<lambda>_. WriteFails 0, fe_json = \<lambda>_. None\<rparr>"
  let ?fi = "\<lparr>fi_disk = [], fi_index = mem_new\<lparr>im_records := [(''l1'', sample_lease)]\<rparr>\<rparr>"
  have "hm_get (im_records (fi_index ?fi)) ''l1'' = Some sample_lease"
    "''l1'' \<notin> im_claims (fi_index ?fi)" "apply_transition sample_lease Held 1500 = Inr held_lease"
    "hm_get (im_reservations (fi_index ?fi)) ''l1'' = None"
    "fe_enc ?env (JRecord held_lease) = Some ''{}''" "fe_io ?env (JRecord held_lease) = WriteFails 0"
    by (simp_all add: mem_new_def apply_transition_def sample_lease_def held_lease_def Let_def)
  from transition_append_failure_diverges [OF this] show ?thesis by blast
qed


text \<open>A last line that lost only its newline breaks the next append. Opening such a journal
  replays the line and keeps it unterminated; a later put answers \<open>Ok\<close>, but its line is glued to the
  unterminated one, and the next open drops both, the acknowledged record included.\<close>

theorem glued_append_loses_commit:
  assumes "list_all (codec_line enc dec) ls" and "codec_line enc dec l" and "codec_line enc dec (JRecord rec)"
    and "enc l = Some t" and "enc (JRecord rec) = Some u" and "dec (t @ u) = None"
    and "hm_get (im_records (replay (ls @ [l]) mem_new)) (lr_lease_id rec) = None"
    and "fe_enc env = enc" and "fe_io env (JRecord rec) = Synced"
  shows "\<exists>fi fi'.
    file_open dec no_faults (Some (journal_bytes enc ls @ t)) = (Inr fi, Some (journal_bytes enc ls @ t)) \<and>
    fi_index fi = replay (ls @ [l]) mem_new \<and>
    file_put env rec fi = (Inr (), fi') \<and>
    file_open dec no_faults (Some (fi_disk fi')) =
      (Inr \<lparr>fi_disk = journal_bytes enc ls, fi_index = replay ls mem_new\<rparr>, Some (journal_bytes enc ls))"
proof -
  from assms(2,4) have t: "dec t = Some l" "newline \<notin> set t" "t \<noteq> []" "hd t = CHR ''{''" "utf8_valid t"
    by (auto simp: codec_line_def)
  from assms(3,5) have u: "newline \<notin> set u" "u \<noteq> []" "last u \<noteq> CHR 0x0D" "utf8_valid u"
    by (auto simp: codec_line_def)
  have "\<not> is_blank t" using t brace_not_blank by blast
  note 1 = open_tail [OF assms(1) t(2) this t(5)]
  let ?fi = "\<lparr>fi_disk = journal_bytes enc ls @ t, fi_index = replay (ls @ [l]) mem_new\<rparr>"
  let ?disk = "journal_bytes enc ls @ t @ u @ [newline]"
  have put: "file_put env rec ?fi = (Inr (), \<lparr>fi_disk = ?disk,
      fi_index = replay_line (JRecord rec) (replay (ls @ [l]) mem_new)\<rparr>)"
    using assms(5,7-9) by (simp add: file_put_def hm_contains_def append_record_eq append_line_def)
  have "\<not> is_blank (t @ u)" using t brace_not_blank [of "t @ u"] by simp
  moreover have "str_lines ((t @ u) @ [newline]) = [t @ u]"
    using str_lines_line [of "t @ u" "[]"] t u by simp
  ultimately have "replay_phys dec (phys_lines 0 0 (str_lines ?disk)) mem_new
      = Inr (replay ls mem_new, Some (length (journal_bytes enc ls)))"
    using replay_journal [OF assms(1), of 0 0 "t @ u @ [newline]" mem_new] assms(6) by simp
  moreover have "utf8_valid ?disk"
    using utf8_journal [OF assms(1)] t u by (simp add: utf8_valid_append)
  ultimately have "file_open dec no_faults (Some ?disk) =
      (Inr \<lparr>fi_disk = journal_bytes enc ls, fi_index = replay ls mem_new\<rparr>, Some (journal_bytes enc ls))"
    by (simp add: file_open_def set_len_def Let_def)
  with 1 t put show ?thesis by simp
qed

theorem glued_append_loses_commit_witness:
  "\<exists>fi fi'.
    file_open sample_dec no_faults (Some (journal_bytes sample_enc [] @ ''{1}'')) =
      (Inr fi, Some (journal_bytes sample_enc [] @ ''{1}'')) \<and>
    fi_index fi = replay ([] @ [JRecord sample_lease]) mem_new \<and>
    file_put sample_env second_lease fi = (Inr (), fi') \<and>
    file_open sample_dec no_faults (Some (fi_disk fi')) =
      (Inr \<lparr>fi_disk = journal_bytes sample_enc [], fi_index = replay [] mem_new\<rparr>,
       Some (journal_bytes sample_enc []))"
  by (rule glued_append_loses_commit [OF _ sample_codec(1,3), where u = "''{3}''"])
    (simp_all add: sample_enc_def sample_dec_def sample_env_def second_lease_def sample_lease_def mem_new_def)

text \<open>A journal torn inside a multi-byte character is not recovered. Whenever the torn tail is not
  valid UTF-8 the whole file is unreadable as text, so opening fails, although every committed line is
  intact.\<close>

theorem torn_inside_character_refused:
  assumes "list_all (codec_line enc dec) ls" and "\<not> utf8_valid p"
  shows "file_open dec refused (Some (journal_bytes enc ls @ p)) =
    (Inl CannotRead, Some (journal_bytes enc ls @ p))"
  using utf8_journal [OF assms(1)] assms(2) by (simp add: file_open_def utf8_valid_append Let_def)

theorem torn_inside_character_refused_witness:
  "fst (file_open sample_dec no_faults (Some (journal_bytes sample_enc [JRecord sample_lease]
     @ [CHR ''{'', CHR 0xC3]))) = Inl CannotRead"
proof -
  have ls: "list_all (codec_line sample_enc sample_dec) [JRecord sample_lease]" using sample_codec by simp
  have "\<not> utf8_valid [CHR ''{'', CHR 0xC3]" by simp
  from torn_inside_character_refused [OF ls this] show ?thesis by (simp only: fst_conv)
qed

end
