(* ===== verification/Lifecycle.thy ===== *)
theory Lifecycle
  imports File_Ledger
begin

text \<open>
  The lease lifecycle sweeps of \<open>corelink-fabric/src/lifecycle.rs\<close>: expiry of overdue leases and
  surfacing of crashed boxes, over any backend of the ledger. The locale \<open>lease_ledger\<close> is the contract
  the sweeps rely on; it is interpreted on the in-memory ledger and on the file ledger.
\<close>

section \<open>The sweeps\<close>

text \<open>The loop both sweeps share: transition every picked lease, stop at the first error.\<close>

fun sweep_loop ::
  "(string \<Rightarrow> runner_state \<Rightarrow> u64 \<Rightarrow> (ledger_error, lease_record, 's) op) \<Rightarrow> runner_state \<Rightarrow> u64
     \<Rightarrow> (lease_record \<Rightarrow> bool) \<Rightarrow> lease_record list \<Rightarrow> (ledger_error, lease_record list, 's) op" where
  "sweep_loop transition to now_ms pick [] s = (Inr [], s)"
| "sweep_loop transition to now_ms pick (rec # recs) s =
     (if pick rec
      then case transition (lr_lease_id rec) to now_ms s of
             (Inl e, s1) \<Rightarrow> (Inl e, s1)
           | (Inr updated, s1) \<Rightarrow>
               (case sweep_loop transition to now_ms pick recs s1 of
                  (Inl e, s2) \<Rightarrow> (Inl e, s2)
                | (Inr swept, s2) \<Rightarrow> (Inr (updated # swept), s2))
      else sweep_loop transition to now_ms pick recs s)"

definition expire_overdue ::
  "('s \<Rightarrow> ledger_error + lease_record list)
     \<Rightarrow> (string \<Rightarrow> runner_state \<Rightarrow> u64 \<Rightarrow> (ledger_error, lease_record, 's) op)
     \<Rightarrow> u64 \<Rightarrow> (lease_record \<Rightarrow> u64) \<Rightarrow> (ledger_error, lease_record list, 's) op" where
  "expire_overdue held transition now_ms deadline_ms_of s =
     (case held s of
        Inl e \<Rightarrow> (Inl e, s)
      | Inr recs \<Rightarrow>
          sweep_loop transition Expired now_ms (\<lambda>rec. now_ms \<ge> deadline_ms_of rec) recs s)"

definition surface_crashes ::
  "('s \<Rightarrow> ledger_error + lease_record list)
     \<Rightarrow> (string \<Rightarrow> runner_state \<Rightarrow> u64 \<Rightarrow> (ledger_error, lease_record, 's) op)
     \<Rightarrow> (string \<Rightarrow> bool) \<Rightarrow> u64 \<Rightarrow> (ledger_error, lease_record list, 's) op" where
  "surface_crashes held transition is_alive now_ms s =
     (case held s of
        Inl e \<Rightarrow> (Inl e, s)
      | Inr recs \<Rightarrow> sweep_loop transition Crashed now_ms (\<lambda>rec. \<not> is_alive (lr_box_ref rec)) recs s)"


section \<open>The contract of a ledger backend\<close>

text \<open>What a sweep should do to the recorded leases: apply the transition to the picked ones.\<close>

definition swept ::
  "runner_state \<Rightarrow> u64 \<Rightarrow> (lease_record \<Rightarrow> bool) \<Rightarrow> (string \<Rightarrow> lease_record option) \<Rightarrow> string
     \<Rightarrow> lease_record option" where
  "swept to now P v k =
     (case v k of
        None \<Rightarrow> None
      | Some r \<Rightarrow> (case apply_transition r to now of
                     Inr r' \<Rightarrow> Some (if P r then r' else r)
                   | Inl e \<Rightarrow> Some r))"

locale lease_ledger =
  fixes held :: "'s \<Rightarrow> ledger_error + lease_record list"
    and transition :: "string \<Rightarrow> runner_state \<Rightarrow> u64 \<Rightarrow> (ledger_error, lease_record, 's) op"
    and ready :: "'s \<Rightarrow> bool"
    and view :: "'s \<Rightarrow> string \<Rightarrow> lease_record option"
  assumes held_ids: "ready s \<Longrightarrow> held s = Inr rs \<Longrightarrow> distinct (map lr_lease_id rs)"
    and held_set: "ready s \<Longrightarrow>
      \<exists>rs. held s = Inr rs \<and> set rs = {r. \<exists>k. view s k = Some r \<and> lr_state r = Wire Held}"
    and view_id: "ready s \<Longrightarrow> view s k = Some r \<Longrightarrow> lr_lease_id r = k"
    and transition_held: "ready s \<Longrightarrow> view s k = Some r \<Longrightarrow> lr_state r = Wire Held \<Longrightarrow>
      apply_transition r to now = Inr r' \<Longrightarrow>
      \<exists>s'. transition k to now s = (Inr r', s') \<and> ready s' \<and> view s' = (view s)(k \<mapsto> r')"
begin

lemma sweep_loop_ok:
  assumes "ready s" and "distinct (map lr_lease_id rs)" and to: "to \<noteq> Held"
    and "\<And>r. r \<in> set rs \<Longrightarrow> view s (lr_lease_id r) = Some r \<and> lr_state r = Wire Held"
  shows "\<exists>out s'. sweep_loop transition to now pick rs s = (Inr out, s') \<and> ready s' \<and>
    list_all2 (\<lambda>r r'. apply_transition r to now = Inr r') (filter pick rs) out \<and>
    view s' = swept to now (\<lambda>r. r \<in> set rs \<and> pick r) (view s)"
  using assms(1,2,4)
proof (induction rs arbitrary: s)
  case Nil
  show ?case using Nil.prems(1)
    by (auto simp: swept_def fun_eq_iff split: option.splits sum.splits)
next
  case (Cons r rs)
  from Cons.prems(3) [of r] have r: "view s (lr_lease_id r) = Some r" "lr_state r = Wire Held" by simp_all
  have fresh: "lr_lease_id q \<noteq> lr_lease_id r" if "q \<in> set rs" for q
    using Cons.prems(2) that by (metis distinct.simps(2) image_eqI list.simps(9) list.set_map)
  show ?case
  proof (cases "pick r")
    case False
    then have "swept to now (\<lambda>q. q \<in> set (r # rs) \<and> pick q) (view s)
        = swept to now (\<lambda>q. q \<in> set rs \<and> pick q) (view s)"
      by (auto simp: swept_def fun_eq_iff split: option.splits sum.splits)
    moreover have "\<exists>out s'. sweep_loop transition to now pick rs s = (Inr out, s') \<and> ready s' \<and>
        list_all2 (\<lambda>r r'. apply_transition r to now = Inr r') (filter pick rs) out \<and>
        view s' = swept to now (\<lambda>r. r \<in> set rs \<and> pick r) (view s)"
      using Cons.prems(2) by (intro Cons.IH [OF Cons.prems(1)] Cons.prems(3)) simp_all
    ultimately show ?thesis using False by simp
  next
    case True
    from r(2) to obtain r' where r': "apply_transition r to now = Inr r'"
      by (cases to) (simp_all add: apply_transition_def Let_def)
    from transition_held [OF Cons.prems(1) r r'] obtain s1 where
      s1: "transition (lr_lease_id r) to now s = (Inr r', s1)" "ready s1"
        "view s1 = (view s)(lr_lease_id r \<mapsto> r')" by blast
    have held1: "view s1 (lr_lease_id q) = Some q \<and> lr_state q = Wire Held" if "q \<in> set rs" for q
      using Cons.prems(3) [of q] fresh [OF that] that s1(3) by simp
    have "distinct (map lr_lease_id rs)" using Cons.prems(2) by simp
    from Cons.IH [OF s1(2) this held1] obtain out s' where
      IH: "sweep_loop transition to now pick rs s1 = (Inr out, s')" "ready s'"
        "list_all2 (\<lambda>r r'. apply_transition r to now = Inr r') (filter pick rs) out"
        "view s' = swept to now (\<lambda>r. r \<in> set rs \<and> pick r) (view s1)"
      by blast
    have "swept to now (\<lambda>q. q \<in> set rs \<and> pick q) (view s1) k
        = swept to now (\<lambda>q. q \<in> set (r # rs) \<and> pick q) (view s) k" for k
    proof (cases "k = lr_lease_id r")
      case k: True
      have "r' \<notin> set rs" using fresh [of r'] r' by (auto simp: apply_transition_Inr_fields(1))
      with k True r r' s1(3) show ?thesis by (simp add: swept_def split: sum.splits)
    next
      case k: False
      have "q \<noteq> r" if "view s k = Some q" for q using view_id [OF Cons.prems(1) that] k by auto
      with k s1(3) show ?thesis by (simp add: swept_def split: option.splits sum.splits)
    qed
    then have "view s' = swept to now (\<lambda>q. q \<in> set (r # rs) \<and> pick q) (view s)"
      using IH(4) by (simp add: fun_eq_iff)
    with True IH s1(1) r' show ?thesis by simp
  qed
qed

lemma sweep_ok:
  assumes s: "ready s" and to: "to \<noteq> Held" and rs: "held s = Inr rs"
  shows "\<exists>out s'. sweep_loop transition to now pick rs s = (Inr out, s') \<and> ready s' \<and>
    list_all2 (\<lambda>r r'. apply_transition r to now = Inr r') (filter pick rs) out \<and>
    view s' = swept to now (\<lambda>r. lr_state r = Wire Held \<and> pick r) (view s)"
proof -
  from held_set [OF s] rs have set: "set rs = {r. \<exists>k. view s k = Some r \<and> lr_state r = Wire Held}" by simp
  have held: "view s (lr_lease_id r) = Some r \<and> lr_state r = Wire Held" if "r \<in> set rs" for r
  proof -
    from that set obtain k where "view s k = Some r" "lr_state r = Wire Held" by blast
    with view_id [OF s this(1)] show ?thesis by simp
  qed
  have "(r \<in> set rs \<and> pick r) = (lr_state r = Wire Held \<and> pick r)" if "view s k = Some r" for k r
    using set that by blast
  then have "swept to now (\<lambda>r. r \<in> set rs \<and> pick r) (view s)
      = swept to now (\<lambda>r. lr_state r = Wire Held \<and> pick r) (view s)"
    by (intro ext) (simp add: swept_def split: option.splits sum.splits)
  with sweep_loop_ok [OF s held_ids [OF s rs] to held, of now pick] show ?thesis by simp
qed

text \<open>After a sweep nothing is left to sweep: what it picked is no longer held.\<close>

lemma swept_none_left:
  assumes s': "ready s'" and to: "to \<noteq> Held"
    and view: "view s' = swept to now (\<lambda>r. lr_state r = Wire Held \<and> pick r) (view s)"
    and rs': "held s' = Inr rs'"
  shows "filter pick rs' = []"
proof -
  have "\<not> pick q" if q: "q \<in> set rs'" for q
  proof
    assume "pick q"
    from held_set [OF s'] rs' q obtain k where k: "view s' k = Some q" "lr_state q = Wire Held" by auto
    from k(1) view obtain r where r: "view s k = Some r" by (auto simp: swept_def split: option.splits)
    with k view \<open>pick q\<close> to show False
      by (cases "apply_transition r to now")
        (auto simp: swept_def apply_transition_Inr_fields dest!: apply_transition_Inl split: if_splits)
  qed
  then show ?thesis by (simp add: filter_empty_conv)
qed

lemma sweep_loop_skip: "filter pick rs = [] \<Longrightarrow> sweep_loop transition to now pick rs s = (Inr [], s)"
  by (induction rs) (simp_all split: if_splits)

lemma expire_overdue_ok:
  assumes s: "ready s"
  shows "\<exists>rs out s'. held s = Inr rs \<and>
    expire_overdue held transition now deadline s = (Inr out, s') \<and> ready s' \<and>
    list_all2 (\<lambda>r r'. apply_transition r Expired now = Inr r') (filter (\<lambda>r. deadline r \<le> now) rs) out \<and>
    view s' = swept Expired now (\<lambda>r. lr_state r = Wire Held \<and> deadline r \<le> now) (view s)"
proof -
  from held_set [OF s] obtain rs where rs: "held s = Inr rs" by blast
  with sweep_ok [OF s _ rs, of Expired now "\<lambda>r. deadline r \<le> now"] show ?thesis
    by (simp add: expire_overdue_def)
qed

lemma expire_overdue_idempotent:
  assumes s: "ready s" and run: "expire_overdue held transition now deadline s = (Inr out, s')"
  shows "expire_overdue held transition now deadline s' = (Inr [], s')"
proof -
  from expire_overdue_ok [OF s, of now deadline] run have s': "ready s'"
    and view: "view s' = swept Expired now (\<lambda>r. lr_state r = Wire Held \<and> deadline r \<le> now) (view s)"
    by auto
  from held_set [OF s'] obtain rs' where rs': "held s' = Inr rs'" by blast
  have "filter (\<lambda>r. deadline r \<le> now) rs' = []"
    by (rule swept_none_left [OF s' _ view rs']) simp
  then show ?thesis by (simp add: expire_overdue_def rs' sweep_loop_skip)
qed

lemma surface_crashes_ok:
  assumes s: "ready s"
  shows "\<exists>rs out s'. held s = Inr rs \<and>
    surface_crashes held transition is_alive now s = (Inr out, s') \<and> ready s' \<and>
    list_all2 (\<lambda>r r'. apply_transition r Crashed now = Inr r')
      (filter (\<lambda>r. \<not> is_alive (lr_box_ref r)) rs) out \<and>
    view s' = swept Crashed now (\<lambda>r. lr_state r = Wire Held \<and> \<not> is_alive (lr_box_ref r)) (view s)"
proof -
  from held_set [OF s] obtain rs where rs: "held s = Inr rs" by blast
  with sweep_ok [OF s _ rs, of Crashed now "\<lambda>r. \<not> is_alive (lr_box_ref r)"] show ?thesis
    by (simp add: surface_crashes_def)
qed

end


section \<open>The backends meet the contract\<close>

lemma mem_held_ids:
  assumes "mem_inv s"
  shows "distinct (map lr_lease_id (sort_key lr_lease_id
    (filter (\<lambda>r. is_held (lr_state r)) (hm_values (im_records s)))))"
proof -
  have "map lr_lease_id (hm_values (im_records s)) = map fst (im_records s)"
    unfolding hm_values_def map_map
    by (rule map_cong) (use mem_inv_key [OF assms] mem_invD(1) [OF assms] in auto)
  then have "distinct (map lr_lease_id (hm_values (im_records s)))" using mem_invD(1) [OF assms] by simp
  then show ?thesis by (simp add: distinct_map inj_on_def)
qed

lemma mem_held_set:
  assumes "mem_inv s"
  shows "set (filter (\<lambda>r. is_held (lr_state r)) (hm_values (im_records s)))
    = {r. \<exists>k. hm_get (im_records s) k = Some r \<and> lr_state r = Wire Held}"
  using mem_inv_value [OF assms] by (auto simp: is_held_def intro: hm_get_values)

lemma accrue_records: "im_records (snd (accrue_on_terminal lid t c to now s)) = im_records s"
  by (simp add: accrue_on_terminal_def Let_def split: option.splits)

lemma mem_transition_held:
  assumes inv: "mem_inv s" and r: "hm_get (im_records s) k = Some r" "lr_state r = Wire Held"
    and r': "apply_transition r to now = Inr r'"
  shows "\<exists>s'. mem_transition k to now s = (Inr r', s') \<and> mem_inv s' \<and>
    hm_get (im_records s') = (hm_get (im_records s))(k \<mapsto> r')"
proof -
  have free: "k \<notin> im_claims s" using mem_inv_claim [OF inv, of k] r by auto
  define s' where "s' = snd (accrue_on_terminal k (lr_tenant r) (lr_created_at_ms r) to now
      (s\<lparr>im_records := hm_insert k r' (im_records s)\<rparr>))"
  have tr: "mem_transition k to now s = (Inr r', s')"
    using free r r' by (simp add: mem_transition_def transition_capturing_def s'_def split: prod.splits)
  have "hm_get (im_records s') = (hm_get (im_records s))(k \<mapsto> r')"
    by (rule ext) (simp add: s'_def accrue_records)
  moreover have "mem_inv s'" using mem_call_inv [OF inv, of undefined "CTransition k to now"] tr by simp
  ultimately show ?thesis using tr by blast
qed

interpretation mem_lease: lease_ledger mem_held mem_transition mem_inv "\<lambda>s. hm_get (im_records s)"
proof (unfold_locales, goal_cases)
  case (1 s rs)
  then show ?case using mem_held_ids by (auto simp: mem_held_def)
next
  case (2 s)
  then show ?case using mem_held_set by (simp add: mem_held_def)
next
  case (3 s k r)
  then show ?case by (rule mem_inv_key)
next
  case (4 s k r to now r')
  then show ?case by (rule mem_transition_held)
qed

definition file_ready :: "file_env \<Rightarrow> file_inner \<Rightarrow> bool" where
  "file_ready env fi \<longleftrightarrow> mem_inv (fi_index fi) \<and> (\<forall>l. fe_io env l = Synced \<and> fe_enc env l \<noteq> None)"

interpretation file_lease: lease_ledger file_held "file_transition env" "file_ready env"
  "\<lambda>fi. hm_get (im_records (fi_index fi))" for env
proof (unfold_locales, goal_cases)
  case (1 fi rs)
  then show ?case using mem_lease.held_ids [of "fi_index fi" rs] by (simp add: file_held_def file_ready_def)
next
  case (2 fi)
  then show ?case using mem_lease.held_set [of "fi_index fi"] by (simp add: file_held_def file_ready_def)
next
  case (3 fi k r)
  then show ?case using mem_lease.view_id [of "fi_index fi" k r] by (simp add: file_ready_def)
next
  case (4 fi k r to now r')
  then have "healthy env (call_lines (fe_json env) (CTransition k to now) (fi_index fi))"
    by (simp add: file_ready_def healthy_def)
  from file_transition_healthy [OF this] 4 mem_transition_held [of "fi_index fi" k r to now r']
  show ?case by (auto simp: file_ready_def)
qed


section \<open>Properties of the sweeps\<close>

text \<open>The expiry sweep is complete, exact and idempotent. On every reachable state of the in-memory
  ledger it succeeds, moves to Expired exactly the Held leases whose deadline has passed and touches no
  other, returns the records the ledger now holds in id order, and a second sweep at the same instant
  finds nothing.\<close>

theorem expire_overdue_exact:
  fixes js :: json_parser and cs :: "ledger_call list"
  defines "s \<equiv> mem_run js cs mem_new"
  shows "\<exists>rs out s'. mem_held s = Inr rs \<and>
    expire_overdue mem_held mem_transition now deadline s = (Inr out, s') \<and>
    list_all2 (\<lambda>r r'. apply_transition r Expired now = Inr r') (filter (\<lambda>r. deadline r \<le> now) rs) out \<and>
    hm_get (im_records s')
      = swept Expired now (\<lambda>r. lr_state r = Wire Held \<and> deadline r \<le> now) (hm_get (im_records s)) \<and>
    expire_overdue mem_held mem_transition now deadline s' = (Inr [], s')"
proof -
  have inv: "mem_inv s" unfolding s_def by (rule mem_run_inv [OF mem_inv_new])
  from mem_lease.expire_overdue_ok [OF inv, of now deadline] mem_lease.expire_overdue_idempotent [OF inv]
  show ?thesis by blast
qed

text \<open>C20: a crash is surfaced and never passed off as a release. On a file ledger whose disk is healthy
  the crash sweep succeeds and moves to Crashed exactly the Held leases whose box is dead, leaving every
  other lease as it is.\<close>

theorem surface_crashes_exact:
  assumes "mem_inv (fi_index fi)" and "\<And>l. fe_io env l = Synced \<and> fe_enc env l \<noteq> None"
  shows "\<exists>out fi'. surface_crashes file_held (file_transition env) is_alive now fi = (Inr out, fi') \<and>
    list_all (\<lambda>r. lr_state r = Wire Crashed \<and> hm_get (im_records (fi_index fi')) (lr_lease_id r) = Some r) out \<and>
    hm_get (im_records (fi_index fi')) = swept Crashed now
      (\<lambda>r. lr_state r = Wire Held \<and> \<not> is_alive (lr_box_ref r)) (hm_get (im_records (fi_index fi)))"
proof -
  have ready: "file_ready env fi" using assms by (simp add: file_ready_def)
  from file_lease.surface_crashes_ok [OF ready, of is_alive now] obtain rs out fi' where
    rs: "file_held fi = Inr rs" and run: "surface_crashes file_held (file_transition env) is_alive now fi = (Inr out, fi')"
    and out: "list_all2 (\<lambda>r r'. apply_transition r Crashed now = Inr r')
      (filter (\<lambda>r. \<not> is_alive (lr_box_ref r)) rs) out"
    and view: "hm_get (im_records (fi_index fi')) = swept Crashed now
      (\<lambda>r. lr_state r = Wire Held \<and> \<not> is_alive (lr_box_ref r)) (hm_get (im_records (fi_index fi)))"
    by blast
  have "lr_state r' = Wire Crashed \<and> hm_get (im_records (fi_index fi')) (lr_lease_id r') = Some r'"
    if r': "r' \<in> set out" for r'
  proof -
    let ?rs = "filter (\<lambda>r. \<not> is_alive (lr_box_ref r)) rs"
    from r' obtain i where i: "i < length out" "out ! i = r'" by (auto simp: in_set_conv_nth)
    with out have "i < length ?rs" "apply_transition (?rs ! i) Crashed now = Inr r'"
      by (auto dest: list_all2_lengthD list_all2_nthD2)
    with nth_mem [of i ?rs] obtain r where r: "r \<in> set rs" "\<not> is_alive (lr_box_ref r)"
      "apply_transition r Crashed now = Inr r'" by auto
    from file_lease.held_set [OF ready] rs r(1) obtain k where
      k: "hm_get (im_records (fi_index fi)) k = Some r" "lr_state r = Wire Held" by auto
    from file_lease.view_id [OF ready k(1)] have "lr_lease_id r' = k"
      using r(3) by (simp add: apply_transition_Inr_fields(1))
    with view k r show ?thesis by (simp add: swept_def apply_transition_Inr_fields(6))
  qed
  with run view show ?thesis by (auto simp: list_all_iff)
qed

theorem surface_crashes_exact_witness:
  "\<exists>out fi'. surface_crashes file_held
      (file_transition \<lparr>fe_enc = \<lambda>_. Some ''{}'', fe_io = \<lambda>_. Synced, fe_json = \<lambda>_. None\<rparr>)
      (\<lambda>_. False) 2000 \<lparr>fi_disk = [], fi_index = mem_run (\<lambda>_. None) [CPut held_lease] mem_new\<rparr>
    = (Inr out, fi') \<and>
    hm_get (im_records (fi_index fi')) ''l1'' =
      Some (held_lease\<lparr>lr_state := Wire Crashed, lr_updated_at_ms := 2000\<rparr>)"
proof -
  let ?env = "\<lparr>fe_enc = \<lambda>_. Some ''{}'', fe_io = \<lambda>_. Synced, fe_json = \<lambda>_. None\<rparr>"
  let ?fi = "\<lparr>fi_disk = [], fi_index = mem_run (\<lambda>_. None) [CPut held_lease] mem_new\<rparr>"
  have inv: "mem_inv (fi_index ?fi)" unfolding file_inner.simps by (rule mem_run_inv [OF mem_inv_new])
  have env: "fe_io ?env l = Synced \<and> fe_enc ?env l \<noteq> None" for l by simp
  have rec: "hm_get (im_records (fi_index ?fi)) ''l1'' = Some held_lease"
    by (simp add: mem_new_def mem_put_def hm_contains_def held_lease_def sample_lease_def)
  from surface_crashes_exact [OF inv env, of "\<lambda>_. False" 2000] rec show ?thesis
    by (auto simp: swept_def apply_transition_def held_lease_def sample_lease_def)
qed

end
