(* ===== verification/Caps.thy ===== *)
theory Caps
  imports Lifecycle
begin

text \<open>
  The preventive admission gate of \<open>corelink-fabric/src/caps.rs\<close> (concurrency cap and sliding
  60-second rate window) and the grace-to-expiry rule of \<open>downgrade_grace.rs\<close>.
\<close>

section \<open>The rate window\<close>

record rate_window =
  rw_stamps :: "u64 list"

definition rate_window_new :: rate_window where
  "rate_window_new = \<lparr>rw_stamps = []\<rparr>"

definition rate_push :: "u64 \<Rightarrow> rate_window \<Rightarrow> rate_window" where
  "rate_push now_ms w =
     w\<lparr>rw_stamps := filter (\<lambda>t. sat_sub now_ms t < 60000) (rw_stamps w) @ [now_ms]\<rparr>"

definition count_within_60s :: "rate_window \<Rightarrow> u64 \<Rightarrow> nat" where
  "count_within_60s w now_ms = length (filter (\<lambda>t. sat_sub now_ms t < 60000) (rw_stamps w))"

definition is_idle_at :: "rate_window \<Rightarrow> u64 \<Rightarrow> bool" where
  "is_idle_at w now_ms \<longleftrightarrow> count_within_60s w now_ms = 0"

definition rate_pushes :: "u64 list \<Rightarrow> rate_window \<Rightarrow> rate_window" where
  "rate_pushes ts w = fold rate_push ts w"


section \<open>The cap gate\<close>

datatype cap_decision = CapAdmit | RejectOverCap | RejectRateCeiling

definition cap_check ::
  "('s \<Rightarrow> tenant_id \<Rightarrow> ledger_error + lease_record list) \<Rightarrow> 's \<Rightarrow> tenant_plan \<Rightarrow> u64 \<Rightarrow> rate_window
     \<Rightarrow> cap_decision" where
  "cap_check by_tenant s plan now_ms recent_acquires =
     (case by_tenant s (tp_tenant plan) of
        Inl e \<Rightarrow> RejectOverCap
      | Inr records \<Rightarrow>
          let active = length (filter (\<lambda>r. lr_state r = Pending \<or> is_held (lr_state r)) records) in
          if active \<ge> unat (tp_max_concurrency plan) then RejectOverCap
          else if count_within_60s recent_acquires now_ms \<ge> unat (tp_rate_ceiling_per_min plan)
               then RejectRateCeiling
          else CapAdmit)"


section \<open>Grace to expiry\<close>

datatype grace_decision = GraceAdmit | OverCapGrace u32 u32

fun is_admit :: "grace_decision \<Rightarrow> bool" where
  "is_admit GraceAdmit = True"
| "is_admit (OverCapGrace held cap) = False"

fun is_over_cap_grace :: "grace_decision \<Rightarrow> bool" where
  "is_over_cap_grace GraceAdmit = False"
| "is_over_cap_grace (OverCapGrace held cap) = True"

fun grace_message :: "grace_decision \<Rightarrow> string option" where
  "grace_message GraceAdmit = None"
| "grace_message (OverCapGrace held cap) =
     Some (''over cap (downgrade in effect): held '' @ show_nat (unat held) @ '' > cap ''
       @ show_nat (unat cap) @ '', retry as leases expire'')"

definition evaluate_downgrade_admit :: "u32 \<Rightarrow> u32 \<Rightarrow> grace_decision" where
  "evaluate_downgrade_admit held new_cap =
     (if held < new_cap then GraceAdmit else OverCapGrace held new_cap)"

definition is_downgrade :: "u32 \<Rightarrow> u32 \<Rightarrow> bool" where
  "is_downgrade old_cap new_cap \<longleftrightarrow> new_cap < old_cap"


section \<open>Pruning never changes the count\<close>

text \<open>With a clock that does not go back, what a push prunes could not have counted later.\<close>

lemma sat_sub_mono_time: "t \<le> now \<Longrightarrow> sat_sub t x < 60000 \<or> \<not> sat_sub now x < 60000" for t now x :: u64
  using sat_sub_mono [of t now x] by auto

lemma count_after_push:
  fixes t now :: u64
  assumes "t \<le> now"
  shows "length (filter (\<lambda>x. sat_sub now x < 60000) (filter (\<lambda>x. sat_sub t x < 60000) xs @ [t]))
    = length (filter (\<lambda>x. sat_sub now x < 60000) (xs @ [t]))"
proof -
  have "filter (\<lambda>x. sat_sub now x < 60000) (filter (\<lambda>x. sat_sub t x < 60000) xs)
      = filter (\<lambda>x. sat_sub now x < 60000) xs"
    unfolding filter_filter by (rule filter_cong) (use sat_sub_mono_time [OF assms] in auto)
  then show ?thesis by simp
qed

lemma count_rate_pushes:
  assumes "sorted (ts @ [now])"
  shows "count_within_60s (rate_pushes ts w) now
    = length (filter (\<lambda>t. sat_sub now t < 60000) (rw_stamps w @ ts))"
  using assms
proof (induction ts arbitrary: w)
  case Nil
  then show ?case by (simp add: rate_pushes_def count_within_60s_def)
next
  case (Cons t ts)
  have "t \<le> now" using Cons.prems by simp
  have "count_within_60s (rate_pushes (t # ts) w) now
      = length (filter (\<lambda>x. sat_sub now x < 60000) (rw_stamps (rate_push t w) @ ts))"
    using Cons by (simp add: rate_pushes_def)
  with count_after_push [OF \<open>t \<le> now\<close>, of "rw_stamps w"] show ?case by (simp add: rate_push_def)
qed

lemma active_of_by_tenant:
  "length (filter (\<lambda>r. lr_state r = Pending \<or> is_held (lr_state r))
     (sort_key lr_lease_id (filter (\<lambda>r. lr_tenant r = t) (hm_values (im_records s))))) = active_count s t"
proof -
  let ?P = "\<lambda>r. lr_state r = Pending \<or> is_held (lr_state r)"
  have "length (filter ?P (sort_key lr_lease_id xs)) = length (filter ?P xs)" for xs :: "lease_record list"
    unfolding size_mset [symmetric] mset_filter mset_sort ..
  then show ?thesis by (simp add: active_count_def is_active_for_def [abs_def])
qed


section \<open>Properties of the gate\<close>

text \<open>The cap gate and the ledger's own admission agree. For a tenant with fewer than \<open>2 ^ 32\<close>
  active leases and a new lease id, the gate refuses for the cap exactly when the ledger's count-and-put
  would answer no under the same plan, so an admitted attempt is only ever lost to a race.\<close>

theorem cap_gate_agrees_with_ledger:
  assumes "active_count s (tp_tenant plan) < 2 ^ 32" and "lr_tenant rec = tp_tenant plan"
    and "hm_get (im_records s) (lr_lease_id rec) = None"
  shows "fst (mem_try_admit rec (tp_max_concurrency plan) s) =
      Inr (cap_check mem_by_tenant s plan now w \<noteq> RejectOverCap) \<and>
    (cap_check mem_by_tenant s plan now w = CapAdmit \<longleftrightarrow>
      active_count s (tp_tenant plan) < unat (tp_max_concurrency plan) \<and>
      count_within_60s w now < unat (tp_rate_ceiling_per_min plan))"
proof -
  have "unat (of_nat (active_count s (tp_tenant plan)) :: u32) = active_count s (tp_tenant plan)"
    using assms(1) by (rule unat_of_nat_u32)
  with assms(2,3) show ?thesis
    by (auto simp: mem_try_admit_def mem_put_def hm_contains_def Let_def cap_check_def mem_by_tenant_def
        active_of_by_tenant word_nat simp flip: active_count_def)
qed

theorem cap_gate_agrees_with_ledger_witness:
  "fst (mem_try_admit sample_lease 0 mem_new) = Inr False"
proof -
  let ?plan = "\<lparr>tp_tenant = TenantId ''acme'', tp_max_concurrency = 0, tp_rate_ceiling_per_min = 10,
     tp_repo_allowlist = []\<rparr>"
  have "active_count mem_new (tp_tenant ?plan) < 2 ^ 32" "lr_tenant sample_lease = tp_tenant ?plan"
    "hm_get (im_records mem_new) (lr_lease_id sample_lease) = None"
    by (simp_all add: active_count_def mem_new_def hm_values_def sample_lease_def)
  from cap_gate_agrees_with_ledger [OF this, of 0 rate_window_new] show ?thesis
    by (simp add: cap_check_def mem_by_tenant_def)
qed

text \<open>The pruned rate window counts like the full history. After any sequence of attempts at
  non-decreasing times, the window's count at a later instant is the number of all attempts made less
  than 60 seconds before it.\<close>

theorem rate_window_counts_history:
  assumes "sorted (ts @ [now])"
  shows "count_within_60s (rate_pushes ts rate_window_new) now
    = length (filter (\<lambda>t. unat now - unat t < 60000) ts)"
  using count_rate_pushes [OF assms, of rate_window_new] by (simp add: rate_window_new_def word_nat)

theorem rate_window_counts_history_witness:
  "count_within_60s (rate_pushes [1000, 61000, 61500] rate_window_new) 62000 = 2"
proof -
  have "sorted ([1000, 61000, 61500] @ [62000 :: u64])" by simp
  from rate_window_counts_history [OF this] show ?thesis by simp
qed

text \<open>A downgrade never admits over the new cap and heals itself. The grace rule admits a new
  acquire exactly when the ledger's own admission under the new cap would, and otherwise names the two
  numbers it compared.\<close>

theorem downgrade_grace_agrees:
  assumes "active_count s (lr_tenant rec) < 2 ^ 32" and "hm_get (im_records s) (lr_lease_id rec) = None"
  defines "held \<equiv> of_nat (active_count s (lr_tenant rec)) :: u32"
  shows "fst (mem_try_admit rec new_cap s) = Inr (is_admit (evaluate_downgrade_admit held new_cap)) \<and>
    (\<not> is_admit (evaluate_downgrade_admit held new_cap) \<longrightarrow>
      unat new_cap \<le> active_count s (lr_tenant rec) \<and>
      grace_message (evaluate_downgrade_admit held new_cap) =
        Some (''over cap (downgrade in effect): held '' @ show_nat (active_count s (lr_tenant rec))
          @ '' > cap '' @ show_nat (unat new_cap) @ '', retry as leases expire''))"
proof -
  have "unat held = active_count s (lr_tenant rec)" unfolding held_def using assms(1) by (rule unat_of_nat_u32)
  with assms(2) show ?thesis
    by (auto simp: evaluate_downgrade_admit_def mem_try_admit_def mem_put_def hm_contains_def Let_def
        word_nat held_def simp flip: active_count_def)
qed

theorem downgrade_grace_agrees_witness:
  "grace_message (evaluate_downgrade_admit 0 0) =
     Some (''over cap (downgrade in effect): held 0 > cap 0, retry as leases expire'')"
proof -
  have a: "active_count mem_new (lr_tenant sample_lease) = 0"
    by (simp add: active_count_def mem_new_def hm_values_def)
  have b: "active_count mem_new (lr_tenant sample_lease) < 2 ^ 32"
    "hm_get (im_records mem_new) (lr_lease_id sample_lease) = None"
    using a by (simp_all add: mem_new_def)
  have "show_nat 0 = ''0''" by code_simp
  with downgrade_grace_agrees [OF b, of 0] a show ?thesis
    by (simp add: evaluate_downgrade_admit_def)
qed

end
