(* ===== verification/Scheduler.thy ===== *)
theory Scheduler
  imports Tenant
begin

text \<open>
  The fair dispatcher of \<open>corelink-fabric/src/scheduler.rs\<close>: bounded per-tenant queues and a
  deficit-round-robin tick. A \<open>BTreeMap\<close> is an association list whose iteration sorts the keys. The
  two closures of \<open>tick\<close> share an environment of arbitrary type that \<open>dispatch\<close> may change and
  \<open>cap_check\<close> may read, so that a cap that fills in the middle of a tick is part of the model.
\<close>

section \<open>Queues\<close>

definition WAIT_RING_CAPACITY :: nat where
  "WAIT_RING_CAPACITY = 1024"

definition MAX_TENANT_QUEUE_DEPTH :: nat where
  "MAX_TENANT_QUEUE_DEPTH = 4096"

record work_item =
  wi_id :: string
  wi_tenant :: tenant_id
  wi_enqueued_at_ms :: u64

type_synonym tenant_queues = "(tenant_id, work_item list) hmap"

definition queue_of :: "tenant_queues \<Rightarrow> tenant_id \<Rightarrow> work_item list" where
  "queue_of qs t = (case hm_get qs t of Some q \<Rightarrow> q | None \<Rightarrow> [])"

definition try_enqueue :: "work_item \<Rightarrow> tenant_queues \<Rightarrow> (work_item + unit) \<times> tenant_queues" where
  "try_enqueue item qs =
     (let queue = queue_of qs (wi_tenant item);
          qs1 = (if hm_contains (wi_tenant item) qs then qs else hm_insert (wi_tenant item) [] qs)
      in if length queue \<ge> MAX_TENANT_QUEUE_DEPTH
         then (Inl item, if queue = [] then hm_remove (wi_tenant item) qs1 else qs1)
         else (Inr (), hm_insert (wi_tenant item) (queue @ [item]) qs1))"

definition queue_pending :: "tenant_queues \<Rightarrow> tenant_id \<Rightarrow> nat" where
  "queue_pending qs t = (case hm_get qs t of Some q \<Rightarrow> length q | None \<Rightarrow> 0)"

definition queue_total_pending :: "tenant_queues \<Rightarrow> nat" where
  "queue_total_pending qs = sum_list (map length (hm_values qs))"

definition tenants_with_work :: "tenant_queues \<Rightarrow> tenant_id list" where
  "tenants_with_work qs = sort (map fst (filter (\<lambda>(t, q). q \<noteq> []) qs))"

definition queue_front :: "tenant_queues \<Rightarrow> tenant_id \<Rightarrow> work_item option" where
  "queue_front qs t = (case hm_get qs t of Some (i # is) \<Rightarrow> Some i | _ \<Rightarrow> None)"

definition queue_pop_front :: "tenant_id \<Rightarrow> tenant_queues \<Rightarrow> work_item option \<times> tenant_queues" where
  "queue_pop_front t qs =
     (case hm_get qs t of
        None \<Rightarrow> (None, qs)
      | Some [] \<Rightarrow> (None, hm_remove t qs)
      | Some (i # is) \<Rightarrow> (Some i, if is = [] then hm_remove t qs else hm_insert t is qs))"


section \<open>The scheduler\<close>

record tick_report =
  tr_dispatched :: "string list"
  tr_skipped_over_cap :: u32
  tr_waits_ms :: "(tenant_id \<times> u64) list"

record fair_scheduler =
  fs_global_slots :: u32
  fs_queues :: tenant_queues
  fs_cursor :: "tenant_id option"
  fs_owed_skip :: "tenant_id set"
  fs_waits :: "(tenant_id, u64 list) hmap"

definition scheduler_new :: "u32 \<Rightarrow> fair_scheduler" where
  "scheduler_new global_slots = \<lparr>fs_global_slots = global_slots, fs_queues = [], fs_cursor = None,
     fs_owed_skip = {}, fs_waits = []\<rparr>"

definition enqueue :: "work_item \<Rightarrow> fair_scheduler \<Rightarrow> (work_item + unit) \<times> fair_scheduler" where
  "enqueue item fs = (case try_enqueue item (fs_queues fs) of (r, qs) \<Rightarrow> (r, fs\<lparr>fs_queues := qs\<rparr>))"

definition sched_pending :: "fair_scheduler \<Rightarrow> tenant_id \<Rightarrow> nat" where
  "sched_pending fs t = queue_pending (fs_queues fs) t"

definition sched_total_pending :: "fair_scheduler \<Rightarrow> nat" where
  "sched_total_pending fs = queue_total_pending (fs_queues fs)"

text \<open>\<open>position(|t| t > cursor)\<close> on the sorted remainder, 0 when no tenant comes after the cursor.\<close>

fun position_after :: "tenant_id \<Rightarrow> tenant_id list \<Rightarrow> nat option" where
  "position_after c [] = None"
| "position_after c (t # ts) = (if t > c then Some 0 else map_option Suc (position_after c ts))"

definition rotation_order :: "fair_scheduler \<Rightarrow> tenant_id set \<Rightarrow> tenant_id list" where
  "rotation_order fs parked =
     (let eligible = filter (\<lambda>t. t \<notin> parked) (tenants_with_work (fs_queues fs));
          order = filter (\<lambda>t. t \<in> fs_owed_skip fs) eligible;
          rest = filter (\<lambda>t. t \<notin> fs_owed_skip fs) eligible;
          rotated = (case fs_cursor fs of
                       Some cursor \<Rightarrow>
                         rotate (case position_after cursor rest of Some n \<Rightarrow> n | None \<Rightarrow> 0) rest
                     | None \<Rightarrow> rest)
      in order @ rotated)"

text \<open>The locals of \<open>tick\<close> beside the scheduler: report, remaining budget, parked tenants, the
  progress flag of the pass, and the environment of the closures.\<close>

record 'd tick_state =
  ts_sched :: fair_scheduler
  ts_report :: tick_report
  ts_remaining :: u32
  ts_parked :: "tenant_id set"
  ts_progressed :: bool
  ts_env :: 'd

definition tick_skip :: "tenant_id \<Rightarrow> 'd tick_state \<Rightarrow> 'd tick_state" where
  "tick_skip t st =
     st\<lparr>ts_report := (ts_report st)\<lparr>tr_skipped_over_cap := tr_skipped_over_cap (ts_report st) + 1\<rparr>,
       ts_sched := (ts_sched st)\<lparr>fs_owed_skip := insert t (fs_owed_skip (ts_sched st))\<rparr>,
       ts_parked := insert t (ts_parked st)\<rparr>"

definition tick_take :: "u64 \<Rightarrow> tenant_id \<Rightarrow> work_item \<Rightarrow> 'd \<Rightarrow> 'd tick_state \<Rightarrow> 'd tick_state" where
  "tick_take now_ms t item env st =
     (let fs = ts_sched st;
          wait = sat_sub now_ms (wi_enqueued_at_ms item);
          rep = ts_report st
      in st\<lparr>ts_sched := fs\<lparr>fs_queues := snd (queue_pop_front t (fs_queues fs)),
                          fs_owed_skip := fs_owed_skip fs - {t},
                          fs_cursor := Some t\<rparr>,
            ts_report := rep\<lparr>tr_dispatched := tr_dispatched rep @ [wi_id item],
                           tr_waits_ms := tr_waits_ms rep @ [(t, wait)]\<rparr>,
            ts_remaining := ts_remaining st - 1,
            ts_progressed := True,
            ts_env := env\<rparr>)"

fun tick_pass ::
  "('d \<Rightarrow> tenant_id \<Rightarrow> bool) \<Rightarrow> ('d \<Rightarrow> work_item \<Rightarrow> bool \<times> 'd) \<Rightarrow> u64 \<Rightarrow> tenant_id list
     \<Rightarrow> 'd tick_state \<Rightarrow> 'd tick_state" where
  "tick_pass cap_check dispatch now_ms [] st = st"
| "tick_pass cap_check dispatch now_ms (t # ts) st =
     (if ts_remaining st = 0 then st
      else if t \<in> ts_parked st then tick_pass cap_check dispatch now_ms ts st
      else if \<not> cap_check (ts_env st) t
           then tick_pass cap_check dispatch now_ms ts (tick_skip t st)
      else case queue_front (fs_queues (ts_sched st)) t of
             None \<Rightarrow> tick_pass cap_check dispatch now_ms ts st
           | Some item \<Rightarrow>
               (case dispatch (ts_env st) item of
                  (True, env) \<Rightarrow> tick_pass cap_check dispatch now_ms ts (tick_take now_ms t item env st)
                | (False, env) \<Rightarrow> tick_pass cap_check dispatch now_ms ts
                    (st\<lparr>ts_parked := insert t (ts_parked st), ts_env := env\<rparr>)))"

text \<open>The rule for invariants of a pass: what a skip, a dispatch and a refusal keep, the pass keeps.\<close>

lemma tick_pass_invariant:
  assumes skip: "\<And>st t. P st \<Longrightarrow> ts_remaining st \<noteq> 0 \<Longrightarrow> t \<notin> ts_parked st \<Longrightarrow> \<not> cap (ts_env st) t \<Longrightarrow>
      P (tick_skip t st)"
    and take: "\<And>st t item env. P st \<Longrightarrow> ts_remaining st \<noteq> 0 \<Longrightarrow> t \<notin> ts_parked st \<Longrightarrow>
      queue_front (fs_queues (ts_sched st)) t = Some item \<Longrightarrow> disp (ts_env st) item = (True, env) \<Longrightarrow>
      P (tick_take now t item env st)"
    and park: "\<And>st t env. P st \<Longrightarrow> t \<notin> ts_parked st \<Longrightarrow>
      P (st\<lparr>ts_parked := insert t (ts_parked st), ts_env := env\<rparr>)"
    and "P st"
  shows "P (tick_pass cap disp now ts st)"
  using assms(4)
proof (induction ts arbitrary: st)
  case (Cons t ts)
  show ?case
  proof (cases "ts_remaining st = 0 \<or> t \<in> ts_parked st \<or> \<not> cap (ts_env st) t \<or>
      queue_front (fs_queues (ts_sched st)) t = None")
    case True
    then show ?thesis using Cons skip [of st t] by auto
  next
    case False
    then obtain item where item: "queue_front (fs_queues (ts_sched st)) t = Some item" by auto
    obtain b env where d: "disp (ts_env st) item = (b, env)" by (cases "disp (ts_env st) item")
    show ?thesis
      using False item d Cons.IH take [OF Cons.prems _ _ item, of env] park [OF Cons.prems, of t env]
      by (cases b) simp_all
  qed
qed simp

lemma tick_pass_remaining:
  defines "bounded n st \<equiv> unat (ts_remaining st) \<le> n \<and> (ts_progressed st \<longrightarrow> unat (ts_remaining st) < n)"
  assumes "\<not> ts_progressed st"
  shows "bounded (unat (ts_remaining st)) (tick_pass cap disp now ts st)"
proof (rule tick_pass_invariant [where P = "bounded (unat (ts_remaining st))"])
  fix st' t item env
  assume "bounded (unat (ts_remaining st)) st'" and "ts_remaining st' \<noteq> 0"
  moreover from this(2) have "unat (ts_remaining st' - 1) < unat (ts_remaining st')"
    by (metis measure_unat)
  ultimately show "bounded (unat (ts_remaining st)) (tick_take now t item env st')"
    by (simp add: bounded_def tick_take_def Let_def)
qed (use assms(2) in \<open>simp_all add: bounded_def tick_skip_def\<close>)

function tick_loop ::
  "('d \<Rightarrow> tenant_id \<Rightarrow> bool) \<Rightarrow> ('d \<Rightarrow> work_item \<Rightarrow> bool \<times> 'd) \<Rightarrow> u64 \<Rightarrow> 'd tick_state \<Rightarrow> 'd tick_state"
where
  "tick_loop cap_check dispatch now_ms st =
     (if ts_remaining st = 0 then st
      else let order = rotation_order (ts_sched st) (ts_parked st) in
           if order = [] then st
           else let st1 = tick_pass cap_check dispatch now_ms order (st\<lparr>ts_progressed := False\<rparr>) in
                if \<not> ts_progressed st1 then st1 else tick_loop cap_check dispatch now_ms st1)"
  by pat_completeness auto

termination tick_loop
proof (relation "measure (\<lambda>(cap, disp, now, st). unat (ts_remaining st))")
  fix cap :: "'d \<Rightarrow> tenant_id \<Rightarrow> bool" and disp now and st st1 :: "'d tick_state" and order
  assume "st1 = tick_pass cap disp now order (st\<lparr>ts_progressed := False\<rparr>)" "\<not> \<not> ts_progressed st1"
  then show "((cap, disp, now, st1), (cap, disp, now, st))
      \<in> measure (\<lambda>(cap, disp, now, st). unat (ts_remaining st))"
    using tick_pass_remaining [of "st\<lparr>ts_progressed := False\<rparr>" cap disp now order] by simp
qed simp

declare tick_loop.simps [simp del]

definition tick ::
  "('d \<Rightarrow> tenant_id \<Rightarrow> bool) \<Rightarrow> ('d \<Rightarrow> work_item \<Rightarrow> bool \<times> 'd) \<Rightarrow> u64 \<Rightarrow> 'd \<Rightarrow> fair_scheduler
     \<Rightarrow> tick_report \<times> fair_scheduler \<times> 'd" where
  "tick cap_check dispatch now_ms env fs =
     (let st = tick_loop cap_check dispatch now_ms
            \<lparr>ts_sched = fs,
             ts_report = \<lparr>tr_dispatched = [], tr_skipped_over_cap = 0, tr_waits_ms = []\<rparr>,
             ts_remaining = fs_global_slots fs, ts_parked = {}, ts_progressed = False, ts_env = env\<rparr>;
          fs1 = ts_sched st
      in (ts_report st,
          fs1\<lparr>fs_owed_skip := Set.filter (\<lambda>t. queue_pending (fs_queues fs1) t > 0) (fs_owed_skip fs1)\<rparr>,
          ts_env st))"


section \<open>Waits\<close>

text \<open>\<open>div_ceil\<close> of the standard library.\<close>

definition div_ceil :: "nat \<Rightarrow> nat \<Rightarrow> nat" where
  "div_ceil a b = (a + b - 1) div b"

definition p95_wait_ms :: "fair_scheduler \<Rightarrow> tenant_id \<Rightarrow> u64 option" where
  "p95_wait_ms fs t =
     (case hm_get (fs_waits fs) t of
        None \<Rightarrow> None
      | Some ring \<Rightarrow>
          if ring = [] then None
          else let sorted_ring = sort ring;
                   rank = max (div_ceil (length sorted_ring * 95) 100) 1
               in Some (sorted_ring ! (rank - 1)))"

definition record_dispatch_wait :: "tenant_id \<Rightarrow> u64 \<Rightarrow> fair_scheduler \<Rightarrow> fair_scheduler" where
  "record_dispatch_wait t wait_ms fs =
     fs\<lparr>fs_waits := hm_insert t
          (ring_push WAIT_RING_CAPACITY wait_ms
            (case hm_get (fs_waits fs) t of Some ring \<Rightarrow> ring | None \<Rightarrow> [])) (fs_waits fs)\<rparr>"


section \<open>Well-formed queues\<close>

definition queues_wf :: "tenant_queues \<Rightarrow> bool" where
  "queues_wf qs \<longleftrightarrow> hm_wf qs \<and>
     (\<forall>t q. hm_get qs t = Some q \<longrightarrow> q \<noteq> [] \<and> length q \<le> MAX_TENANT_QUEUE_DEPTH \<and>
        (\<forall>i\<in>set q. wi_tenant i = t))"

lemma queues_wfI:
  assumes "hm_wf qs" and "\<And>t q. hm_get qs t = Some q \<Longrightarrow> q \<noteq> []"
    "\<And>t q. hm_get qs t = Some q \<Longrightarrow> length q \<le> MAX_TENANT_QUEUE_DEPTH"
    "\<And>t q i. hm_get qs t = Some q \<Longrightarrow> i \<in> set q \<Longrightarrow> wi_tenant i = t"
  shows "queues_wf qs"
  unfolding queues_wf_def using assms by blast

lemma queues_wfD:
  assumes "queues_wf qs"
  shows "hm_wf qs"
    and "hm_get qs t = Some q \<Longrightarrow> q \<noteq> []"
    and "hm_get qs t = Some q \<Longrightarrow> length q \<le> MAX_TENANT_QUEUE_DEPTH"
    and "hm_get qs t = Some q \<Longrightarrow> i \<in> set q \<Longrightarrow> wi_tenant i = t"
  using assms unfolding queues_wf_def by blast+

lemma queue_of_tenant: "queues_wf qs \<Longrightarrow> i \<in> set (queue_of qs t) \<Longrightarrow> wi_tenant i = t"
  by (cases "hm_get qs t") (auto simp: queue_of_def dest: queues_wfD(4))

lemma queue_front_eq: "queue_front qs t = (case queue_of qs t of [] \<Rightarrow> None | i # is \<Rightarrow> Some i)"
  by (auto simp: queue_front_def queue_of_def split: option.splits list.splits)

lemma queue_pending_eq: "queue_pending qs t = length (queue_of qs t)"
  by (auto simp: queue_pending_def queue_of_def split: option.splits)

lemma queue_of_insert: "queue_of (hm_insert t q qs) u = (if u = t then q else queue_of qs u)"
  by (simp add: queue_of_def)

lemma queue_of_remove: "queue_of (hm_remove t qs) u = (if u = t then [] else queue_of qs u)"
  by (simp add: queue_of_def)

lemma queue_of_pop:
  "queue_of (snd (queue_pop_front t qs)) u = (if u = t then tl (queue_of qs t) else queue_of qs u)"
proof (cases "hm_get qs t")
  case None
  then show ?thesis by (simp add: queue_pop_front_def queue_of_def)
next
  case (Some q)
  then show ?thesis
    by (cases q) (simp_all add: queue_pop_front_def queue_of_remove queue_of_insert queue_of_def)
qed

lemma queues_wf_pop:
  assumes wf: "queues_wf qs"
  shows "queues_wf (snd (queue_pop_front t qs))"
proof (cases "hm_get qs t")
  case None
  with wf show ?thesis by (simp add: queue_pop_front_def)
next
  case (Some q)
  then obtain i "is" where q: "q = i # is" using queues_wfD(2) [OF wf Some] by (cases q) auto
  have rm: "queues_wf (hm_remove t qs)"
    by (rule queues_wfI) (use queues_wfD [OF wf] in \<open>auto simp del: map_of_eq_Some_iff split: if_splits\<close>)
  have "queues_wf (hm_insert t is qs)" if "is \<noteq> []"
    using queues_wfD(3,4) [OF wf Some] q that
    by (intro queues_wfI)
      (use queues_wfD [OF wf] in \<open>auto simp del: map_of_eq_Some_iff split: if_splits\<close>)
  with rm Some q show ?thesis by (simp add: queue_pop_front_def)
qed

lemma try_enqueue_spec:
  assumes wf: "queues_wf qs"
  shows "try_enqueue item qs =
    (if length (queue_of qs (wi_tenant item)) < MAX_TENANT_QUEUE_DEPTH
     then (Inr (), hm_insert (wi_tenant item) (queue_of qs (wi_tenant item) @ [item]) qs)
     else (Inl item, qs))"
proof (cases "hm_get qs (wi_tenant item)")
  case None
  then show ?thesis
    by (simp add: try_enqueue_def queue_of_def hm_contains_def MAX_TENANT_QUEUE_DEPTH_def Let_def)
next
  case (Some q)
  then show ?thesis using queues_wfD(2) [OF wf Some]
    by (simp add: try_enqueue_def queue_of_def hm_contains_def Let_def)
qed

lemma queues_wf_enqueue:
  assumes wf: "queues_wf qs"
  shows "queues_wf (snd (try_enqueue item qs))"
proof (cases "length (queue_of qs (wi_tenant item)) < MAX_TENANT_QUEUE_DEPTH")
  case True
  have "queues_wf (hm_insert (wi_tenant item) (queue_of qs (wi_tenant item) @ [item]) qs)"
    using True queue_of_tenant [OF wf]
    by (intro queues_wfI)
      (use queues_wfD [OF wf] in \<open>auto simp del: map_of_eq_Some_iff split: if_splits\<close>)
  with True show ?thesis by (simp add: try_enqueue_spec [OF wf])
qed (simp add: try_enqueue_spec [OF wf] wf)

lemma tenants_with_work_props:
  assumes wf: "queues_wf qs"
  shows "set (tenants_with_work qs) = {t. queue_of qs t \<noteq> []}" "distinct (tenants_with_work qs)"
proof -
  have "hm_wf qs" by (rule queues_wfD(1) [OF wf])
  then have get: "hm_get qs t = Some q \<longleftrightarrow> (t, q) \<in> set qs" for t q by simp
  have "(\<exists>q. (t, q) \<in> set qs \<and> q \<noteq> []) \<longleftrightarrow> queue_of qs t \<noteq> []" for t
    unfolding get [symmetric] by (cases "hm_get qs t") (simp_all add: queue_of_def)
  then show "set (tenants_with_work qs) = {t. queue_of qs t \<noteq> []}"
    by (auto simp: tenants_with_work_def image_iff) force+
  have "distinct (map fst (filter P qs))" for P
    using \<open>hm_wf qs\<close> by (simp add: distinct_map_filter)
  then show "distinct (tenants_with_work qs)" by (simp add: tenants_with_work_def)
qed

lemma rotation_order_props:
  assumes wf: "queues_wf (fs_queues fs)"
  shows "set (rotation_order fs parked) = {t. queue_of (fs_queues fs) t \<noteq> [] \<and> t \<notin> parked}"
    and "distinct (rotation_order fs parked)"
proof -
  let ?el = "filter (\<lambda>t. t \<notin> parked) (tenants_with_work (fs_queues fs))"
  let ?rest = "filter (\<lambda>t. t \<notin> fs_owed_skip fs) ?el"
  obtain n where n: "rotation_order fs parked = filter (\<lambda>t. t \<in> fs_owed_skip fs) ?el @ rotate n ?rest"
  proof (cases "fs_cursor fs")
    case None
    then show ?thesis using that [of 0] by (simp add: rotation_order_def Let_def)
  next
    case (Some c)
    then show ?thesis by (intro that) (simp add: rotation_order_def Let_def)
  qed
  show "set (rotation_order fs parked) = {t. queue_of (fs_queues fs) t \<noteq> [] \<and> t \<notin> parked}"
    unfolding n using tenants_with_work_props(1) [OF wf] by auto
  show "distinct (rotation_order fs parked)"
    unfolding n using tenants_with_work_props(2) [OF wf] by auto
qed


section \<open>What a tick hands out\<close>

text \<open>The dispatched items behind a report: their ids and waits are the report, and each tenant's queue
  lost exactly its own items, from the front.\<close>

definition served :: "u64 \<Rightarrow> fair_scheduler \<Rightarrow> work_item list \<Rightarrow> 'd tick_state \<Rightarrow> bool" where
  "served now fs items st \<longleftrightarrow>
     queues_wf (fs_queues (ts_sched st)) \<and>
     tr_dispatched (ts_report st) = map wi_id items \<and>
     tr_waits_ms (ts_report st) =
       map (\<lambda>i. (wi_tenant i, sat_sub now (wi_enqueued_at_ms i))) items \<and>
     unat (ts_remaining st) + length items = unat (fs_global_slots fs) \<and>
     (\<forall>t. queue_of (fs_queues fs) t = filter (\<lambda>i. wi_tenant i = t) items @ queue_of (fs_queues (ts_sched st)) t)"

lemma unat_pred: "w \<noteq> 0 \<Longrightarrow> unat (w - 1) = unat w - 1" for w :: "'l::len word"
  by (simp add: unat_minus_one)

lemma served_take:
  assumes "served now fs items st" and "ts_remaining st \<noteq> 0"
    and front: "queue_front (fs_queues (ts_sched st)) t = Some item"
  shows "served now fs (items @ [item]) (tick_take now t item env st)"
proof -
  have wf: "queues_wf (fs_queues (ts_sched st))" using assms(1) by (simp add: served_def)
  from front obtain q where q: "queue_of (fs_queues (ts_sched st)) t = item # q"
    by (auto simp: queue_front_eq split: list.splits)
  have t: "wi_tenant item = t" using queue_of_tenant [OF wf, of item t] q by simp
  have "unat (ts_remaining st) \<noteq> 0" using assms(2) by (simp add: unat_eq_0)
  with assms(1,2) q t queues_wf_pop [OF wf, of t] show ?thesis
    by (auto simp: served_def tick_take_def Let_def queue_of_pop unat_pred)
qed

lemma served_pass:
  assumes "\<exists>items. served now fs items st"
  shows "\<exists>items. served now fs items (tick_pass cap disp now ts st)"
proof (rule tick_pass_invariant [where P = "\<lambda>st. \<exists>items. served now fs items st"])
  fix st :: "'a tick_state" and t item env
  assume "\<exists>items. served now fs items st" "ts_remaining st \<noteq> 0"
    "queue_front (fs_queues (ts_sched st)) t = Some item"
  then show "\<exists>items. served now fs items (tick_take now t item env st)"
    by (blast intro: served_take)
qed (use assms in \<open>auto simp: served_def tick_skip_def\<close>)

lemma served_loop:
  assumes "\<exists>items. served now fs items st"
  shows "\<exists>items. served now fs items (tick_loop cap disp now st)"
  using assms
proof (induction cap disp now st rule: tick_loop.induct)
  case (1 cap disp now st)
  let ?st = "tick_pass cap disp now (rotation_order (ts_sched st) (ts_parked st)) (st\<lparr>ts_progressed := False\<rparr>)"
  have "\<exists>items. served now fs items (st\<lparr>ts_progressed := False\<rparr>)"
    using 1(2) by (simp add: served_def)
  from served_pass [OF this] have "\<exists>items. served now fs items ?st" .
  with 1 show ?case by (subst tick_loop.simps) (simp add: Let_def)
qed


section \<open>Fairness\<close>

definition report_turns :: "tick_report \<Rightarrow> tenant_id \<Rightarrow> nat" where
  "report_turns rep t = length (filter (\<lambda>(u, w). u = t) (tr_waits_ms rep))"

definition turns :: "'d tick_state \<Rightarrow> tenant_id \<Rightarrow> nat" where
  "turns st t = report_turns (ts_report st) t"

text \<open>A tenant that is never refused: its cap check and its dispatches always succeed.\<close>

definition never_refused ::
  "('d \<Rightarrow> tenant_id \<Rightarrow> bool) \<Rightarrow> ('d \<Rightarrow> work_item \<Rightarrow> bool \<times> 'd) \<Rightarrow> tenant_id \<Rightarrow> bool" where
  "never_refused cap disp t \<longleftrightarrow> (\<forall>d. cap d t) \<and> (\<forall>d i. wi_tenant i = t \<longrightarrow> fst (disp d i))"

lemma turns_take [simp]:
  "turns (tick_take now t item env st) u = turns st u + (if u = t then 1 else 0)"
  by (simp add: turns_def report_turns_def tick_take_def Let_def)

lemma turns_frame [simp]:
  "turns (tick_skip t st) u = turns st u"
  "turns (st\<lparr>ts_parked := p, ts_env := e\<rparr>) u = turns st u"
  "turns (st\<lparr>ts_progressed := b\<rparr>) u = turns st u"
  by (simp_all add: turns_def report_turns_def tick_skip_def)

text \<open>One tenant's part of a pass.\<close>

definition tick_one ::
  "('d \<Rightarrow> tenant_id \<Rightarrow> bool) \<Rightarrow> ('d \<Rightarrow> work_item \<Rightarrow> bool \<times> 'd) \<Rightarrow> u64 \<Rightarrow> tenant_id \<Rightarrow> 'd tick_state \<Rightarrow> 'd tick_state"
where
  "tick_one cap disp now t st =
     (if t \<in> ts_parked st then st
      else if \<not> cap (ts_env st) t then tick_skip t st
      else case queue_front (fs_queues (ts_sched st)) t of
             None \<Rightarrow> st
           | Some item \<Rightarrow>
               (case disp (ts_env st) item of
                  (True, env) \<Rightarrow> tick_take now t item env st
                | (False, env) \<Rightarrow> st\<lparr>ts_parked := insert t (ts_parked st), ts_env := env\<rparr>))"

lemma tick_pass_Cons:
  "tick_pass cap disp now (t # ts) st =
     (if ts_remaining st = 0 then st else tick_pass cap disp now ts (tick_one cap disp now t st))"
  by (simp add: tick_one_def split: option.splits prod.splits bool.splits)

lemma tick_pass_done: "ts_remaining st = 0 \<Longrightarrow> tick_pass cap disp now ts st = st"
  by (cases ts) simp_all

lemma tick_one_cases:
  obtains (same) "tick_one cap disp now t st = st"
  | (skip) "tick_one cap disp now t st = tick_skip t st" "\<not> cap (ts_env st) t"
  | (take) item env where "tick_one cap disp now t st = tick_take now t item env st"
      "queue_front (fs_queues (ts_sched st)) t = Some item"
  | (park) item env where "tick_one cap disp now t st = st\<lparr>ts_parked := insert t (ts_parked st), ts_env := env\<rparr>"
      "queue_front (fs_queues (ts_sched st)) t = Some item" "disp (ts_env st) item = (False, env)"
proof (cases "t \<in> ts_parked st \<or> cap (ts_env st) t \<and> queue_front (fs_queues (ts_sched st)) t = None")
  case True
  then show ?thesis by (intro same) (auto simp: tick_one_def)
next
  case act: False
  show ?thesis
  proof (cases "cap (ts_env st) t")
    case False
    with act show ?thesis by (intro skip) (simp_all add: tick_one_def)
  next
    case True
    with act obtain item where item: "queue_front (fs_queues (ts_sched st)) t = Some item" by auto
    obtain b env where d: "disp (ts_env st) item = (b, env)" by (cases "disp (ts_env st) item")
    show ?thesis
    proof (cases b)
      case True
      with act item d \<open>cap (ts_env st) t\<close> show ?thesis by (intro take [of item env]) (simp_all add: tick_one_def)
    next
      case False
      with act item d \<open>cap (ts_env st) t\<close> show ?thesis by (intro park [of env item]) (simp_all add: tick_one_def)
    qed
  qed
qed

lemma turns_one: "turns (tick_one cap disp now t st) u \<le> turns st u + (if u = t then 1 else 0)"
  by (cases rule: tick_one_cases [of cap disp now t st]) auto

lemma turns_pass_le:
  "distinct ts \<Longrightarrow> turns (tick_pass cap disp now ts st) u \<le> turns st u + (if u \<in> set ts then 1 else 0)"
proof (induction ts arbitrary: st)
  case (Cons t ts)
  then have "turns (tick_pass cap disp now ts (tick_one cap disp now t st)) u
      \<le> turns (tick_one cap disp now t st) u + (if u \<in> set ts then 1 else 0)" by simp
  with turns_one [of cap disp now t st u] Cons.prems show ?case
    by (auto simp: tick_pass_Cons simp del: tick_pass.simps split: if_splits)
qed simp

lemma turns_pass_mono: "turns st u \<le> turns (tick_pass cap disp now ts st) u"
  by (rule tick_pass_invariant [where P = "\<lambda>st'. turns st u \<le> turns st' u"]) auto

lemma progressed_mono: "ts_progressed st \<Longrightarrow> ts_progressed (tick_pass cap disp now ts st)"
  by (rule tick_pass_invariant [where P = ts_progressed]) (auto simp: tick_skip_def tick_take_def Let_def)


text \<open>A pass that reaches a tenant with work which is never refused serves it, or has run out of
  budget.\<close>

definition waiting :: "tenant_id \<Rightarrow> 'd tick_state \<Rightarrow> bool" where
  "waiting u st \<longleftrightarrow> queues_wf (fs_queues (ts_sched st)) \<and> u \<notin> ts_parked st \<and>
     queue_of (fs_queues (ts_sched st)) u \<noteq> []"

lemma waiting_one:
  assumes "waiting u st" and "t \<noteq> u"
  shows "waiting u (tick_one cap disp now t st)"
  using assms queues_wf_pop
  by (cases rule: tick_one_cases [of cap disp now t st])
    (auto simp: waiting_def tick_skip_def tick_take_def Let_def queue_of_pop)

lemma never_refused_one:
  assumes nr: "never_refused cap disp u" and w: "waiting u st"
  shows "\<exists>item env. tick_one cap disp now u st = tick_take now u item env st"
proof -
  from w obtain item q where q: "queue_of (fs_queues (ts_sched st)) u = item # q"
    by (auto simp: waiting_def neq_Nil_conv)
  then have "wi_tenant item = u" using queue_of_tenant [of "fs_queues (ts_sched st)" item u] w
    by (simp add: waiting_def)
  then have "fst (disp (ts_env st) item)" "cap (ts_env st) u" using nr by (simp_all add: never_refused_def)
  with q w show ?thesis
    by (cases "disp (ts_env st) item") (auto simp: tick_one_def queue_front_eq waiting_def)
qed

lemma parked_one: "u \<notin> ts_parked st \<Longrightarrow> never_refused cap disp u \<Longrightarrow> queues_wf (fs_queues (ts_sched st)) \<Longrightarrow>
  u \<notin> ts_parked (tick_one cap disp now t st) \<and> queues_wf (fs_queues (ts_sched (tick_one cap disp now t st)))"
proof (cases rule: tick_one_cases [of cap disp now t st])
  case (park item env)
  assume u: "u \<notin> ts_parked st" "never_refused cap disp u" "queues_wf (fs_queues (ts_sched st))"
  have "wi_tenant item = t" using park(2) u(3) queue_of_tenant [of "fs_queues (ts_sched st)" item t]
    by (simp add: queue_front_eq split: list.splits)
  with park(3) u(2) have "t \<noteq> u" by (auto simp: never_refused_def) (metis fst_conv)
  with park u show ?thesis by simp
qed (auto simp: tick_skip_def tick_take_def Let_def never_refused_def queues_wf_pop)

lemma parked_pass:
  assumes "u \<notin> ts_parked st" "never_refused cap disp u" "queues_wf (fs_queues (ts_sched st))"
  shows "u \<notin> ts_parked (tick_pass cap disp now ts st) \<and> queues_wf (fs_queues (ts_sched (tick_pass cap disp now ts st)))"
  using assms
proof (induction ts arbitrary: st)
  case (Cons t ts)
  with parked_one [of u st cap disp now t] show ?case
    by (simp add: tick_pass_Cons del: tick_pass.simps)
qed simp

lemma pass_serves:
  fixes now :: u64
  assumes nr: "never_refused cap disp u" and "waiting u st" and "u \<in> set ts" and "distinct ts"
  defines "st' \<equiv> tick_pass cap disp now ts st"
  shows "ts_remaining st' = 0 \<or> turns st' u = turns st u + 1 \<and> ts_progressed st'"
  using assms(2-4) unfolding st'_def
proof (induction ts arbitrary: st)
  case (Cons t ts)
  show ?case
  proof (cases "ts_remaining st = 0")
    case True
    then show ?thesis by simp
  next
    case False
    then have step: "tick_pass cap disp now (t # ts) st = tick_pass cap disp now ts (tick_one cap disp now t st)"
      by (simp add: tick_pass_Cons del: tick_pass.simps)
    show ?thesis
    proof (cases "t = u")
      case True
      from never_refused_one [OF nr Cons.prems(1), of now] obtain item env
        where take: "tick_one cap disp now u st = tick_take now u item env st" by blast
      have "turns (tick_pass cap disp now ts (tick_take now u item env st)) u = turns st u + 1"
        using turns_pass_le [of ts cap disp now "tick_take now u item env st" u]
          turns_pass_mono [of "tick_take now u item env st" u cap disp now ts] Cons.prems(3) True by simp
      moreover have "ts_progressed (tick_pass cap disp now ts (tick_take now u item env st))"
        by (rule progressed_mono) (simp add: tick_take_def Let_def)
      ultimately show ?thesis using step take True by simp
    next
      case False
      then have "waiting u (tick_one cap disp now t st)" by (rule waiting_one [OF Cons.prems(1)])
      moreover have "turns (tick_one cap disp now t st) u = turns st u"
        using False by (cases rule: tick_one_cases [of cap disp now t st]) simp_all
      ultimately show ?thesis using Cons.IH [of "tick_one cap disp now t st"] Cons.prems False step by simp
    qed
  qed
qed simp


text \<open>After every pass, a tenant that is never refused and still has work has had as many turns as
  passes were made, and no tenant has had more; when the loop ends with such a tenant waiting, the budget
  is spent.\<close>

definition in_step :: "tenant_id \<Rightarrow> nat \<Rightarrow> 'd tick_state \<Rightarrow> bool" where
  "in_step u k st \<longleftrightarrow> queues_wf (fs_queues (ts_sched st)) \<and> u \<notin> ts_parked st \<and>
     (\<forall>t. turns st t \<le> k) \<and> (queue_of (fs_queues (ts_sched st)) u \<noteq> [] \<longrightarrow> turns st u = k)"

lemma queue_pass_suffix:
  "queue_of (fs_queues (ts_sched st)) u = [] \<Longrightarrow>
     queue_of (fs_queues (ts_sched (tick_pass cap disp now ts st))) u = []"
  by (rule tick_pass_invariant [where P = "\<lambda>st. queue_of (fs_queues (ts_sched st)) u = []"])
    (auto simp: tick_skip_def tick_take_def Let_def queue_of_pop)

lemma tick_loop_stop:
  "ts_remaining st = 0 \<or> rotation_order (ts_sched st) (ts_parked st) = [] \<Longrightarrow> tick_loop cap disp now st = st"
  by (subst tick_loop.simps) (auto simp: Let_def)

lemma tick_loop_step:
  fixes st :: "'d tick_state" and now :: u64 and cap disp
  assumes "ts_remaining st \<noteq> 0" and "rotation_order (ts_sched st) (ts_parked st) \<noteq> []"
  defines "st1 \<equiv> tick_pass cap disp now (rotation_order (ts_sched st) (ts_parked st)) (st\<lparr>ts_progressed := False\<rparr>)"
  shows "tick_loop cap disp now st = (if ts_progressed st1 then tick_loop cap disp now st1 else st1)"
  using assms(1,2) unfolding st1_def by (subst tick_loop.simps) (simp add: Let_def)

lemma in_step_pass:
  fixes now :: u64
  assumes nr: "never_refused cap disp u" and step: "in_step u k st"
  defines "st1 \<equiv> tick_pass cap disp now (rotation_order (ts_sched st) (ts_parked st)) (st\<lparr>ts_progressed := False\<rparr>)"
  shows "in_step u (k + 1) st1 \<and> (queue_of (fs_queues (ts_sched st1)) u \<noteq> [] \<longrightarrow> ts_progressed st1) \<or>
    ts_remaining st1 = 0 \<and> (\<forall>t. turns st1 t \<le> turns st1 u + 1)"
proof -
  let ?order = "rotation_order (ts_sched st) (ts_parked st)" and ?st0 = "st\<lparr>ts_progressed := False\<rparr>"
  have wf: "queues_wf (fs_queues (ts_sched st))" and park: "u \<notin> ts_parked st"
    and le: "turns st t \<le> k" and eq: "queue_of (fs_queues (ts_sched st)) u \<noteq> [] \<Longrightarrow> turns st u = k" for t
    using step by (simp_all add: in_step_def)
  note ord = rotation_order_props [OF wf, of "ts_parked st"]
  have le1: "turns st1 t \<le> k + 1" for t
    using turns_pass_le [OF ord(2), of cap disp now ?st0 t] le [of t]
    by (auto simp: st1_def split: if_splits)
  have p1: "u \<notin> ts_parked st1" "queues_wf (fs_queues (ts_sched st1))"
    using parked_pass [of u ?st0 cap disp now ?order] park nr wf by (simp_all add: st1_def)
  show ?thesis
  proof (cases "queue_of (fs_queues (ts_sched st)) u = []")
    case True
    then have "queue_of (fs_queues (ts_sched st1)) u = []"
      unfolding st1_def by (intro queue_pass_suffix) simp
    with p1 le1 show ?thesis by (simp add: in_step_def)
  next
    case work: False
    have "waiting u ?st0" "u \<in> set ?order" using wf park work ord(1) by (simp_all add: waiting_def)
    from pass_serves [OF nr this ord(2), of now] eq [OF work]
    have "ts_remaining st1 = 0 \<or> turns st1 u = k + 1 \<and> ts_progressed st1" by (simp add: st1_def)
    moreover have "turns st1 t \<le> turns st1 u + 1" for t
      using turns_pass_mono [of ?st0 u cap disp now ?order] eq [OF work] le1 [of t]
      by (simp add: st1_def)
    ultimately show ?thesis using p1 le1 by (auto simp: in_step_def)
  qed
qed

lemma tick_loop_fair:
  fixes now :: u64
  assumes "never_refused cap disp u" and "in_step u k st"
  defines "st' \<equiv> tick_loop cap disp now st"
  shows "queue_of (fs_queues (ts_sched st')) u \<noteq> [] \<Longrightarrow>
    ts_remaining st' = 0 \<and> (\<forall>t. turns st' t \<le> turns st' u + 1)"
  using assms(1,2) unfolding st'_def
proof (induction cap disp now st arbitrary: k rule: tick_loop.induct)
  case (1 cap disp now st)
  let ?order = "rotation_order (ts_sched st) (ts_parked st)"
  let ?st1 = "tick_pass cap disp now ?order (st\<lparr>ts_progressed := False\<rparr>)"
  show ?case
  proof (cases "ts_remaining st = 0 \<or> ?order = []")
    case True
    from tick_loop_stop [OF True] have stop: "tick_loop cap disp now st = st" .
    from "1.prems"(1,3) have work: "queue_of (fs_queues (ts_sched st)) u \<noteq> []"
      and inst: "u \<notin> ts_parked st" "queues_wf (fs_queues (ts_sched st))" "\<And>t. turns st t \<le> k" "turns st u = k"
      by (simp_all add: stop in_step_def)
    then have "u \<in> set ?order" using rotation_order_props(1) by simp
    with True stop inst show ?thesis by (auto simp: le_SucI)
  next
    case False
    then have nz: "ts_remaining st \<noteq> 0" and ne: "?order \<noteq> []" by simp_all
    note step = tick_loop_step [OF nz ne, of cap disp now]
    note IH = "1.IH" [OF nz refl ne refl]
    from in_step_pass [OF "1.prems"(2,3), of now] show ?thesis
    proof (elim disjE conjE)
      assume "in_step u (k + 1) ?st1" "queue_of (fs_queues (ts_sched ?st1)) u \<noteq> [] \<longrightarrow> ts_progressed ?st1"
      then show ?thesis using IH [of "k + 1"] "1.prems"(1,2) step by (cases "ts_progressed ?st1") auto
    next
      assume "ts_remaining ?st1 = 0" "\<forall>t. turns ?st1 t \<le> turns ?st1 u + 1"
      then show ?thesis using step tick_loop_stop [of ?st1] by (cases "ts_progressed ?st1") auto
    qed
  qed
qed


abbreviation tick_start :: "fair_scheduler \<Rightarrow> 'd \<Rightarrow> 'd tick_state" where
  "tick_start fs env \<equiv> \<lparr>ts_sched = fs,
     ts_report = \<lparr>tr_dispatched = [], tr_skipped_over_cap = 0, tr_waits_ms = []\<rparr>,
     ts_remaining = fs_global_slots fs, ts_parked = {}, ts_progressed = False, ts_env = env\<rparr>"

lemma tick_eq:
  assumes "tick cap disp now env fs = (rep, fs', env')"
  shows "rep = ts_report (tick_loop cap disp now (tick_start fs env))"
    and "fs_queues fs' = fs_queues (ts_sched (tick_loop cap disp now (tick_start fs env)))"
  using assms by (auto simp: tick_def Let_def)

lemma tick_served:
  assumes "queues_wf (fs_queues fs)"
  shows "\<exists>items. served now fs items (tick_loop cap disp now (tick_start fs env))"
  by (rule served_loop) (rule exI [of _ "[]"], use assms in \<open>simp add: served_def\<close>)

lemma tick_conserved:
  assumes "queues_wf (fs_queues fs)" and "tick cap disp now env fs = (rep, fs', env')"
  shows "\<exists>items. tr_dispatched rep = map wi_id items \<and>
    tr_waits_ms rep = map (\<lambda>i. (wi_tenant i, sat_sub now (wi_enqueued_at_ms i))) items \<and>
    length items \<le> unat (fs_global_slots fs) \<and> queues_wf (fs_queues fs') \<and>
    (\<forall>t. queue_of (fs_queues fs) t = filter (\<lambda>i. wi_tenant i = t) items @ queue_of (fs_queues fs') t)"
proof -
  from tick_served [OF assms(1), of now cap disp env] obtain items
    where "served now fs items (tick_loop cap disp now (tick_start fs env))" by blast
  with tick_eq [OF assms(2)] show ?thesis by (intro exI [of _ items]) (auto simp: served_def)
qed

lemma tick_fairness:
  assumes "queues_wf (fs_queues fs)" and "tick cap disp now env fs = (rep, fs', env')"
    and "never_refused cap disp u" and "queue_of (fs_queues fs') u \<noteq> []"
  shows "length (tr_dispatched rep) = unat (fs_global_slots fs) \<and>
    (\<forall>t. report_turns rep t \<le> report_turns rep u + 1)"
proof -
  let ?st = "tick_loop cap disp now (tick_start fs env)"
  have "in_step u 0 (tick_start fs env)" using assms(1) by (simp add: in_step_def turns_def report_turns_def)
  from tick_loop_fair [OF assms(3) this, of now] assms(4) tick_eq [OF assms(2)]
  have "ts_remaining ?st = 0" "\<forall>t. turns ?st t \<le> turns ?st u + 1" by auto
  moreover from tick_served [OF assms(1), of now cap disp env] obtain items where "served now fs items ?st" by blast
  ultimately show ?thesis using tick_eq(1) [OF assms(2)]
    by (auto simp: served_def turns_def)
qed

text \<open>The first dispatch of a pass comes no later than a waiting tenant that is never refused.\<close>

definition first_from :: "tenant_id set \<Rightarrow> 'd tick_state \<Rightarrow> bool" where
  "first_from A st \<longleftrightarrow> tr_waits_ms (ts_report st) \<noteq> [] \<and> fst (hd (tr_waits_ms (ts_report st))) \<in> A"

lemma first_from_pass: "first_from A st \<Longrightarrow> first_from A (tick_pass cap disp now ts st)"
  by (rule tick_pass_invariant [where P = "first_from A"])
    (auto simp: first_from_def tick_skip_def tick_take_def Let_def)

lemma first_from_loop: "first_from A st \<Longrightarrow> first_from A (tick_loop cap disp now st)"
proof (induction cap disp now st rule: tick_loop.induct)
  case (1 cap disp now st)
  have "first_from A (st\<lparr>ts_progressed := False\<rparr>)" using 1(2) by (simp add: first_from_def)
  from first_from_pass [OF this] 1 show ?case by (subst tick_loop.simps) (simp add: Let_def)
qed

lemma first_of_pass:
  assumes nr: "never_refused cap disp u" and "waiting u st" and "u \<in> set ts" and "set ts \<subseteq> A"
    and "ts_remaining st \<noteq> 0" and "tr_waits_ms (ts_report st) = []"
  shows "first_from A (tick_pass cap disp now (ts @ ts') st)"
  using assms(2-6)
proof (induction ts arbitrary: st)
  case (Cons t ts)
  let ?st1 = "tick_one cap disp now t st"
  have step: "tick_pass cap disp now ((t # ts) @ ts') st = tick_pass cap disp now (ts @ ts') ?st1"
    using Cons.prems(4) by (simp add: tick_pass_Cons del: tick_pass.simps)
  show ?case
  proof (cases "\<exists>item env. ?st1 = tick_take now t item env st")
    case True
    then have "first_from A ?st1" using Cons.prems(3,5) by (auto simp: first_from_def tick_take_def Let_def)
    then show ?thesis unfolding step by (rule first_from_pass)
  next
    case False
    then have "t \<noteq> u" using never_refused_one [OF nr Cons.prems(1)] by blast
    moreover have "ts_remaining ?st1 = ts_remaining st" "tr_waits_ms (ts_report ?st1) = []"
      using False Cons.prems(5)
      by (cases rule: tick_one_cases [of cap disp now t st]; auto simp: tick_skip_def)+
    ultimately show ?thesis
      unfolding step using Cons.prems waiting_one [OF Cons.prems(1)] by (intro Cons.IH) auto
  qed
qed simp

lemma rotation_order_owed:
  assumes wf: "queues_wf (fs_queues fs)" and "u \<in> fs_owed_skip fs" and "queue_of (fs_queues fs) u \<noteq> []"
  obtains ts ts' where "rotation_order fs {} = ts @ ts'" "u \<in> set ts" "set ts \<subseteq> fs_owed_skip fs"
proof (rule that)
  let ?work = "tenants_with_work (fs_queues fs)"
  show "rotation_order fs {} = filter (\<lambda>t. t \<in> fs_owed_skip fs) ?work @
      drop (length (filter (\<lambda>t. t \<in> fs_owed_skip fs) ?work)) (rotation_order fs {})"
    by (simp add: rotation_order_def Let_def)
  show "u \<in> set (filter (\<lambda>t. t \<in> fs_owed_skip fs) ?work)"
    using assms(2,3) tenants_with_work_props(1) [OF wf] by simp
qed auto


section \<open>Properties of the scheduler\<close>

text \<open>C12: a tick loses and invents no work. It hands out at most its budget, in submission order within
  each tenant: every queue before the tick is the tenant's dispatched items followed by the queue after
  it, the report lists exactly those items with their waits, and the queues stay well formed, none over
  its bound.\<close>

theorem tick_conserves_work:
  assumes "queues_wf (fs_queues fs)" and "tick cap disp now env fs = (rep, fs', env')"
  shows "\<exists>items. tr_dispatched rep = map wi_id items \<and>
    tr_waits_ms rep = map (\<lambda>i. (wi_tenant i, sat_sub now (wi_enqueued_at_ms i))) items \<and>
    length items \<le> unat (fs_global_slots fs) \<and> queues_wf (fs_queues fs') \<and>
    (\<forall>t. queue_of (fs_queues fs) t = filter (\<lambda>i. wi_tenant i = t) items @ queue_of (fs_queues fs') t)"
  using tick_conserved [OF assms] .

text \<open>Two tenants with work, for the concrete instances.\<close>

definition sample_item :: "string \<Rightarrow> string \<Rightarrow> work_item" where
  "sample_item t n = \<lparr>wi_id = n, wi_tenant = TenantId t, wi_enqueued_at_ms = 100\<rparr>"

definition sample_sched :: fair_scheduler where
  "sample_sched = \<lparr>fs_global_slots = 3,
     fs_queues = [(TenantId ''a'', [sample_item ''a'' ''a1'', sample_item ''a'' ''a2'', sample_item ''a'' ''a3'']),
                  (TenantId ''b'', [sample_item ''b'' ''b1'', sample_item ''b'' ''b2''])],
     fs_cursor = None, fs_owed_skip = {}, fs_waits = []\<rparr>"

lemma sample_sched_wf: "queues_wf (fs_queues sample_sched)"
  by (rule queues_wfI)
    (auto simp: sample_sched_def sample_item_def MAX_TENANT_QUEUE_DEPTH_def split: if_splits)

theorem tick_conserves_work_witness:
  "\<exists>items :: work_item list. tr_dispatched (fst (tick (\<lambda>_ _. True) (\<lambda>d i. (True, d)) 150 () sample_sched)) = map wi_id items
     \<and> length items \<le> 3"
proof -
  obtain rep fs' env' where t: "tick (\<lambda>_ _. True) (\<lambda>d i. (True, d)) 150 () sample_sched = (rep, fs', env')"
    by (metis prod_cases3)
  have "unat (fs_global_slots sample_sched) = 3" by (simp add: sample_sched_def)
  with tick_conserves_work [OF sample_sched_wf t] t show ?thesis by auto
qed

text \<open>C11: the tick is fair and work conserving. If a tenant is never refused and still has work when the
  tick ends, then the whole budget was handed out and no tenant had more than one turn more than it,
  whatever the other tenants' caps and dispatches did.\<close>

theorem tick_fair:
  assumes "queues_wf (fs_queues fs)" and "tick cap disp now env fs = (rep, fs', env')"
    and "never_refused cap disp u" and "queue_of (fs_queues fs') u \<noteq> []"
  shows "length (tr_dispatched rep) = unat (fs_global_slots fs) \<and>
    (\<forall>t. report_turns rep t \<le> report_turns rep u + 1)"
  using tick_fairness [OF assms] .

theorem tick_fair_witness:
  "length (tr_dispatched (fst (tick (\<lambda>_ _. True) (\<lambda>d i. (True, d)) 150 () sample_sched))) = 3 \<or>
   queue_of (fs_queues (fst (snd (tick (\<lambda>_ _. True) (\<lambda>d i. (True, d)) 150 () sample_sched)))) (TenantId ''a'') = []"
proof -
  obtain rep fs' env' where t: "tick (\<lambda>_ _. True) (\<lambda>d i. (True, d)) 150 () sample_sched = (rep, fs', env')"
    by (metis prod_cases3)
  have nr: "never_refused (\<lambda>_ _. True) (\<lambda>d i. (True, d)) (TenantId ''a'')" by (simp add: never_refused_def)
  have "unat (fs_global_slots sample_sched) = 3" by (simp add: sample_sched_def)
  with tick_fair [OF sample_sched_wf t nr] t show ?thesis by auto
qed

text \<open>No starvation within a tick. If the budget covers the tenants with work, every tenant with work
  that is never refused is served at least once.\<close>

theorem tick_serves_everyone:
  assumes "queues_wf (fs_queues fs)" and "tick cap disp now env fs = (rep, fs', env')"
    and "never_refused cap disp u" and "queue_of (fs_queues fs) u \<noteq> []"
    and "length (tenants_with_work (fs_queues fs)) \<le> unat (fs_global_slots fs)"
  shows "1 \<le> report_turns rep u"
proof (rule ccontr)
  assume "\<not> 1 \<le> report_turns rep u"
  then have none: "report_turns rep u = 0" by simp
  from tick_conserved [OF assms(1,2)] obtain items where
    items: "tr_waits_ms rep = map (\<lambda>i. (wi_tenant i, sat_sub now (wi_enqueued_at_ms i))) items"
      "tr_dispatched rep = map wi_id items"
      "\<And>t. queue_of (fs_queues fs) t = filter (\<lambda>i. wi_tenant i = t) items @ queue_of (fs_queues fs') t"
    by blast
  have turns: "report_turns rep t = length (filter (\<lambda>i. wi_tenant i = t) items)" for t
    by (simp add: report_turns_def items(1) filter_map o_def)
  from turns [of u] none items(3) [of u] assms(4) have "queue_of (fs_queues fs') u \<noteq> []" by simp
  from tick_fairness [OF assms(1-3) this] none have full: "length items = unat (fs_global_slots fs)"
    and once: "length (filter (\<lambda>i. wi_tenant i = t) items) \<le> 1" for t
    by (simp_all add: items(2) turns)
  have "distinct (map wi_tenant items)"
    unfolding distinct_conv_nth
  proof (intro allI impI)
    fix i j assume ij: "i < length (map wi_tenant items)" "j < length (map wi_tenant items)" "i \<noteq> j"
    show "map wi_tenant items ! i \<noteq> map wi_tenant items ! j"
    proof
      assume eq: "map wi_tenant items ! i = map wi_tenant items ! j"
      let ?t = "wi_tenant (items ! i)"
      have "{i, j} \<subseteq> {k. k < length items \<and> wi_tenant (items ! k) = ?t}" using ij eq by auto
      then have "2 \<le> card {k. k < length items \<and> wi_tenant (items ! k) = ?t}"
        using ij(3) card_mono [of "{k. k < length items \<and> wi_tenant (items ! k) = ?t}" "{i, j}"] by simp
      then show False using once [of ?t] by (simp add: length_filter_conv_card)
    qed
  qed
  moreover have "set (map wi_tenant items) \<subseteq> set (tenants_with_work (fs_queues fs)) - {u}"
  proof
    fix t assume "t \<in> set (map wi_tenant items)"
    then have "filter (\<lambda>i. wi_tenant i = t) items \<noteq> []" by (auto simp: filter_empty_conv)
    with items(3) [of t] turns [of t] none show "t \<in> set (tenants_with_work (fs_queues fs)) - {u}"
      using tenants_with_work_props(1) [OF assms(1)] by auto
  qed
  ultimately have "length items \<le> card (set (tenants_with_work (fs_queues fs)) - {u})"
    by (metis card_mono distinct_card finite_Diff finite_set length_map)
  also have "\<dots> < length (tenants_with_work (fs_queues fs))"
    using tenants_with_work_props [OF assms(1)] assms(4)
    by (metis (mono_tags, lifting) card_Diff1_less distinct_card finite_set mem_Collect_eq)
  finally show False using full assms(5) by simp
qed

theorem tick_serves_everyone_witness:
  "1 \<le> report_turns (fst (tick (\<lambda>_ _. True) (\<lambda>d i. (True, d)) 150 () sample_sched)) (TenantId ''b'')"
proof -
  obtain rep fs' env' where t: "tick (\<lambda>_ _. True) (\<lambda>d i. (True, d)) 150 () sample_sched = (rep, fs', env')"
    by (metis prod_cases3)
  have nr: "never_refused (\<lambda>_ _. True) (\<lambda>d i. (True, d)) (TenantId ''b'')" by (simp add: never_refused_def)
  have "queue_of (fs_queues sample_sched) (TenantId ''b'') \<noteq> []"
    "length (tenants_with_work (fs_queues sample_sched)) \<le> unat (fs_global_slots sample_sched)"
    by (simp_all add: sample_sched_def queue_of_def tenants_with_work_def)
  from tick_serves_everyone [OF sample_sched_wf t nr this] t show ?thesis by simp
qed


text \<open>A deferred turn is redeemed first. If a tenant owed a turn from an earlier cap skip has work and
  is never refused, then the first dispatch of the tick goes to a tenant that is owed a turn, ahead of
  the rotation.\<close>

theorem owed_turn_redeemed_first:
  assumes "queues_wf (fs_queues fs)" and "u \<in> fs_owed_skip fs" and "queue_of (fs_queues fs) u \<noteq> []"
    and "never_refused cap disp u" and "fs_global_slots fs \<noteq> 0"
    and "tick cap disp now env fs = (rep, fs', env')"
  shows "tr_waits_ms rep \<noteq> [] \<and> fst (hd (tr_waits_ms rep)) \<in> fs_owed_skip fs"
proof -
  let ?st = "tick_start fs env"
  from rotation_order_owed [OF assms(1-3)] obtain ts ts' where
    ord: "rotation_order fs {} = ts @ ts'" "u \<in> set ts" "set ts \<subseteq> fs_owed_skip fs" .
  have "waiting u ?st" using assms(1,3) by (simp add: waiting_def)
  from first_of_pass [OF assms(4) this ord(2,3), of now ts'] assms(5)
  have pass: "first_from (fs_owed_skip fs) (tick_pass cap disp now (rotation_order fs {}) ?st)"
    by (simp add: ord(1))
  have "tick_loop cap disp now ?st = (let st1 = tick_pass cap disp now (rotation_order fs {}) ?st in
      if ts_progressed st1 then tick_loop cap disp now st1 else st1)"
    using tick_loop_step [of ?st cap disp now] assms(5) ord(1) length_pos_if_in_set [OF ord(2)]
    by (simp add: Let_def)
  with pass first_from_loop [OF pass, of cap disp now]
  have "first_from (fs_owed_skip fs) (tick_loop cap disp now ?st)" by (simp add: Let_def split: if_splits)
  with tick_eq(1) [OF assms(6)] show ?thesis by (simp add: first_from_def)
qed

theorem owed_turn_redeemed_first_witness:
  "fst (hd (tr_waits_ms (fst (tick (\<lambda>_ _. True) (\<lambda>d i. (True, d)) 150 ()
     (sample_sched\<lparr>fs_owed_skip := {TenantId ''b''}\<rparr>))))) = TenantId ''b''"
proof -
  let ?fs = "sample_sched\<lparr>fs_owed_skip := {TenantId ''b''}\<rparr>"
  obtain rep fs' env' where t: "tick (\<lambda>_ _. True) (\<lambda>d i. (True, d)) 150 () ?fs = (rep, fs', env')"
    by (metis prod_cases3)
  have "queues_wf (fs_queues ?fs)" "TenantId ''b'' \<in> fs_owed_skip ?fs"
    "queue_of (fs_queues ?fs) (TenantId ''b'') \<noteq> []"
    "never_refused (\<lambda>_ _. True) (\<lambda>d i. (True, d)) (TenantId ''b'')" "fs_global_slots ?fs \<noteq> 0"
    using sample_sched_wf by (simp_all add: never_refused_def sample_sched_def queue_of_def)
  from owed_turn_redeemed_first [OF this t] t show ?thesis by simp
qed

text \<open>The queues are bounded. Whatever is enqueued, no tenant ever holds more than the maximum depth;
  an item over the bound is handed back and changes nothing, any other item goes to the end of its
  tenant's queue and touches no other queue.\<close>

theorem enqueue_bounded:
  assumes "queues_wf (fs_queues fs)" and "enqueue item fs = (r, fs')"
  shows "queues_wf (fs_queues fs') \<and>
    (if sched_pending fs (wi_tenant item) < MAX_TENANT_QUEUE_DEPTH
     then r = Inr () \<and> (\<forall>t. queue_of (fs_queues fs') t =
       queue_of (fs_queues fs) t @ (if t = wi_tenant item then [item] else []))
     else r = Inl item \<and> fs' = fs)"
  using assms queues_wf_enqueue [OF assms(1), of item]
  by (auto simp: enqueue_def try_enqueue_spec [OF assms(1)] sched_pending_def queue_pending_eq
      queue_of_insert split: if_splits)

theorem enqueue_bounded_witness:
  "\<exists>fs'. enqueue (sample_item ''b'' ''b3'') sample_sched = (Inr (), fs') \<and>
     queue_of (fs_queues fs') (TenantId ''b'') =
       [sample_item ''b'' ''b1'', sample_item ''b'' ''b2'', sample_item ''b'' ''b3'']"
proof -
  obtain r fs' where e: "enqueue (sample_item ''b'' ''b3'') sample_sched = (r, fs')"
    by (cases "enqueue (sample_item ''b'' ''b3'') sample_sched")
  have "sched_pending sample_sched (TenantId ''b'') < MAX_TENANT_QUEUE_DEPTH"
    "queue_of (fs_queues sample_sched) (TenantId ''b'') = [sample_item ''b'' ''b1'', sample_item ''b'' ''b2'']"
    by (simp_all add: sched_pending_def queue_pending_eq queue_of_def sample_sched_def MAX_TENANT_QUEUE_DEPTH_def)
  with enqueue_bounded [OF sample_sched_wf e] e show ?thesis by (auto simp: sample_item_def)
qed


definition three_sched :: fair_scheduler where
  "three_sched = \<lparr>fs_global_slots = 1,
     fs_queues = [(TenantId ''a'', [sample_item ''a'' ''a1'', sample_item ''a'' ''a2'']),
                  (TenantId ''b'', [sample_item ''b'' ''b1'']), (TenantId ''c'', [sample_item ''c'' ''c1''])],
     fs_cursor = Some (TenantId ''b''), fs_owed_skip = {}, fs_waits = []\<rparr>"

definition all_accept :: "unit \<Rightarrow> work_item \<Rightarrow> bool \<times> unit" where
  "all_accept d i = (True, d)"

text \<open>Redeeming a deferred turn costs the next tenant in the rotation its turn. With one slot per tick
  and tenants a, b and c all waiting, the rotation about to resume after b: c is capped in the first tick,
  so a goes; c redeems its turn in the second; then the rotation resumes after c and a goes again, before
  b, which was never refused and had been next.\<close>

theorem redeemed_turn_passes_waiting_tenant:
  "(let (r1, fs1, d1) = tick (\<lambda>d t. t \<noteq> TenantId ''c'') all_accept 150 () three_sched;
        (r2, fs2, d2) = tick (\<lambda>d t. True) all_accept 160 () fs1;
        (r3, fs3, d3) = tick (\<lambda>d t. True) all_accept 170 () fs2
    in map fst (tr_waits_ms r1 @ tr_waits_ms r2 @ tr_waits_ms r3)
         = [TenantId ''a'', TenantId ''c'', TenantId ''a''] \<and>
       queue_of (fs_queues fs3) (TenantId ''b'') = [sample_item ''b'' ''b1''])"
  by code_simp

end
