(* ===== verification/Interference.thy ===== *)
theory Interference
  imports Scheduler
begin

text \<open>
  Per-tenant wait statistics, \<open>corelink-fabric/src/interference.rs\<close>: one bounded ring of waits per
  tenant, with nearest-rank percentiles and a six-bucket histogram.
\<close>

section \<open>The recorder\<close>

definition WAIT_BUCKET_BOUNDS_MS :: "u64 list" where
  "WAIT_BUCKET_BOUNDS_MS = [10, 50, 250, 1000, 5000]"

record wait_snapshot =
  ws_p50_ms :: u64
  ws_p95_ms :: u64
  ws_histogram :: "u64 list"
  ws_count :: u64

definition wait_snapshot_default :: wait_snapshot where
  "wait_snapshot_default =
     \<lparr>ws_p50_ms = 0, ws_p95_ms = 0, ws_histogram = replicate 6 0, ws_count = 0\<rparr>"

record tenant_wait_stats =
  tw_rings :: "(tenant_id, u64 list) hmap"

definition wait_stats_new :: tenant_wait_stats where
  "wait_stats_new = \<lparr>tw_rings = []\<rparr>"

definition ring_of :: "(tenant_id, u64 list) hmap \<Rightarrow> tenant_id \<Rightarrow> u64 list" where
  "ring_of m t = (case hm_get m t of Some ring \<Rightarrow> ring | None \<Rightarrow> [])"

definition wait_record :: "tenant_id \<Rightarrow> u64 \<Rightarrow> tenant_wait_stats \<Rightarrow> tenant_wait_stats" where
  "wait_record t wait_ms s =
     s\<lparr>tw_rings := hm_insert t (ring_push WAIT_RING_CAPACITY wait_ms (ring_of (tw_rings s) t)) (tw_rings s)\<rparr>"

definition observe_tick :: "tick_report \<Rightarrow> tenant_wait_stats \<Rightarrow> tenant_wait_stats" where
  "observe_tick report s = fold (\<lambda>(t, wait_ms) s. wait_record t wait_ms s) (tr_waits_ms report) s"

fun position_below :: "u64 \<Rightarrow> u64 list \<Rightarrow> nat option" where
  "position_below w [] = None"
| "position_below w (b # bs) = (if w < b then Some 0 else map_option Suc (position_below w bs))"

definition bucket_of :: "u64 \<Rightarrow> nat" where
  "bucket_of wait_ms =
     (case position_below wait_ms WAIT_BUCKET_BOUNDS_MS of
        Some n \<Rightarrow> n | None \<Rightarrow> length WAIT_BUCKET_BOUNDS_MS)"

text \<open>The index is in range for every non-empty slice and percentile up to 100; outside, the source
  panics and the model answers \<open>None\<close>.\<close>

definition nearest_rank :: "u64 list \<Rightarrow> nat \<Rightarrow> u64 option" where
  "nearest_rank sorted_waits percentile =
     (let rank = max (div_ceil (length sorted_waits * percentile) 100) 1 in
      if rank - 1 < length sorted_waits then Some (sorted_waits ! (rank - 1)) else None)"

definition bump_bucket :: "u64 \<Rightarrow> u64 list \<Rightarrow> u64 list" where
  "bump_bucket wait h = h[bucket_of wait := h ! bucket_of wait + 1]"

definition wait_snapshot_of :: "tenant_wait_stats \<Rightarrow> tenant_id \<Rightarrow> wait_snapshot option" where
  "wait_snapshot_of s t =
     (let ring = ring_of (tw_rings s) t in
      if ring = [] then Some wait_snapshot_default
      else let waits = sort ring;
               histogram = fold bump_bucket waits (replicate 6 0)
           in case (nearest_rank waits 50, nearest_rank waits 95) of
                (Some p50, Some p95) \<Rightarrow>
                  Some \<lparr>ws_p50_ms = p50, ws_p95_ms = p95, ws_histogram = histogram,
                        ws_count = of_nat (length waits)\<rparr>
              | _ \<Rightarrow> None)"


section \<open>Rings\<close>

lemma ring_of_insert: "ring_of (hm_insert t r m) u = (if u = t then r else ring_of m u)"
  by (simp add: ring_of_def)

text \<open>A ring holds the latest entries of its history.\<close>

definition latest :: "nat \<Rightarrow> 'a list \<Rightarrow> 'a list" where
  "latest n xs = drop (length xs - n) xs"

lemma ring_push_latest:
  assumes "0 < n"
  shows "ring_push n x (latest n xs) = latest n (xs @ [x])"
proof (cases "n \<le> length xs")
  case True
  have "tl (drop (length xs - n) xs) = drop (Suc (length xs - n)) xs" by (simp add: drop_Suc drop_tl)
  with True assms show ?thesis by (simp add: ring_push_def latest_def Suc_diff_le)
next
  case False
  then show ?thesis by (simp add: ring_push_def latest_def)
qed

lemma length_latest: "length (latest n xs) = min n (length xs)"
  by (simp add: latest_def)

text \<open>Recording a feed of waits leaves each tenant with the latest of its own waits.\<close>

definition record_all :: "(tenant_id \<times> u64) list \<Rightarrow> tenant_wait_stats \<Rightarrow> tenant_wait_stats" where
  "record_all feed s = fold (\<lambda>(t, wait_ms) s. wait_record t wait_ms s) feed s"

definition waits_for :: "tenant_id \<Rightarrow> (tenant_id \<times> u64) list \<Rightarrow> u64 list" where
  "waits_for t feed = map snd (filter (\<lambda>(u, w). u = t) feed)"

lemma record_all_snoc: "record_all (feed @ [(t, w)]) s = wait_record t w (record_all feed s)"
  by (simp add: record_all_def)

lemma ring_record_all:
  "ring_of (tw_rings (record_all feed wait_stats_new)) t = latest WAIT_RING_CAPACITY (waits_for t feed)"
proof (induction feed rule: rev_induct)
  case Nil
  then show ?case by (simp add: record_all_def wait_stats_new_def ring_of_def latest_def waits_for_def)
next
  case (snoc p feed)
  obtain u w where p: "p = (u, w)" by (cases p)
  have "0 < WAIT_RING_CAPACITY" by (simp add: WAIT_RING_CAPACITY_def)
  with snoc show ?case
    by (cases "t = u")
      (simp_all add: p record_all_snoc wait_record_def ring_of_insert ring_push_latest waits_for_def)
qed


section \<open>Histogram and percentiles\<close>

lemma bucket_of_less: "bucket_of w < 6"
  by (simp add: bucket_of_def WAIT_BUCKET_BOUNDS_MS_def split: option.splits)

lemma bump_bucket_nth:
  "length h = 6 \<Longrightarrow> b < 6 \<Longrightarrow> bump_bucket w h ! b = h ! b + (if bucket_of w = b then 1 else 0)"
  by (simp add: bump_bucket_def bucket_of_less nth_list_update)

lemma fold_bump:
  assumes "length h = 6"
  shows "length (fold bump_bucket ws h) = 6"
    and "b < 6 \<Longrightarrow> fold bump_bucket ws h ! b = h ! b + of_nat (length (filter (\<lambda>w. bucket_of w = b) ws))"
  using assms
proof (induction ws arbitrary: h)
  case (Cons w ws)
  {
    case 1
    then show ?case using Cons.IH(1) [of "bump_bucket w h"] by (simp add: bump_bucket_def)
  next
    case 2
    then have "length (bump_bucket w h) = 6" by (simp add: bump_bucket_def)
    with 2 Cons.IH(2) [of "bump_bucket w h"] show ?case
      by (cases "bucket_of w = b") (simp_all add: bump_bucket_nth)
  }
qed simp_all

lemma sort_Nil_iff: "sort xs = [] \<longleftrightarrow> xs = []"
  by (metis length_0_conv length_sort)

lemma rank_bounds:
  assumes "xs \<noteq> []" and "p \<le> 100"
  shows "max (div_ceil (length xs * p) 100) 1 - 1 < length xs"
proof -
  have "length xs * p \<le> length xs * 100" using assms(2) by simp
  then have "(length xs * p + 99) div 100 \<le> (length xs * 100 + 99) div 100" by (intro div_le_mono) simp
  also have "\<dots> = length xs" by simp
  finally have "div_ceil (length xs * p) 100 \<le> length xs" by (simp add: div_ceil_def)
  moreover have "0 < length xs" using assms(1) by simp
  ultimately show ?thesis by linarith
qed

lemma nearest_rank_Some:
  "xs \<noteq> [] \<Longrightarrow> p \<le> 100 \<Longrightarrow>
     nearest_rank xs p = Some (xs ! (max (div_ceil (length xs * p) 100) 1 - 1))"
  using rank_bounds [of xs p] by (simp add: nearest_rank_def Let_def)

text \<open>The nearest-rank percentile is a sample that at least \<open>p\<close> percent of the samples do not exceed.\<close>

lemma sorted_prefix_le:
  assumes "sorted xs" and "i < length xs"
  shows "Suc i \<le> length (filter (\<lambda>x. x \<le> xs ! i) xs)"
proof -
  have "{..i} \<subseteq> {k. k < length xs \<and> xs ! k \<le> xs ! i}"
    using assms by (auto intro: sorted_nth_mono)
  then have "card {..i} \<le> card {k. k < length xs \<and> xs ! k \<le> xs ! i}" by (intro card_mono) simp_all
  then show ?thesis by (simp add: length_filter_conv_card)
qed

lemma nearest_rank_covers:
  assumes "nearest_rank (sort ws) p = Some v"
  shows "v \<in> set ws \<and> length ws * p \<le> 100 * length (filter (\<lambda>w. w \<le> v) ws)"
proof -
  let ?xs = "sort ws" and ?i = "max (div_ceil (length ws * p) 100) 1 - 1"
  from assms have i: "?i < length ?xs" "v = ?xs ! ?i"
    by (simp_all add: nearest_rank_def Let_def split: if_splits)
  have "v \<in> set ?xs" using i by (metis nth_mem)
  have "length (filter (\<lambda>w. w \<le> v) ?xs) = length (filter (\<lambda>w. w \<le> v) ws)"
    unfolding size_mset [symmetric] mset_filter mset_sort ..
  moreover have "Suc ?i \<le> length (filter (\<lambda>w. w \<le> v) ?xs)"
    using sorted_prefix_le [of ?xs ?i] i by simp
  moreover have "length ws * p \<le> 100 * div_ceil (length ws * p) 100"
    unfolding div_ceil_def by linarith
  ultimately show ?thesis using \<open>v \<in> set ?xs\<close> by auto
qed


section \<open>Properties of the wait statistics\<close>

text \<open>A tenant's figures depend on its own waits only. Two feeds that agree on the waits of a tenant
  give it the same snapshot, whatever the other tenants did, and the snapshot is never missing.\<close>

theorem wait_stats_non_interference:
  assumes "waits_for t feed = waits_for t feed'"
  shows "wait_snapshot_of (record_all feed wait_stats_new) t = wait_snapshot_of (record_all feed' wait_stats_new) t \<and>
    wait_snapshot_of (record_all feed wait_stats_new) t \<noteq> None"
proof -
  have "ring_of (tw_rings (record_all feed wait_stats_new)) t = ring_of (tw_rings (record_all feed' wait_stats_new)) t"
    using assms by (simp add: ring_record_all)
  then show ?thesis
    by (simp add: wait_snapshot_of_def Let_def nearest_rank_Some sort_Nil_iff split: option.splits)
qed

theorem wait_stats_non_interference_witness:
  "wait_snapshot_of (record_all [(TenantId ''a'', 5), (TenantId ''b'', 9000)] wait_stats_new) (TenantId ''a'')
     = wait_snapshot_of (record_all [(TenantId ''a'', 5)] wait_stats_new) (TenantId ''a'')"
proof -
  have "waits_for (TenantId ''a'') [(TenantId ''a'', 5), (TenantId ''b'', 9000)]
      = waits_for (TenantId ''a'') [(TenantId ''a'', 5)]" by (simp add: waits_for_def)
  from wait_stats_non_interference [OF this] show ?thesis by blast
qed

text \<open>The snapshot is right. It covers the latest waits up to the ring's capacity; each histogram
  bucket counts exactly the waits that fall in it, the count is the window's length, and the reported
  median and p95 are recorded waits that at least 50 and 95 percent of the window do not exceed.\<close>

theorem wait_snapshot_correct:
  assumes "waits_for t feed \<noteq> []"
  defines "window \<equiv> latest WAIT_RING_CAPACITY (waits_for t feed)"
  shows "\<exists>snap. wait_snapshot_of (record_all feed wait_stats_new) t = Some snap \<and>
    unat (ws_count snap) = min WAIT_RING_CAPACITY (length (waits_for t feed)) \<and>
    (\<forall>b<6. ws_histogram snap ! b = of_nat (length (filter (\<lambda>w. bucket_of w = b) window))) \<and>
    ws_p50_ms snap \<in> set window \<and>
    length window * 50 \<le> 100 * length (filter (\<lambda>w. w \<le> ws_p50_ms snap) window) \<and>
    ws_p95_ms snap \<in> set window \<and>
    length window * 95 \<le> 100 * length (filter (\<lambda>w. w \<le> ws_p95_ms snap) window)"
proof -
  have ring: "ring_of (tw_rings (record_all feed wait_stats_new)) t = window"
    by (simp add: window_def ring_record_all)
  have len: "length window = min WAIT_RING_CAPACITY (length (waits_for t feed))"
    by (simp add: window_def length_latest)
  have "length window \<noteq> 0" unfolding len using assms(1) by (simp add: WAIT_RING_CAPACITY_def)
  then have ne: "window \<noteq> []" by simp
  then have "sort window \<noteq> []" by (simp add: sort_Nil_iff)
  then obtain p50 p95 where p: "nearest_rank (sort window) 50 = Some p50" "nearest_rank (sort window) 95 = Some p95"
    by (simp add: nearest_rank_Some)
  have "length (filter (\<lambda>w. bucket_of w = b) (sort window)) = length (filter (\<lambda>w. bucket_of w = b) window)" for b
    unfolding size_mset [symmetric] mset_filter mset_sort ..
  then have hist: "fold bump_bucket (sort window) (replicate 6 0) ! b
      = of_nat (length (filter (\<lambda>w. bucket_of w = b) window))" if "b < 6" for b
    using fold_bump(2) [of "replicate 6 0" b "sort window"] that by simp
  have "unat (of_nat (length window) :: u64) = length window"
    using len by (simp add: unsigned_of_nat take_bit_nat_eq_self WAIT_RING_CAPACITY_def)
  with p ne hist len nearest_rank_covers [OF p(1)] nearest_rank_covers [OF p(2)] show ?thesis
    by (simp add: wait_snapshot_of_def ring Let_def)
qed

theorem wait_snapshot_correct_witness:
  "\<exists>snap. wait_snapshot_of (record_all [(TenantId ''a'', 5), (TenantId ''a'', 70)] wait_stats_new) (TenantId ''a'')
      = Some snap \<and> unat (ws_count snap) = 2 \<and> ws_histogram snap ! 0 = 1"
proof -
  let ?feed = "[(TenantId ''a'', 5), (TenantId ''a'', 70)]"
  have "waits_for (TenantId ''a'') ?feed \<noteq> []" by (simp add: waits_for_def)
  moreover have "latest WAIT_RING_CAPACITY (waits_for (TenantId ''a'') ?feed) = [5, 70]"
    by (simp add: waits_for_def latest_def WAIT_RING_CAPACITY_def)
  ultimately show ?thesis
    using wait_snapshot_correct [of "TenantId ''a''" ?feed]
    by (auto simp: waits_for_def WAIT_RING_CAPACITY_def bucket_of_def WAIT_BUCKET_BOUNDS_MS_def)
qed

text \<open>The scheduler's p95 and the snapshot's p95 are the same function of the waits: fed the same
  dispatches, the two surfaces report the same figure.\<close>

lemma p95_surfaces_agree:
  fixes feed :: "(tenant_id \<times> u64) list" and n :: u32
  defines "fs \<equiv> fold (\<lambda>(t, w) fs. record_dispatch_wait t w fs) feed (scheduler_new n)"
  shows "p95_wait_ms fs t =
    (if waits_for t feed = [] then None
     else map_option ws_p95_ms (wait_snapshot_of (record_all feed wait_stats_new) t))"
proof -
  have rings: "fs_waits (fold (\<lambda>(t, w) fs. record_dispatch_wait t w fs) feed fs0) = tw_rings (record_all feed s)"
    if "fs_waits fs0 = tw_rings s" for fs0 s
    using that
  proof (induction feed arbitrary: fs0 s)
    case (Cons p feed)
    obtain u w where p: "p = (u, w)" by (cases p)
    have "fs_waits (record_dispatch_wait u w fs0) = tw_rings (wait_record u w s)"
      using Cons.prems by (simp add: record_dispatch_wait_def wait_record_def ring_of_def)
    from Cons.IH [OF this] show ?case by (simp add: p record_all_def)
  qed (simp add: record_all_def)
  have "fs_waits fs = tw_rings (record_all feed wait_stats_new)"
    unfolding fs_def by (rule rings) (simp add: scheduler_new_def wait_stats_new_def)
  then have eq: "p95_wait_ms fs t = (let ring = ring_of (tw_rings (record_all feed wait_stats_new)) t in
      if ring = [] then None else nearest_rank (sort ring) 95)"
    by (auto simp: p95_wait_ms_def ring_of_def Let_def nearest_rank_Some sort_Nil_iff split: option.splits)
  have "latest WAIT_RING_CAPACITY (waits_for t feed) = [] \<longleftrightarrow> waits_for t feed = []"
    using length_latest [of WAIT_RING_CAPACITY "waits_for t feed"]
    by (auto simp: WAIT_RING_CAPACITY_def simp flip: length_0_conv)
  then show ?thesis
    unfolding eq by (simp add: ring_record_all wait_snapshot_of_def Let_def nearest_rank_Some sort_Nil_iff)
qed

end
