(* ===== verification/Billing.thy ===== *)
theory Billing
  imports Tenant
begin

text \<open>
  Slot billing: the occupancy meter and its bounded journal (\<open>corelink-fabric/src/meter.rs\<close>,
  \<open>billing.rs\<close>), the idempotent event sink (\<open>billing_sink.rs\<close>) and one tick of the export loop that
  moves the journal into the sink (\<open>corelink-fabric-server/src/billing_export.rs\<close>). The export loop
  is proved against the contract of the sink, which the in-memory sink is shown to meet.
\<close>

section \<open>Slot events\<close>

datatype slot_event_kind = SlotAcquired | SlotReleased | SlotExpired | SlotCrashed

record slot_event =
  se_tenant :: tenant_id
  se_lease_id :: string
  se_kind :: slot_event_kind
  se_at_ms :: u64
  se_acquired_at_ms :: "u64 option"


section \<open>The occupancy meter\<close>

definition JOURNAL_CAP :: nat where
  "JOURNAL_CAP = 100000"

record slot_meter =
  sm_occupied :: "(tenant_id, u32) hmap"
  sm_peak :: "(tenant_id, u32) hmap"
  sm_journal :: "slot_event list"
  sm_journal_dropped :: u64
  sm_total_recorded :: u64

definition slot_meter_new :: slot_meter where
  "slot_meter_new = \<lparr>sm_occupied = [], sm_peak = [], sm_journal = [], sm_journal_dropped = 0,
     sm_total_recorded = 0\<rparr>"

definition sm_count :: "(tenant_id, u32) hmap \<Rightarrow> tenant_id \<Rightarrow> u32" where
  "sm_count m t = (case hm_get m t of Some n \<Rightarrow> n | None \<Rightarrow> 0)"

definition occupied :: "slot_meter \<Rightarrow> tenant_id \<Rightarrow> u32" where
  "occupied m t = sm_count (sm_occupied m) t"

definition peak :: "slot_meter \<Rightarrow> tenant_id \<Rightarrow> u32" where
  "peak m t = sm_count (sm_peak m) t"

definition meter_slot :: "slot_event \<Rightarrow> slot_meter \<Rightarrow> slot_meter" where
  "meter_slot ev m =
     (let t = se_tenant ev; occ = sm_count (sm_occupied m) t in
      case se_kind ev of
        SlotAcquired \<Rightarrow>
          let occ' = sat_add occ 1 in
          m\<lparr>sm_occupied := hm_insert t occ' (sm_occupied m),
            sm_peak := hm_insert t (max (sm_count (sm_peak m) t) occ') (sm_peak m)\<rparr>
      | _ \<Rightarrow> m\<lparr>sm_occupied := hm_insert t (sat_sub occ 1) (sm_occupied m)\<rparr>)"

definition journal_slot :: "slot_event \<Rightarrow> slot_meter \<Rightarrow> slot_meter" where
  "journal_slot ev m =
     (let m' = (if length (sm_journal m) \<ge> JOURNAL_CAP
                then m\<lparr>sm_journal := tl (sm_journal m), sm_journal_dropped := sm_journal_dropped m + 1\<rparr>
                else m) in
      m'\<lparr>sm_journal := sm_journal m' @ [ev], sm_total_recorded := sat_add (sm_total_recorded m') 1\<rparr>)"

definition sm_record :: "slot_event \<Rightarrow> slot_meter \<Rightarrow> slot_meter" where
  "sm_record ev m = journal_slot ev (meter_slot ev m)"

definition export_watermark :: "slot_meter \<Rightarrow> u64" where
  "export_watermark m = sm_total_recorded m"

fun drain_loop :: "u64 \<Rightarrow> u64 \<Rightarrow> slot_event list \<Rightarrow> slot_event list" where
  "drain_loop total_recorded watermark [] = []"
| "drain_loop total_recorded watermark (e # js) =
     (if total_recorded - of_nat (length (e # js)) < watermark
      then drain_loop total_recorded watermark js else e # js)"

definition drain_through :: "u64 \<Rightarrow> slot_meter \<Rightarrow> slot_meter" where
  "drain_through watermark m =
     m\<lparr>sm_journal := drain_loop (sm_total_recorded m) watermark (sm_journal m)\<rparr>"

record tenant_occupancy =
  to_tenant :: tenant_id
  to_occupied :: u32
  to_peak :: u32

record occupancy_snapshot =
  os_per_tenant :: "tenant_occupancy list"
  os_journal_len :: nat
  os_journal_dropped :: u64

definition snapshot_occupied :: "(tenant_id, u32) hmap \<Rightarrow> (tenant_id, tenant_occupancy) hmap" where
  "snapshot_occupied occ =
     fold (\<lambda>(t, n). hm_insert t \<lparr>to_tenant = t, to_occupied = n, to_peak = 0\<rparr>) occ []"

definition snapshot_peak ::
  "(tenant_id, u32) hmap \<Rightarrow> (tenant_id, tenant_occupancy) hmap \<Rightarrow> (tenant_id, tenant_occupancy) hmap" where
  "snapshot_peak pk acc =
     fold (\<lambda>(t, n) acc. case hm_get acc t of
              Some e \<Rightarrow> hm_insert t (e\<lparr>to_peak := n\<rparr>) acc
            | None \<Rightarrow> hm_insert t \<lparr>to_tenant = t, to_occupied = 0, to_peak = n\<rparr> acc) pk acc"

definition occupancy_snapshot_of :: "slot_meter \<Rightarrow> occupancy_snapshot" where
  "occupancy_snapshot_of m =
     \<lparr>os_per_tenant = hm_values (sort_key fst (snapshot_peak (sm_peak m) (snapshot_occupied (sm_occupied m)))),
      os_journal_len = length (sm_journal m),
      os_journal_dropped = sm_journal_dropped m\<rparr>"


section \<open>The event sink\<close>

fun kind_to_db :: "slot_event_kind \<Rightarrow> string" where
  "kind_to_db SlotAcquired = ''acquired''"
| "kind_to_db SlotReleased = ''released''"
| "kind_to_db SlotExpired = ''expired''"
| "kind_to_db SlotCrashed = ''crashed''"

type_synonym event_key = "tenant_id \<times> string \<times> string \<times> u64"

definition event_key_of :: "slot_event \<Rightarrow> event_key" where
  "event_key_of ev = (se_tenant ev, se_lease_id ev, kind_to_db (se_kind ev), se_at_ms ev)"

text \<open>The in-memory sink is the set of keys it has seen. Its \<open>persist\<close> cannot fail.\<close>

fun mem_persist_loop :: "slot_event list \<Rightarrow> nat \<Rightarrow> event_key set \<Rightarrow> nat \<times> event_key set" where
  "mem_persist_loop [] inserted seen = (inserted, seen)"
| "mem_persist_loop (ev # evs) inserted seen =
     (if event_key_of ev \<in> seen then mem_persist_loop evs inserted seen
      else mem_persist_loop evs (inserted + 1) (insert (event_key_of ev) seen))"

definition mem_persist :: "slot_event list \<Rightarrow> u64 \<Rightarrow> ('e, nat, event_key set) op" where
  "mem_persist evs exported_at_ms seen =
     (let (n, seen') = mem_persist_loop evs 0 seen in (Inr n, seen'))"

definition mem_sink_contains :: "event_key set \<Rightarrow> slot_event \<Rightarrow> bool" where
  "mem_sink_contains seen ev \<longleftrightarrow> event_key_of ev \<in> seen"

definition mem_sink_len :: "event_key set \<Rightarrow> nat" where
  "mem_sink_len seen = card seen"


section \<open>The export loop\<close>

text \<open>One exporter runs per process, so at most one window is in flight. A tick takes its window in one
  critical section, persists it without the meter lock, and drains the window in a second critical
  section; slot events recorded in between are separate steps. A \<open>persist\<close> that panics is caught by the loop's
  \<open>catch_unwind\<close> and ends the tick there.\<close>

datatype sink_error = PersistErr string | PersistPanic

type_synonym 's sink_persist = "slot_event list \<Rightarrow> u64 \<Rightarrow> (sink_error, nat, 's) op"

record export_window =
  ew_events :: "slot_event list"
  ew_watermark :: u64
  ew_dropped :: u64

record 's exporter =
  ex_meter :: slot_meter
  ex_sink :: 's
  ex_window :: "export_window option"
  ex_prev_dropped :: u64
  ex_alarms :: "u64 list"

definition exporter_new :: "'s \<Rightarrow> 's exporter" where
  "exporter_new s = \<lparr>ex_meter = slot_meter_new, ex_sink = s, ex_window = None, ex_prev_dropped = 0, ex_alarms = []\<rparr>"

datatype exporter_event = Emit slot_event | TakeWindow | PersistWindow u64

definition take_window :: "'s exporter \<Rightarrow> 's exporter" where
  "take_window x = x\<lparr>ex_window := Some \<lparr>ew_events = sm_journal (ex_meter x),
     ew_watermark = export_watermark (ex_meter x), ew_dropped = sm_journal_dropped (ex_meter x)\<rparr>\<rparr>"

definition raise_alarm :: "export_window \<Rightarrow> 's exporter \<Rightarrow> 's exporter" where
  "raise_alarm w x =
     (let dropped_delta = sat_sub (ew_dropped w) (ex_prev_dropped x);
          x' = x\<lparr>ex_prev_dropped := ew_dropped w\<rparr>
      in if dropped_delta > 0 then x'\<lparr>ex_alarms := ex_alarms x' @ [dropped_delta]\<rparr> else x')"

definition persist_window :: "'s sink_persist \<Rightarrow> u64 \<Rightarrow> export_window \<Rightarrow> 's exporter \<Rightarrow> 's exporter" where
  "persist_window persist now w x =
     (let (r, s') = persist (ew_events w) now (ex_sink x); x1 = x\<lparr>ex_sink := s', ex_window := None\<rparr> in
      case r of
        Inl PersistPanic \<Rightarrow> x1
      | Inl (PersistErr e) \<Rightarrow> raise_alarm w x1
      | Inr n \<Rightarrow> raise_alarm w (x1\<lparr>ex_meter := drain_through (ew_watermark w) (ex_meter x1)\<rparr>))"

fun export_step :: "'s sink_persist \<Rightarrow> exporter_event \<Rightarrow> 's exporter \<Rightarrow> 's exporter" where
  "export_step persist (Emit ev) x = x\<lparr>ex_meter := sm_record ev (ex_meter x)\<rparr>"
| "export_step persist TakeWindow x = (if ex_window x = None then take_window x else x)"
| "export_step persist (PersistWindow now) x =
     (case ex_window x of None \<Rightarrow> x | Some w \<Rightarrow> persist_window persist now w x)"

definition export_run :: "'s sink_persist \<Rightarrow> exporter_event list \<Rightarrow> 's exporter \<Rightarrow> 's exporter" where
  "export_run persist steps x = fold (export_step persist) steps x"

fun emitted :: "exporter_event list \<Rightarrow> slot_event list" where
  "emitted [] = []"
| "emitted (Emit ev # steps) = ev # emitted steps"
| "emitted (s # steps) = emitted steps"


section \<open>Occupancy\<close>

text \<open>The reading of the meter that the docs give: acquisitions less frees, over one tenant's events.\<close>

definition acquires :: "tenant_id \<Rightarrow> slot_event list \<Rightarrow> nat" where
  "acquires t evs = length (filter (\<lambda>e. se_tenant e = t \<and> se_kind e = SlotAcquired) evs)"

definition frees :: "tenant_id \<Rightarrow> slot_event list \<Rightarrow> nat" where
  "frees t evs = length (filter (\<lambda>e. se_tenant e = t \<and> se_kind e \<noteq> SlotAcquired) evs)"

definition open_slots :: "tenant_id \<Rightarrow> slot_event list \<Rightarrow> nat" where
  "open_slots t evs = acquires t evs - frees t evs"

definition record_events :: "slot_event list \<Rightarrow> slot_meter \<Rightarrow> slot_meter" where
  "record_events evs m = fold sm_record evs m"

lemma record_events_snoc: "record_events (evs @ [e]) m = sm_record e (record_events evs m)"
  by (simp add: record_events_def)

lemma sm_record_counts [simp]:
  "sm_occupied (sm_record ev m) = sm_occupied (meter_slot ev m)"
  "sm_peak (sm_record ev m) = sm_peak (meter_slot ev m)"
  by (simp_all add: sm_record_def journal_slot_def Let_def)

lemma meter_slot_journal [simp]:
  "sm_journal (meter_slot ev m) = sm_journal m"
  "sm_journal_dropped (meter_slot ev m) = sm_journal_dropped m"
  "sm_total_recorded (meter_slot ev m) = sm_total_recorded m"
  by (simp_all add: meter_slot_def Let_def split: slot_event_kind.split)

lemma occupied_record:
  "occupied (sm_record ev m) t =
     (if se_tenant ev \<noteq> t then occupied m t
      else if se_kind ev = SlotAcquired then sat_add (occupied m t) 1 else sat_sub (occupied m t) 1)"
  by (simp add: occupied_def meter_slot_def Let_def sm_count_def split: slot_event_kind.split)

lemma peak_record:
  "peak (sm_record ev m) t =
     (if se_tenant ev = t \<and> se_kind ev = SlotAcquired
      then max (peak m t) (sat_add (occupied m t) 1) else peak m t)"
  by (simp add: occupied_def peak_def meter_slot_def Let_def sm_count_def split: slot_event_kind.split)

text \<open>A stream of one tenant's events is disciplined when no slot is freed that was not acquired before
  it: every prefix has at least as many acquisitions as frees.\<close>

definition disciplined :: "tenant_id \<Rightarrow> slot_event list \<Rightarrow> bool" where
  "disciplined t evs \<longleftrightarrow> (\<forall>k \<le> length evs. frees t (take k evs) \<le> acquires t (take k evs))"

lemma disciplined_snocD: "disciplined t (evs @ [e]) \<Longrightarrow> disciplined t evs"
  unfolding disciplined_def by (metis (no_types, lifting) le_SucI length_append_singleton take_append take_eq_Nil diff_is_0_eq' append_Nil2)

lemma disciplined_le: "disciplined t evs \<Longrightarrow> frees t evs \<le> acquires t evs"
  unfolding disciplined_def by (metis order_refl take_all)

lemma counts_snoc:
  "acquires t (evs @ [e]) = acquires t evs + (if se_tenant e = t \<and> se_kind e = SlotAcquired then 1 else 0)"
  "frees t (evs @ [e]) = frees t evs + (if se_tenant e = t \<and> se_kind e \<noteq> SlotAcquired then 1 else 0)"
  by (simp_all add: acquires_def frees_def)

lemma counts_Nil [simp]: "acquires t [] = 0" "frees t [] = 0"
  by (simp_all add: acquires_def frees_def)

definition open_peak :: "tenant_id \<Rightarrow> slot_event list \<Rightarrow> nat" where
  "open_peak t evs = linorder_class.Max ((\<lambda>k. open_slots t (take k evs)) ` {..length evs})"

lemma open_peak_snoc: "open_peak t (evs @ [e]) = max (open_slots t (evs @ [e])) (open_peak t evs)"
proof -
  have "(\<lambda>k. open_slots t (take k (evs @ [e]))) ` {..length evs} = (\<lambda>k. open_slots t (take k evs)) ` {..length evs}"
    by (intro image_cong) auto
  then have "(\<lambda>k. open_slots t (take k (evs @ [e]))) ` {..length (evs @ [e])}
      = insert (open_slots t (evs @ [e])) ((\<lambda>k. open_slots t (take k evs)) ` {..length evs})"
    by (simp add: atMost_Suc del: take_append)
  then show ?thesis unfolding open_peak_def by (simp del: take_append)
qed

lemma open_slots_le_peak: "open_slots t evs \<le> open_peak t evs"
proof (cases evs rule: rev_cases)
  case Nil
  then show ?thesis by (simp add: open_peak_def)
next
  case (snoc ys y)
  then show ?thesis by (simp add: open_peak_snoc)
qed

lemma meter_occupancy:
  assumes "disciplined t evs" and "acquires t evs < 2 ^ 32"
  shows "unat (occupied (record_events evs slot_meter_new) t) = open_slots t evs \<and>
         unat (peak (record_events evs slot_meter_new) t) = open_peak t evs"
  using assms
proof (induction evs rule: rev_induct)
  case Nil
  show ?case
    by (simp add: record_events_def slot_meter_new_def occupied_def peak_def sm_count_def open_slots_def open_peak_def)
next
  case (snoc e evs)
  let ?m = "record_events evs slot_meter_new"
  have IH: "unat (occupied ?m t) = open_slots t evs" "unat (peak ?m t) = open_peak t evs"
    using snoc.IH disciplined_snocD [OF snoc.prems(1)] snoc.prems(2)
    by (simp_all add: counts_snoc split: if_splits)
  note le = disciplined_le [OF snoc.prems(1)] disciplined_le [OF disciplined_snocD [OF snoc.prems(1)]]
  have bound: "acquires t evs + (if se_tenant e = t \<and> se_kind e = SlotAcquired then 1 else 0) < 4294967296"
    using snoc.prems(2) by (simp add: counts_snoc)
  have occ: "unat (occupied (sm_record e ?m) t) = open_slots t (evs @ [e])"
    using le bound by (auto simp: occupied_record unat_sat_add unat_sat_sub IH open_slots_def counts_snoc)
  have pk: "unat (peak (sm_record e ?m) t) = open_peak t (evs @ [e])"
  proof (cases "se_tenant e = t \<and> se_kind e = SlotAcquired")
    case True
    then show ?thesis using occ
      by (simp add: peak_record occupied_record unat_max_word IH open_peak_snoc max.commute)
  next
    case False
    then have "open_slots t (evs @ [e]) \<le> open_slots t evs" by (auto simp: open_slots_def counts_snoc)
    with open_slots_le_peak [of t evs] False show ?thesis
      by (auto simp: peak_record IH open_peak_snoc)
  qed
  show ?case using occ pk by (simp add: record_events_snoc)
qed


section \<open>The snapshot\<close>

lemma snapshot_occupied_get:
  assumes "hm_wf occ"
  shows "hm_wf (snapshot_occupied occ) \<and>
    hm_get (snapshot_occupied occ) t = map_option (\<lambda>n. \<lparr>to_tenant = t, to_occupied = n, to_peak = 0\<rparr>) (hm_get occ t)"
proof -
  let ?f = "\<lambda>(t, n). hm_insert t \<lparr>to_tenant = t, to_occupied = n, to_peak = 0\<rparr>"
  have "hm_wf (fold ?f occ acc) \<and> hm_get (fold ?f occ acc) t =
      (case hm_get occ t of Some n \<Rightarrow> Some \<lparr>to_tenant = t, to_occupied = n, to_peak = 0\<rparr> | None \<Rightarrow> hm_get acc t)"
    if "hm_wf acc" for acc
    using assms that
  proof (induction occ arbitrary: acc)
    case (Cons p occ)
    obtain u n where p: "p = (u, n)" by (cases p)
    have none: "hm_get occ u = None" using Cons.prems(1) by (simp add: p map_of_eq_None_iff)
    have wf: "hm_wf occ" using Cons.prems(1) by (simp add: p)
    show ?case using Cons.IH [OF wf hm_wf_insert [OF Cons.prems(2)], of u] none
      by (cases "u = t"; cases "hm_get occ t") (simp_all add: p del: map_of_eq_Some_iff)
  qed simp
  from this [of "[]"] show ?thesis by (simp add: snapshot_occupied_def split: option.split)
qed

lemma snapshot_peak_get:
  assumes "hm_wf pk" and "hm_wf acc"
  shows "hm_wf (snapshot_peak pk acc) \<and>
    hm_get (snapshot_peak pk acc) t =
      (case hm_get pk t of None \<Rightarrow> hm_get acc t
       | Some n \<Rightarrow> Some (case hm_get acc t of Some e \<Rightarrow> e\<lparr>to_peak := n\<rparr>
                        | None \<Rightarrow> \<lparr>to_tenant = t, to_occupied = 0, to_peak = n\<rparr>))"
  using assms
proof (induction pk arbitrary: acc)
  case (Cons p pk)
  obtain u n where p: "p = (u, n)" by (cases p)
  define acc' where "acc' = (case hm_get acc u of Some e \<Rightarrow> hm_insert u (e\<lparr>to_peak := n\<rparr>) acc
     | None \<Rightarrow> hm_insert u \<lparr>to_tenant = u, to_occupied = 0, to_peak = n\<rparr> acc)"
  have step: "snapshot_peak (p # pk) acc = snapshot_peak pk acc'" by (simp add: snapshot_peak_def p acc'_def)
  have wf: "hm_wf acc'" using Cons.prems(2) by (simp add: acc'_def split: option.split)
  have none: "hm_get pk u = None" and wfp: "hm_wf pk" using Cons.prems(1) by (simp_all add: p map_of_eq_None_iff)
  have get: "hm_get acc' t = (if t = u then Some (case hm_get acc u of Some e \<Rightarrow> e\<lparr>to_peak := n\<rparr>
      | None \<Rightarrow> \<lparr>to_tenant = u, to_occupied = 0, to_peak = n\<rparr>) else hm_get acc t)"
    by (cases "hm_get acc u") (simp_all add: acc'_def del: map_of_eq_Some_iff)
  show ?case unfolding step using Cons.IH [OF wfp wf] none
    by (cases "u = t"; cases "hm_get pk t"; cases "hm_get acc t") (simp_all add: get p del: map_of_eq_Some_iff)
qed (simp add: snapshot_peak_def)

text \<open>The snapshot lists every tenant ever metered once, in tenant order, with its two readings.\<close>

lemma snapshot_reads:
  assumes "hm_wf (sm_occupied m)" and "hm_wf (sm_peak m)"
  shows "os_per_tenant (occupancy_snapshot_of m) =
    map (\<lambda>t. \<lparr>to_tenant = t, to_occupied = occupied m t, to_peak = peak m t\<rparr>)
      (sorted_list_of_set (hm_keys (sm_occupied m) \<union> hm_keys (sm_peak m)))"
proof -
  define acc where "acc = snapshot_peak (sm_peak m) (snapshot_occupied (sm_occupied m))"
  note oc = snapshot_occupied_get [OF assms(1)]
  have wf: "hm_wf acc" using snapshot_peak_get [OF assms(2)] oc by (simp add: acc_def)
  have get: "hm_get acc t = (if hm_get (sm_occupied m) t = None \<and> hm_get (sm_peak m) t = None then None
     else Some \<lparr>to_tenant = t, to_occupied = occupied m t, to_peak = peak m t\<rparr>)" for t
    using snapshot_peak_get [OF assms(2) oc [THEN conjunct1], of t] oc [of t]
    by (cases "hm_get (sm_occupied m) t"; cases "hm_get (sm_peak m) t")
       (simp_all add: acc_def occupied_def peak_def sm_count_def del: map_of_eq_Some_iff)
  have keys: "hm_keys acc = hm_keys (sm_occupied m) \<union> hm_keys (sm_peak m)"
    unfolding dom_map_of_conv_image_fst [symmetric] using get by (auto simp: dom_def simp del: map_of_eq_Some_iff split: if_splits)
  have "map fst (sort_key fst acc) = sorted_list_of_set (hm_keys acc)"
    using wf by (intro sorted_distinct_set_unique) (simp_all add: distinct_map inj_on_def)
  moreover have "snd p = \<lparr>to_tenant = fst p, to_occupied = occupied m (fst p), to_peak = peak m (fst p)\<rparr>"
    if "p \<in> set (sort_key fst acc)" for p
    using get [of "fst p"] map_of_is_SomeI [OF wf, of "fst p" "snd p"] that
    by (simp del: map_of_eq_Some_iff split: if_splits)
  then have "map snd (sort_key fst acc)
      = map (\<lambda>t. \<lparr>to_tenant = t, to_occupied = occupied m t, to_peak = peak m t\<rparr>) (map fst (sort_key fst acc))"
    by simp
  ultimately show ?thesis
    by (simp only: occupancy_snapshot_of_def hm_values_def acc_def [symmetric] keys occupancy_snapshot.simps)
qed


section \<open>The journal as a window on the history\<close>

definition front :: "slot_event list \<Rightarrow> slot_meter \<Rightarrow> nat" where
  "front H m = length H - length (sm_journal m)"

definition journals :: "slot_event list \<Rightarrow> slot_meter \<Rightarrow> bool" where
  "journals H m \<longleftrightarrow> length (sm_journal m) \<le> length H \<and> length (sm_journal m) \<le> JOURNAL_CAP \<and>
     sm_journal m = drop (front H m) H \<and> sm_total_recorded m = of_nat (length H)"

lemma journals_new: "journals [] slot_meter_new"
  by (simp add: journals_def slot_meter_new_def front_def)

lemma sm_record_journal:
  "sm_journal (sm_record e m)
     = (if length (sm_journal m) \<ge> JOURNAL_CAP then tl (sm_journal m) else sm_journal m) @ [e]"
  "sm_journal_dropped (sm_record e m)
     = (if length (sm_journal m) \<ge> JOURNAL_CAP then sm_journal_dropped m + 1 else sm_journal_dropped m)"
  "sm_total_recorded (sm_record e m) = sat_add (sm_total_recorded m) 1"
  by (simp_all add: sm_record_def journal_slot_def Let_def)

lemma sat_add_of_nat_Suc:
  assumes "n + 1 < 2 ^ 64"
  shows "sat_add (of_nat n :: u64) 1 = of_nat (Suc n)"
proof -
  have "unat (of_nat n :: u64) = n" "unat (of_nat (Suc n) :: u64) = Suc n"
    using assms by (simp_all add: unsigned_of_nat take_bit_nat_eq_self del: of_nat_Suc)
  then have "unat (sat_add (of_nat n :: u64) 1) = unat (of_nat (Suc n) :: u64)"
    using assms by (simp add: unat_sat_add del: of_nat_Suc)
  then show ?thesis by (simp only: word_unat_eq_iff)
qed

lemma front_record:
  assumes "journals H m"
  shows "front (H @ [e]) (sm_record e m)
           = (if length (sm_journal m) \<ge> JOURNAL_CAP then Suc (front H m) else front H m)"
  using assms by (auto simp: journals_def front_def sm_record_journal JOURNAL_CAP_def)

lemma journals_record:
  assumes "journals H m" and "length H + 1 < 2 ^ 64"
  shows "journals (H @ [e]) (sm_record e m)"
proof -
  have j: "sm_journal m = drop (front H m) H" and len: "length (sm_journal m) \<le> length H"
    "length (sm_journal m) \<le> JOURNAL_CAP" and total: "sm_total_recorded m = of_nat (length H)"
    using assms(1) unfolding journals_def by blast+
  have f: "front H m \<le> length H" by (simp add: front_def)
  have "sm_journal (sm_record e m) = drop (front (H @ [e]) (sm_record e m)) (H @ [e])"
  proof (cases "JOURNAL_CAP \<le> length (sm_journal m)")
    case True
    with len have "0 < length (sm_journal m)" by (simp add: JOURNAL_CAP_def)
    then have "Suc (front H m) \<le> length H" using len(1) unfolding front_def by linarith
    moreover have "tl (sm_journal m) = drop (Suc (front H m)) H" by (subst j) (simp add: tl_drop drop_Suc)
    ultimately show ?thesis using True by (simp add: sm_record_journal front_record [OF assms(1)])
  next
    case False
    then show ?thesis using f j by (simp add: sm_record_journal front_record [OF assms(1)])
  qed
  moreover have "sm_total_recorded (sm_record e m) = of_nat (length (H @ [e]))"
    by (simp only: sm_record_journal total length_append_singleton sat_add_of_nat_Suc [OF assms(2)])
  moreover have "length (sm_journal (sm_record e m)) \<le> length (H @ [e])"
    "length (sm_journal (sm_record e m)) \<le> JOURNAL_CAP"
    using len by (auto simp: sm_record_journal JOURNAL_CAP_def)
  ultimately show ?thesis by (simp add: journals_def)
qed

lemma of_nat_u64_less: "f < 2 ^ 64 \<Longrightarrow> w < 2 ^ 64 \<Longrightarrow> ((of_nat f :: u64) < of_nat w) \<longleftrightarrow> f < w"
  by (simp add: word_less_nat_alt unsigned_of_nat take_bit_nat_eq_self)

lemma drain_loop_eq:
  assumes "n = f + length js" and "n < 2 ^ 64" and "w \<le> n"
  shows "drain_loop (of_nat n) (of_nat w) js = drop (w - f) js"
  using assms
proof (induction js arbitrary: f)
  case (Cons e js)
  have "(of_nat n :: u64) - of_nat (length (e # js)) = of_nat f"
    by (simp only: Cons.prems(1) of_nat_add add_diff_cancel_right')
  moreover have "(of_nat f < (of_nat w :: u64)) \<longleftrightarrow> f < w"
    using Cons.prems by (intro of_nat_u64_less) simp_all
  ultimately have "(of_nat n - of_nat (length (e # js)) < (of_nat w :: u64)) \<longleftrightarrow> f < w" by (simp only:)
  then have step: "drain_loop (of_nat n) (of_nat w) (e # js)
      = (if f < w then drain_loop (of_nat n) (of_nat w) js else e # js)"
    by (simp only: drain_loop.simps)
  show ?case
  proof (cases "f < w")
    case True
    have IH: "drain_loop (of_nat n) (of_nat w) js = drop (w - Suc f) js"
      by (rule Cons.IH) (use Cons.prems in simp_all)
    from True have "w - f = Suc (w - Suc f)" by simp
    then show ?thesis by (simp only: step True if_True IH drop_Suc_Cons)
  next
    case False
    with step show ?thesis by (simp del: drain_loop.simps)
  qed
qed simp

lemma journals_drain:
  assumes "journals H m" and "length H < 2 ^ 64" and "w \<le> length H"
  shows "journals H (drain_through (of_nat w) m) \<and> front H (drain_through (of_nat w) m) = max (front H m) w"
proof -
  have "drain_loop (of_nat (length H)) (of_nat w) (sm_journal m) = drop (w - front H m) (sm_journal m)"
    by (rule drain_loop_eq) (use assms in \<open>simp_all add: journals_def front_def\<close>)
  then have j: "sm_journal (drain_through (of_nat w) m) = drop (w - front H m) (sm_journal m)"
    using assms(1) by (simp add: drain_through_def journals_def)
  have f: "front H (drain_through (of_nat w) m) = max (front H m) w"
    using assms by (auto simp: front_def j journals_def max_def)
  have "drop (w - front H m) (sm_journal m) = drop (max (front H m) w) H"
  proof -
    have "sm_journal m = drop (front H m) H" using assms(1) by (simp add: journals_def)
    then have "drop (w - front H m) (sm_journal m) = drop (w - front H m) (drop (front H m) H)" by (rule arg_cong)
    then show ?thesis by (cases "front H m \<le> w") (simp_all add: max_def)
  qed
  with f j have "sm_journal (drain_through (of_nat w) m) = drop (front H (drain_through (of_nat w) m)) H" by simp
  moreover have "length (sm_journal (drain_through (of_nat w) m)) \<le> length (sm_journal m)" by (simp add: j)
  moreover have "sm_total_recorded (drain_through (of_nat w) m) = sm_total_recorded m" by (simp add: drain_through_def)
  ultimately have "journals H (drain_through (of_nat w) m)"
    using assms(1) unfolding journals_def by (metis order_trans)
  with f show ?thesis by (intro conjI)
qed


section \<open>Accounting for every event\<close>

text \<open>Events that left the journal before they reached the sink.\<close>

definition unpersisted :: "('s \<Rightarrow> slot_event \<Rightarrow> bool) \<Rightarrow> slot_event list \<Rightarrow> 's exporter \<Rightarrow> slot_event list" where
  "unpersisted contains H x = filter (\<lambda>e. \<not> contains (ex_sink x) e) (take (front H (ex_meter x)) H)"

definition window_ok :: "slot_event list \<Rightarrow> 's exporter \<Rightarrow> export_window \<Rightarrow> bool" where
  "window_ok H x w \<longleftrightarrow> (\<exists>a b. a \<le> front H (ex_meter x) \<and> b \<le> length H \<and> ew_events w = drop a (take b H) \<and>
     ew_watermark w = of_nat b) \<and> ex_prev_dropped x \<le> ew_dropped w \<and> ew_dropped w \<le> sm_journal_dropped (ex_meter x)"

definition export_inv :: "('s \<Rightarrow> slot_event \<Rightarrow> bool) \<Rightarrow> slot_event list \<Rightarrow> 's exporter \<Rightarrow> bool" where
  "export_inv contains H x \<longleftrightarrow> journals H (ex_meter x) \<and>
     length (unpersisted contains H x) \<le> unat (sm_journal_dropped (ex_meter x)) \<and>
     unat (sm_journal_dropped (ex_meter x)) \<le> front H (ex_meter x) \<and>
     (\<forall>e. contains (ex_sink x) e \<longrightarrow> event_key_of e \<in> event_key_of ` set H) \<and>
     unat (ex_prev_dropped x) = sum_list (map unat (ex_alarms x)) \<and>
     ex_prev_dropped x \<le> sm_journal_dropped (ex_meter x) \<and>
     (\<forall>w. ex_window x = Some w \<longrightarrow> window_ok H x w)"


lemma raise_alarm_sink [simp]: "ex_sink (raise_alarm w x) = ex_sink x"
  by (simp add: raise_alarm_def Let_def)


section \<open>The contract of a sink\<close>

text \<open>What the exporter relies on: a successful \<open>persist\<close> adds exactly the keys of its batch, and a
  failed or panicked one drops nothing and adds at most some of them.\<close>

locale billing_sink =
  fixes persist :: "'s sink_persist" and contains :: "'s \<Rightarrow> slot_event \<Rightarrow> bool"
  assumes persist_ok: "persist evs now s = (Inr n, s') \<Longrightarrow>
      contains s' e \<longleftrightarrow> contains s e \<or> event_key_of e \<in> event_key_of ` set evs"
    and persist_keeps: "persist evs now s = (Inl x, s') \<Longrightarrow> contains s e \<Longrightarrow> contains s' e"
    and persist_sound: "persist evs now s = (Inl x, s') \<Longrightarrow> contains s' e \<Longrightarrow>
      contains s e \<or> event_key_of e \<in> event_key_of ` set evs"
begin

lemma persist_mono: "persist evs now s = (r, s') \<Longrightarrow> contains s e \<Longrightarrow> contains s' e"
  using persist_ok persist_keeps by (cases r) auto

lemma persist_within:
  "persist evs now s = (r, s') \<Longrightarrow> contains s' e \<Longrightarrow> contains s e \<or> event_key_of e \<in> event_key_of ` set evs"
  using persist_ok persist_sound by (cases r) auto

lemma export_inv_new:
  "(\<And>e. \<not> contains s e) \<Longrightarrow> export_inv contains [] (exporter_new s)"
  using journals_new
  by (simp add: export_inv_def exporter_new_def unpersisted_def front_def) (simp add: slot_meter_new_def)

lemma export_inv_take:
  assumes "export_inv contains H x"
  shows "export_inv contains H (take_window x)"
proof -
  have j: "sm_journal (ex_meter x) = drop (front H (ex_meter x)) H"
    and t: "sm_total_recorded (ex_meter x) = of_nat (length H)"
    using assms unfolding export_inv_def journals_def by blast+
  have "window_ok H (take_window x) \<lparr>ew_events = sm_journal (ex_meter x),
      ew_watermark = export_watermark (ex_meter x), ew_dropped = sm_journal_dropped (ex_meter x)\<rparr>"
    unfolding window_ok_def using assms j t
    by (intro conjI exI [of _ "front H (ex_meter x)"] exI [of _ "length H"])
       (simp_all add: take_window_def export_watermark_def export_inv_def)
  with assms show ?thesis by (simp add: export_inv_def take_window_def unpersisted_def)
qed

lemma export_inv_emit:
  assumes inv: "export_inv contains H x" and len: "length H + 1 < 2 ^ 64"
  shows "export_inv contains (H @ [e]) (x\<lparr>ex_meter := sm_record e (ex_meter x)\<rparr>)"
proof -
  let ?m = "ex_meter x" and ?m' = "sm_record e (ex_meter x)"
  have j: "journals H ?m" using inv by (simp add: export_inv_def)
  have fr: "front H ?m \<le> length H" by (simp add: front_def)
  have d: "unat (sm_journal_dropped ?m) \<le> front H ?m" using inv by (simp add: export_inv_def)
  have step: "unat (sm_journal_dropped ?m') + front H ?m = unat (sm_journal_dropped ?m) + front (H @ [e]) ?m'"
  proof (cases "JOURNAL_CAP \<le> length (sm_journal ?m)")
    case True
    have "unat (sm_journal_dropped ?m) + 1 < 2 ^ 64" using d fr len by simp
    then have "unat (sm_journal_dropped ?m + 1) = unat (sm_journal_dropped ?m) + 1"
      by (simp add: unat_word_ariths)
    with True show ?thesis by (simp add: sm_record_journal front_record [OF j])
  qed (simp add: sm_record_journal front_record [OF j])
  have grow: "front H ?m \<le> front (H @ [e]) ?m'" by (simp add: front_record [OF j])
  then have dd: "sm_journal_dropped ?m \<le> sm_journal_dropped ?m'" using step by (simp add: word_le_nat_alt)
  define k where "k = front (H @ [e]) ?m' - front H ?m"
  have "take (front H ?m + k) (H @ [e]) = take (front H ?m) H @ take k (drop (front H ?m) (H @ [e]))"
    unfolding take_add using fr by simp
  then have "take (front (H @ [e]) ?m') (H @ [e]) = take (front H ?m) H @ take k (drop (front H ?m) (H @ [e]))"
    using grow by (simp only: k_def le_add_diff_inverse)
  then have split: "unpersisted contains (H @ [e]) (x\<lparr>ex_meter := ?m'\<rparr>)
      = unpersisted contains H x @ filter (\<lambda>e. \<not> contains (ex_sink x) e) (take k (drop (front H ?m) (H @ [e])))"
    unfolding unpersisted_def by (simp del: take_append)
  have "length (filter P (take k ys)) \<le> k" for P and ys :: "slot_event list"
    using length_filter_le [of P "take k ys"] by simp
  then have "length (unpersisted contains (H @ [e]) (x\<lparr>ex_meter := ?m'\<rparr>)) \<le> length (unpersisted contains H x) + k"
    unfolding split length_append by (rule add_left_mono)
  moreover have "length (unpersisted contains H x) \<le> unat (sm_journal_dropped ?m)" using inv by (simp add: export_inv_def)
  ultimately have loss: "length (unpersisted contains (H @ [e]) (x\<lparr>ex_meter := ?m'\<rparr>)) \<le> unat (sm_journal_dropped ?m')"
    using step grow unfolding k_def by linarith
  have win: "window_ok (H @ [e]) (x\<lparr>ex_meter := ?m'\<rparr>) w" if "ex_window x = Some w" for w
  proof -
    have "window_ok H x w" using inv that by (simp add: export_inv_def)
    then obtain a b where ab: "a \<le> front H ?m" "b \<le> length H" "ew_events w = drop a (take b H)" "ew_watermark w = of_nat b"
      and p: "ex_prev_dropped x \<le> ew_dropped w" "ew_dropped w \<le> sm_journal_dropped ?m"
      unfolding window_ok_def by blast
    then show ?thesis unfolding window_ok_def using grow dd
      by (intro conjI exI [of _ a] exI [of _ b]) (auto intro: order_trans)
  qed
  have "unat (sm_journal_dropped ?m') \<le> front (H @ [e]) ?m'" using step d by linarith
  moreover have "ex_prev_dropped x \<le> sm_journal_dropped ?m'"
    using inv dd unfolding export_inv_def by (meson order_trans)
  moreover have "event_key_of z \<in> event_key_of ` set (H @ [e])" if "contains (ex_sink x) z" for z
    using inv that by (simp add: export_inv_def)
  ultimately show ?thesis
    using inv journals_record [OF j len] loss win by (simp add: export_inv_def)
qed

lemma export_inv_persist:
  assumes inv: "export_inv contains H x" and w: "ex_window x = Some w" and len: "length H < 2 ^ 64"
  shows "export_inv contains H (persist_window persist now w x)"
proof -
  let ?m = "ex_meter x"
  obtain r s' where p: "persist (ew_events w) now (ex_sink x) = (r, s')" by (cases "persist (ew_events w) now (ex_sink x)")
  have j: "journals H ?m" and loss: "length (unpersisted contains H x) \<le> unat (sm_journal_dropped ?m)"
    and dropped: "unat (sm_journal_dropped ?m) \<le> front H ?m"
    and sound: "\<And>e. contains (ex_sink x) e \<Longrightarrow> event_key_of e \<in> event_key_of ` set H"
    and win: "window_ok H x w" and alarms: "unat (ex_prev_dropped x) = sum_list (map unat (ex_alarms x))"
    and prev: "ex_prev_dropped x \<le> sm_journal_dropped ?m"
    using inv w by (auto simp: export_inv_def)
  obtain a b where ab: "a \<le> front H ?m" "b \<le> length H" "ew_events w = drop a (take b H)" "ew_watermark w = of_nat b"
    and d: "ex_prev_dropped x \<le> ew_dropped w" "ew_dropped w \<le> sm_journal_dropped ?m"
    using win unfolding window_ok_def by blast
  have sub: "set (ew_events w) \<subseteq> set H" using ab(3) by (metis set_drop_subset set_take_subset subset_trans)
  have sound': "event_key_of e \<in> event_key_of ` set H" if "contains s' e" for e
    using persist_within [OF p that] sound sub by blast
  define x1 where "x1 = x\<lparr>ex_sink := s', ex_window := None\<rparr>"
  have fewer: "filter (\<lambda>e. \<not> contains s' e) ys = filter (\<lambda>e. \<not> contains s' e) (filter (\<lambda>e. \<not> contains (ex_sink x) e) ys)" for ys
    using persist_mono [OF p] by (induction ys) auto
  have keep: "length (unpersisted contains H x1) \<le> length (unpersisted contains H x)"
    unfolding unpersisted_def x1_def by simp (subst fewer, rule length_filter_le)
  then have inv1: "export_inv contains H x1"
    using inv sound' by (auto simp: export_inv_def x1_def)
  have alarm: "export_inv contains H (raise_alarm w y)" if "export_inv contains H y" "ex_prev_dropped y = ex_prev_dropped x"
    "ex_alarms y = ex_alarms x" "ex_window y = None" "ew_dropped w \<le> sm_journal_dropped (ex_meter y)" for y
    using that d alarms
    by (auto simp: export_inv_def raise_alarm_def Let_def unpersisted_def unat_sat_sub word_le_nat_alt word_less_nat_alt)
  show ?thesis
  proof (cases r)
    case (Inl e)
    then show ?thesis using inv1 alarm [OF inv1] d p
      by (cases e) (simp_all add: persist_window_def x1_def Let_def)
  next
    case (Inr n)
    define x2 where "x2 = x1\<lparr>ex_meter := drain_through (of_nat b) ?m\<rparr>"
    have jd: "journals H (ex_meter x2)" "front H (ex_meter x2) = max (front H ?m) b"
      using journals_drain [OF j len ab(2)] by (simp_all add: x2_def)
    have same: "sm_journal_dropped (ex_meter x2) = sm_journal_dropped ?m" by (simp add: x2_def drain_through_def)
    have u2: "unpersisted contains H x2 = filter (\<lambda>e. \<not> contains s' e) (take (max (front H ?m) b) H)"
      unfolding unpersisted_def jd(2) by (simp add: x1_def x2_def)
    have u1: "unpersisted contains H x1 = filter (\<lambda>e. \<not> contains s' e) (take (front H ?m) H)"
      by (simp add: unpersisted_def x1_def)
    have "unpersisted contains H x2 = unpersisted contains H x1"
    proof (cases "front H ?m \<le> b")
      case True
      then have split: "take b H = take (front H ?m) H @ drop (front H ?m) (take b H)"
        by (metis append_take_drop_id min.absorb1 take_take)
      have "set (drop (front H ?m) (take b H)) \<subseteq> set (ew_events w)"
        unfolding ab(3) using ab(1) by (rule set_drop_subset_set_drop)
      then have "filter (\<lambda>e. \<not> contains s' e) (drop (front H ?m) (take b H)) = []"
        using persist_ok [of _ _ _ n s'] p Inr by (auto simp: filter_empty_conv)
      then have "filter (\<lambda>e. \<not> contains s' e) (take b H) = filter (\<lambda>e. \<not> contains s' e) (take (front H ?m) H)"
        by (subst split) (simp only: filter_append append_Nil2)
      then show ?thesis using True unfolding u1 u2 by (simp only: max_absorb2)
    next
      case False
      then show ?thesis unfolding u1 u2 by (simp add: max_def)
    qed
    then have "export_inv contains H x2" using inv1 jd same dropped
      by (auto simp: export_inv_def x1_def x2_def)
    then show ?thesis using alarm [of x2] d p Inr same ab(4)
      by (simp add: persist_window_def x2_def x1_def Let_def)
  qed
qed

lemma export_inv_run:
  assumes "export_inv contains H x" and "length H + length (emitted steps) < 2 ^ 64"
  shows "export_inv contains (H @ emitted steps) (export_run persist steps x)"
  using assms
proof (induction steps arbitrary: H x)
  case (Cons st steps)
  have "export_inv contains (H @ emitted [st]) (export_step persist st x)"
  proof (cases st)
    case (Emit ev)
    with Cons.prems show ?thesis using export_inv_emit [of H x ev] by simp
  next
    case TakeWindow
    with Cons.prems(1) show ?thesis by (simp add: export_inv_take)
  next
    case (PersistWindow now)
    have "length H < 2 ^ 64" using Cons.prems(2) by simp
    then show ?thesis using Cons.prems(1) PersistWindow export_inv_persist
      by (auto split: option.split)
  qed
  moreover have e: "emitted (st # steps) = emitted [st] @ emitted steps" by (cases st) simp_all
  ultimately show ?case using Cons.IH [of "H @ emitted [st]" "export_step persist st x"] Cons.prems(2)
    by (simp add: export_run_def)
qed (simp add: export_run_def)

lemma emit_run [simp]:
  "ex_sink (export_run persist (map Emit es) x) = ex_sink x"
  "ex_window (export_run persist (map Emit es) x) = ex_window x"
  unfolding export_run_def by (induction es arbitrary: x) simp_all

lemma tick_persists:
  assumes "ex_window x = None" and "is_ok (fst (persist (sm_journal (ex_meter x)) now (ex_sink x)))"
    and "e \<in> set (sm_journal (ex_meter x))"
  shows "contains (ex_sink (export_run persist (TakeWindow # map Emit es @ [PersistWindow now]) x)) e"
proof -
  obtain n s' where p: "persist (sm_journal (ex_meter x)) now (ex_sink x) = (Inr n, s')"
    using assms(2) by (metis is_ok.elims(2) prod.collapse)
  have run: "export_run persist (TakeWindow # map Emit es @ [PersistWindow now]) x
      = export_step persist (PersistWindow now) (export_run persist (map Emit es) (take_window x))"
    using assms(1) by (simp add: export_run_def)
  show ?thesis unfolding run using p persist_ok [OF p, of e] assms(3)
    by (simp add: take_window_def persist_window_def)
qed

end


section \<open>The in-memory sink\<close>

lemma mem_persist_loop_eq:
  "mem_persist_loop evs n seen =
     (n + card (event_key_of ` set evs - seen), seen \<union> event_key_of ` set evs)"
proof (induction evs arbitrary: n seen)
  case (Cons ev evs)
  have "event_key_of ` set (ev # evs) - seen
      = (if event_key_of ev \<in> seen then event_key_of ` set evs - seen
         else insert (event_key_of ev) (event_key_of ` set evs - insert (event_key_of ev) seen))" by auto
  then show ?case using Cons.IH by auto
qed simp

lemma mem_persist_eq:
  "mem_persist evs now seen = (Inr (card (event_key_of ` set evs - seen)), seen \<union> event_key_of ` set evs)"
  by (simp add: mem_persist_def mem_persist_loop_eq)

interpretation mem_sink: billing_sink mem_persist mem_sink_contains
  by unfold_locales (auto simp: mem_persist_eq mem_sink_contains_def)

lemma kind_to_db_inject: "kind_to_db a = kind_to_db b \<longleftrightarrow> a = b"
  by (cases a; cases b) simp_all

fun persist_all :: "(slot_event list \<times> u64) list \<Rightarrow> event_key set \<Rightarrow> nat list \<times> event_key set" where
  "persist_all [] seen = ([], seen)"
| "persist_all ((evs, now) # bs) seen =
     (case mem_persist evs now seen of
        (r, seen') \<Rightarrow> let (ns, seen'') = persist_all bs seen' in
          ((case r of Inr n \<Rightarrow> n | Inl (e :: sink_error) \<Rightarrow> 0) # ns, seen''))"

lemma persist_all_counts:
  "finite seen \<Longrightarrow> persist_all bs seen = (ns, seen') \<Longrightarrow>
     seen' = seen \<union> event_key_of ` (\<Union>(evs, now) \<in> set bs. set evs) \<and> sum_list ns + card seen = card seen'"
proof (induction bs arbitrary: seen ns)
  case (Cons b bs)
  obtain evs now where b: "b = (evs, now)" by (cases b)
  let ?seen1 = "seen \<union> event_key_of ` set evs"
  obtain ns1 where ns1: "persist_all bs ?seen1 = (ns1, seen')" "ns = card (event_key_of ` set evs - seen) # ns1"
    using Cons.prems(2) by (auto simp: b mem_persist_eq Let_def split: prod.splits)
  have "card ?seen1 = card seen + card (event_key_of ` set evs - seen)"
    using Cons.prems(1) card_Un_disjoint [of seen "event_key_of ` set evs - seen"] by simp
  with Cons.IH [OF _ ns1(1)] Cons.prems(1) ns1(2) show ?case by (auto simp: b)
qed simp


section \<open>Properties\<close>

text \<open>C24: no billable event is lost silently. For every sink that keeps its contract, whatever the
  interleaving of slot events with export ticks and whichever ticks fail or panic: the journal is the
  tail of the history, the events that left it without reaching the sink are at most as many as the
  drop counter says, the sink holds only events that happened, the alarms raised so far never exceed
  the drop counter, and a tick whose write succeeds puts every event then journaled into the sink,
  whatever is recorded while it is writing.\<close>

theorem export_loses_nothing:
  assumes "billing_sink persist contains" and "\<And>e. \<not> contains s0 e" and "length (emitted steps) < 2 ^ 64"
  defines "x \<equiv> export_run persist steps (exporter_new s0)"
  defines "gone \<equiv> length (emitted steps) - length (sm_journal (ex_meter x))"
  shows "sm_journal (ex_meter x) = drop gone (emitted steps) \<and>
    length (filter (\<lambda>e. \<not> contains (ex_sink x) e) (take gone (emitted steps)))
      \<le> unat (sm_journal_dropped (ex_meter x)) \<and>
    (\<forall>e. contains (ex_sink x) e \<longrightarrow> event_key_of e \<in> event_key_of ` set (emitted steps)) \<and>
    sum_list (map unat (ex_alarms x)) \<le> unat (sm_journal_dropped (ex_meter x)) \<and>
    (\<forall>es now. ex_window x = None \<and> is_ok (fst (persist (sm_journal (ex_meter x)) now (ex_sink x))) \<longrightarrow>
       (\<forall>e \<in> set (sm_journal (ex_meter x)).
          contains (ex_sink (export_run persist (TakeWindow # map Emit es @ [PersistWindow now]) x)) e))"
proof -
  have "export_inv contains (emitted steps) x"
    using billing_sink.export_inv_run [OF assms(1) billing_sink.export_inv_new [OF assms(1,2)], of steps] assms(3)
    by (simp add: x_def)
  then have inv: "journals (emitted steps) (ex_meter x)"
    "length (unpersisted contains (emitted steps) x) \<le> unat (sm_journal_dropped (ex_meter x))"
    "\<And>e. contains (ex_sink x) e \<Longrightarrow> event_key_of e \<in> event_key_of ` set (emitted steps)"
    "sum_list (map unat (ex_alarms x)) \<le> unat (sm_journal_dropped (ex_meter x))"
    unfolding export_inv_def by (auto simp: word_le_nat_alt)
  have "sm_journal (ex_meter x) = drop gone (emitted steps)"
    using inv(1) unfolding journals_def front_def gone_def by blast
  then show ?thesis using inv billing_sink.tick_persists [OF assms(1)]
    by (simp add: unpersisted_def front_def gone_def)
qed

text \<open>A sink that refuses its first \<open>k\<close> writes, as a database that is down for a while does.\<close>

fun flaky_persist :: "(nat \<times> event_key set) sink_persist" where
  "flaky_persist evs now (Suc k, seen) = (Inl (PersistErr ''unavailable''), (k, seen))"
| "flaky_persist evs now (0, seen) = (let (r, seen') = mem_persist evs now seen in (r, (0, seen')))"

definition flaky_contains :: "nat \<times> event_key set \<Rightarrow> slot_event \<Rightarrow> bool" where
  "flaky_contains s e = mem_sink_contains (snd s) e"

lemma flaky_sink: "billing_sink flaky_persist flaky_contains"
proof
  fix evs now s n s' e
  assume "flaky_persist evs now s = (Inr n, s')"
  then show "flaky_contains s' e \<longleftrightarrow> flaky_contains s e \<or> event_key_of e \<in> event_key_of ` set evs"
    by (cases "(evs, now, s)" rule: flaky_persist.cases)
       (auto simp: flaky_contains_def mem_persist_eq mem_sink_contains_def)
next
  fix evs now s x s' e
  assume p: "flaky_persist evs now s = (Inl x, s')"
  then have "snd s' = snd s"
    by (cases "(evs, now, s)" rule: flaky_persist.cases) (auto simp: mem_persist_eq)
  then show "flaky_contains s e \<Longrightarrow> flaky_contains s' e"
    and "flaky_contains s' e \<Longrightarrow> flaky_contains s e \<or> event_key_of e \<in> event_key_of ` set evs"
    by (simp_all add: flaky_contains_def)
qed

definition sample_slot :: "slot_event_kind \<Rightarrow> u64 \<Rightarrow> slot_event" where
  "sample_slot k at = \<lparr>se_tenant = TenantId ''acme'', se_lease_id = ''l1'', se_kind = k, se_at_ms = at, se_acquired_at_ms = None\<rparr>"

definition sample_export :: "exporter_event list" where
  "sample_export = [Emit (sample_slot SlotAcquired 5), TakeWindow, PersistWindow 9, TakeWindow,
     Emit (sample_slot SlotReleased 12), PersistWindow 15]"

theorem export_loses_nothing_witness:
  "(let x = export_run flaky_persist sample_export (exporter_new (1, {})) in
     sm_journal (ex_meter x) = [sample_slot SlotReleased 12] \<and>
     length (filter (\<lambda>e. \<not> flaky_contains (ex_sink x) e) [sample_slot SlotAcquired 5]) \<le> unat (sm_journal_dropped (ex_meter x)))"
proof -
  let ?x = "export_run flaky_persist sample_export (exporter_new (1, {}))"
  have e: "emitted sample_export = [sample_slot SlotAcquired 5, sample_slot SlotReleased 12]"
    by (simp add: sample_export_def)
  have j: "sm_journal (ex_meter ?x) = [sample_slot SlotReleased 12]"
    by (simp add: sample_export_def export_run_def exporter_new_def slot_meter_new_def sm_record_journal take_window_def
        persist_window_def raise_alarm_def drain_through_def export_watermark_def mem_persist_eq JOURNAL_CAP_def
        sat_add_def Let_def)
  have "length (emitted sample_export) < 2 ^ 64" by (simp add: e)
  from export_loses_nothing [OF flaky_sink _ this, of "(1, {})"] e j show ?thesis
    by (simp add: flaky_contains_def mem_sink_contains_def del: filter.simps)
qed

text \<open>Billing events are counted exactly once. However the batches of any number of exporters
  overlap or repeat, the sink ends with one row per distinct event and the counts the calls return add
  up to the number of rows.\<close>

theorem sink_exactly_once:
  "(let (ns, rows) = persist_all batches {} in
      rows = event_key_of ` (\<Union>(evs, now) \<in> set batches. set evs) \<and> sum_list ns = mem_sink_len rows)"
  by (cases "persist_all batches {}") (use persist_all_counts [of "{}" batches] in \<open>auto simp: mem_sink_len_def\<close>)

text \<open>The meter reads the true occupancy. As long as no slot is freed that was not acquired before
  it, a tenant's occupied slots are its acquisitions less its frees, and its peak is the largest number
  it ever held at once.\<close>

theorem meter_occupancy_exact:
  assumes "disciplined t evs" and "acquires t evs < 2 ^ 32"
  shows "unat (occupied (record_events evs slot_meter_new) t) = acquires t evs - frees t evs \<and>
    unat (peak (record_events evs slot_meter_new) t)
      = linorder_class.Max ((\<lambda>k. acquires t (take k evs) - frees t (take k evs)) ` {..length evs})"
  using meter_occupancy [OF assms] by (simp add: open_slots_def open_peak_def)

theorem meter_occupancy_exact_witness:
  "unat (occupied (record_events [sample_slot SlotAcquired 5, sample_slot SlotCrashed 7] slot_meter_new) (TenantId ''acme'')) = 0 \<and>
   unat (peak (record_events [sample_slot SlotAcquired 5, sample_slot SlotCrashed 7] slot_meter_new) (TenantId ''acme'')) = 1"
proof -
  let ?evs = "[sample_slot SlotAcquired 5, sample_slot SlotCrashed 7]" and ?t = "TenantId ''acme''"
  have "disciplined ?t ?evs"
    unfolding disciplined_def by (simp add: sample_slot_def acquires_def frees_def le_Suc_eq)
  moreover have "acquires ?t ?evs < 2 ^ 32" by (simp add: acquires_def)
  moreover have "acquires ?t ?evs - frees ?t ?evs = 0" by code_simp
  moreover have "linorder_class.Max ((\<lambda>k. acquires ?t (take k ?evs) - frees ?t (take k ?evs)) ` {..length ?evs}) = 1"
    by code_simp
  ultimately show ?thesis using meter_occupancy_exact [of ?t ?evs] by (simp only: simp_thms)
qed

end
