(* ===== verification/Json.thy ===== *)
theory Json
  imports Rust_Str
begin

text \<open>
  Decoded JSON as the server reads it: \<open>serde_json::Value\<close> and the accessors the modelled code uses.
  The decoder itself, which is library code, stays a parameter of the definitions that call it.
\<close>

text \<open>An unsigned integer keeps its value; every other number keeps the text it prints as.\<close>

datatype json =
    JNull
  | JBool bool
  | JU64 u64
  | JNumber string
  | JStr string
  | JArray "json list"
  | JObject "(string, json) hmap"

fun as_object :: "json \<Rightarrow> (string, json) hmap option" where
  "as_object (JObject m) = Some m"
| "as_object _ = None"

fun as_array :: "json \<Rightarrow> json list option" where
  "as_array (JArray xs) = Some xs"
| "as_array _ = None"

fun as_bool :: "json \<Rightarrow> bool option" where
  "as_bool (JBool b) = Some b"
| "as_bool _ = None"

fun as_u64 :: "json \<Rightarrow> u64 option" where
  "as_u64 (JU64 n) = Some n"
| "as_u64 _ = None"

fun as_str :: "json \<Rightarrow> string option" where
  "as_str (JStr s) = Some s"
| "as_str _ = None"

text \<open>\<open>as_number().to_string()\<close>.\<close>

fun number_text :: "json \<Rightarrow> string option" where
  "number_text (JU64 n) = Some (show_nat (unat n))"
| "number_text (JNumber s) = Some s"
| "number_text _ = None"

definition json_get :: "json \<Rightarrow> string \<Rightarrow> json option" where
  "json_get v name = (case as_object v of Some m \<Rightarrow> hm_get m name | None \<Rightarrow> None)"

text \<open>\<open>object[name]\<close> of a field whose presence has been checked.\<close>

definition field :: "(string, json) hmap \<Rightarrow> string \<Rightarrow> json" where
  "field m name = (case hm_get m name of Some v \<Rightarrow> v | None \<Rightarrow> JNull)"

lemma json_views:
  "as_object v = Some m \<longleftrightarrow> v = JObject m" "as_array v = Some xs \<longleftrightarrow> v = JArray xs"
  "as_u64 v = Some n \<longleftrightarrow> v = JU64 n" "as_str v = Some s \<longleftrightarrow> v = JStr s"
  by (cases v; simp)+

end
