(* ===== verification/Usage_Push.thy ===== *)
theory Usage_Push
  imports Billing Compute_Meter Json
begin

text \<open>
  The usage push of \<open>corelink-fabric-server/src/corelink_billing.rs\<close>: terminal slot events become
  usage records, are buffered, and leave the buffer only when a typed receipt acknowledges every one of
  them. The hash behind the idempotency key, the JSON codec and the HTTP transport are parameters.
\<close>

section \<open>Usage records\<close>

record usage_event =
  ue_tenant_id :: string
  ue_event_kind :: string
  ue_qty :: u64
  ue_billing_period :: string
  ue_region :: string
  ue_source :: string
  ue_time_ms :: u64
  ue_idem_key :: string

definition RUNNER_SLOT_SECONDS_KIND :: string where
  "RUNNER_SLOT_SECONDS_KIND = ''runner_slot_seconds''"

definition BILLING_SOURCE :: string where
  "BILLING_SOURCE = ''corelink-runners/fabricd''"

text \<open>Zero-padded decimals, as \<open>{:04}\<close> and \<open>{:02}\<close> print them.\<close>

definition pad_nat :: "nat \<Rightarrow> nat \<Rightarrow> string" where
  "pad_nat w n = (let s = show_nat n in replicate (w - length s) (CHR ''0'') @ s)"

definition billing_period :: "u64 \<Rightarrow> string option" where
  "billing_period at_ms =
     map_option (\<lambda>key. pad_nat 4 (unat (key div 100)) @ ''-'' @ pad_nat 2 (unat (key mod 100))) (period_key at_ms)"

definition idem_key :: "(string \<Rightarrow> string) \<Rightarrow> string \<Rightarrow> string \<Rightarrow> string" where
  "idem_key blake3_hex lease_id period = blake3_hex (lease_id @ ''|'' @ period)"


section \<open>The receipt\<close>

record post_response =
  pr_status :: nat
  pr_body :: string

datatype ack_error =
    NotJson | TopLevelFields | OutcomesNotArray | OutcomeCountMismatch
  | CountInvalid string | CountExceedsBatch string
  | OutcomeFields nat | OutcomeOrder | IdemKeyMismatch | OutcomeKindInvalid
  | UnexpectedReason | MissingReason | UnknownOutcome
  | CountersInconsistent | StatusDisagrees | ExplicitlyRejected

definition has_exact_json_keys :: "json \<Rightarrow> string list \<Rightarrow> string list \<Rightarrow> bool" where
  "has_exact_json_keys v required optional =
     (case as_object v of
        None \<Rightarrow> False
      | Some m \<Rightarrow> list_all (\<lambda>k. hm_contains k m) required \<and>
                  list_all (\<lambda>(k, x). k \<in> set required \<or> k \<in> set optional) m)"

definition read_count :: "(string, json) hmap \<Rightarrow> nat \<Rightarrow> string \<Rightarrow> ack_error + nat" where
  "read_count m batch name =
     (case as_u64 (field m name) of
        None \<Rightarrow> Inl (CountInvalid name)
      | Some v \<Rightarrow> if unat v \<le> batch then Inr (unat v) else Inl (CountExceedsBatch name))"

record ack_counts =
  ac_accepted :: nat
  ac_deduped :: nat
  ac_rejected :: nat
  ac_conflicts :: nat

definition nonempty_reason :: "(string, json) hmap \<Rightarrow> bool" where
  "nonempty_reason item =
     (case hm_get item ''reason'' of
        None \<Rightarrow> False
      | Some v \<Rightarrow> (case as_str v of None \<Rightarrow> False | Some r \<Rightarrow> r \<noteq> []))"

definition check_outcome ::
  "nat \<Rightarrow> json \<Rightarrow> usage_event \<Rightarrow> ack_counts \<Rightarrow> ack_error + ack_counts" where
  "check_outcome index outcome event c =
     (if \<not> has_exact_json_keys outcome [''index'', ''idem_key'', ''outcome''] [''reason'']
      then Inl (OutcomeFields index)
      else
        let item = (case as_object outcome of Some m \<Rightarrow> m | None \<Rightarrow> []) in
        if as_u64 (field item ''index'') \<noteq> Some (of_nat index) then Inl OutcomeOrder
        else if as_str (field item ''idem_key'') \<noteq> Some (ue_idem_key event) then Inl IdemKeyMismatch
        else case as_str (field item ''outcome'') of
          None \<Rightarrow> Inl OutcomeKindInvalid
        | Some kind \<Rightarrow>
            if kind = ''accepted'' then
              if hm_contains ''reason'' item then Inl UnexpectedReason
              else Inr (c\<lparr>ac_accepted := ac_accepted c + 1\<rparr>)
            else if kind = ''deduped'' then
              if hm_contains ''reason'' item then Inl UnexpectedReason
              else Inr (c\<lparr>ac_deduped := ac_deduped c + 1\<rparr>)
            else if kind = ''rejected'' then
              if \<not> nonempty_reason item then Inl MissingReason
              else Inr (c\<lparr>ac_rejected := ac_rejected c + 1\<rparr>)
            else if kind = ''conflict'' then
              if \<not> nonempty_reason item then Inl MissingReason
              else Inr (c\<lparr>ac_conflicts := ac_conflicts c + 1\<rparr>)
            else Inl UnknownOutcome)"

fun check_outcomes ::
  "nat \<Rightarrow> json list \<Rightarrow> usage_event list \<Rightarrow> ack_counts \<Rightarrow> ack_error + ack_counts" where
  "check_outcomes index (o1 # os) (e1 # es) c =
     (case check_outcome index o1 e1 c of
        Inl x \<Rightarrow> Inl x
      | Inr c' \<Rightarrow> check_outcomes (index + 1) os es c')"
| "check_outcomes index _ _ c = Inr c"

definition no_counts :: ack_counts where
  "no_counts = \<lparr>ac_accepted = 0, ac_deduped = 0, ac_rejected = 0, ac_conflicts = 0\<rparr>"

definition check_totals ::
  "nat \<Rightarrow> nat \<Rightarrow> nat \<Rightarrow> nat \<Rightarrow> nat \<Rightarrow> nat \<Rightarrow> ack_counts \<Rightarrow> ack_error + unit" where
  "check_totals status batch accepted deduped rejected total_n c =
     (if \<not> (accepted = ac_accepted c \<and> deduped = ac_deduped c \<and> rejected = ac_rejected c \<and>
             total_n = accepted + deduped) then Inl CountersInconsistent
      else if \<not> (if ac_conflicts c > 0 then status = 409
                 else if ac_rejected c = batch then status = 422
                 else status = 202) then Inl StatusDisagrees
      else if \<not> (ac_rejected c = 0 \<and> ac_conflicts c = 0) then Inl ExplicitlyRejected
      else Inr ())"

definition validate_object ::
  "nat \<Rightarrow> (string, json) hmap \<Rightarrow> usage_event list \<Rightarrow> ack_error + unit" where
  "validate_object status m events =
     (case as_array (field m ''outcomes'') of
        None \<Rightarrow> Inl OutcomesNotArray
      | Some outcomes \<Rightarrow>
          if length outcomes \<noteq> length events then Inl OutcomeCountMismatch
          else case read_count m (length events) ''accepted'' of Inl x \<Rightarrow> Inl x | Inr accepted \<Rightarrow>
          (case read_count m (length events) ''deduped'' of Inl x \<Rightarrow> Inl x | Inr deduped \<Rightarrow>
          (case read_count m (length events) ''rejected'' of Inl x \<Rightarrow> Inl x | Inr rejected \<Rightarrow>
          (case read_count m (length events) ''total'' of Inl x \<Rightarrow> Inl x | Inr total_n \<Rightarrow>
          (case check_outcomes 0 outcomes events no_counts of Inl x \<Rightarrow> Inl x | Inr c \<Rightarrow>
             check_totals status (length events) accepted deduped rejected total_n c)))))"

definition validate_billing_ack ::
  "(string \<Rightarrow> json option) \<Rightarrow> post_response \<Rightarrow> usage_event list \<Rightarrow> ack_error + unit" where
  "validate_billing_ack from_str response events =
     (case from_str (pr_body response) of
        None \<Rightarrow> Inl NotJson
      | Some v \<Rightarrow>
          if \<not> has_exact_json_keys v [''outcomes'', ''accepted'', ''deduped'', ''rejected'', ''total''] []
          then Inl TopLevelFields
          else validate_object (pr_status response) (case as_object v of Some m \<Rightarrow> m | None \<Rightarrow> []) events)"


section \<open>The target\<close>

record push_target =
  pt_url :: string
  pt_auth :: string
  pt_event_kind :: string
  pt_region :: string
  pt_open :: "(string, u64) hmap"
  pt_buffer :: "usage_event list"

definition with_event_kind :: "string \<Rightarrow> string \<Rightarrow> string \<Rightarrow> string \<Rightarrow> push_target" where
  "with_event_kind url auth region event_kind =
     \<lparr>pt_url = url, pt_auth = auth, pt_event_kind = event_kind, pt_region = region, pt_open = [], pt_buffer = []\<rparr>"

definition push_target_new :: "string \<Rightarrow> string \<Rightarrow> string \<Rightarrow> push_target" where
  "push_target_new url auth region = with_event_kind url auth region RUNNER_SLOT_SECONDS_KIND"

definition to_ascii_lowercase :: "string \<Rightarrow> string" where
  "to_ascii_lowercase = map (\<lambda>c. if CHR ''A'' \<le> c \<and> c \<le> CHR ''Z'' then char_of (of_char c + 32 :: nat) else c)"

definition push_target_from_env :: "(string \<Rightarrow> string option) \<Rightarrow> push_target option" where
  "push_target_from_env get =
     (case get ''BILLING_INGEST_URL'' of None \<Rightarrow> None | Some url \<Rightarrow>
      if url = [] then None else
      case get ''BILLING_INGEST_AUTH_KEY'' of None \<Rightarrow> None | Some auth \<Rightarrow>
      if auth = [] then None else
      case get ''BILLING_REGION'' of None \<Rightarrow> None | Some raw \<Rightarrow>
      let region = to_ascii_lowercase raw in
      if length region = 3 \<and> list_all is_ascii_lowercase region
      then Some (push_target_new url auth region) else None)"

definition MAX_BILLING_BUFFER :: nat where
  "MAX_BILLING_BUFFER = 100000"

definition MAX_BATCH :: nat where
  "MAX_BATCH = 1024"

text \<open>\<open>None\<close> is the panic of \<open>period_key\<close>, which no instant triggers.\<close>

definition usage_of :: "(string \<Rightarrow> string) \<Rightarrow> push_target \<Rightarrow> slot_event \<Rightarrow> u64 \<Rightarrow> usage_event option" where
  "usage_of blake3_hex t ev acquired_at_ms =
     (case billing_period (se_at_ms ev) of
        None \<Rightarrow> None
      | Some period \<Rightarrow> Some
          \<lparr>ue_tenant_id = tenant_str (se_tenant ev), ue_event_kind = pt_event_kind t,
           ue_qty = sat_sub (se_at_ms ev) acquired_at_ms div 1000, ue_billing_period = period,
           ue_region = pt_region t, ue_source = BILLING_SOURCE, ue_time_ms = se_at_ms ev,
           ue_idem_key = idem_key blake3_hex (se_lease_id ev) period\<rparr>)"

definition buffer_push :: "usage_event \<Rightarrow> usage_event list \<Rightarrow> usage_event list" where
  "buffer_push data buf = (if length buf \<ge> MAX_BILLING_BUFFER then tl buf else buf) @ [data]"

definition enqueue_terminal :: "(string \<Rightarrow> string) \<Rightarrow> slot_event \<Rightarrow> u64 \<Rightarrow> push_target \<Rightarrow> push_target option" where
  "enqueue_terminal blake3_hex ev acquired_at_ms t =
     map_option (\<lambda>data. t\<lparr>pt_buffer := buffer_push data (pt_buffer t)\<rparr>) (usage_of blake3_hex t ev acquired_at_ms)"

definition acquire_stamp :: "slot_event \<Rightarrow> push_target \<Rightarrow> u64 option" where
  "acquire_stamp ev t = (case hm_get (pt_open t) (se_lease_id ev) of Some a \<Rightarrow> Some a | None \<Rightarrow> se_acquired_at_ms ev)"

definition push_export :: "(string \<Rightarrow> string) \<Rightarrow> slot_event \<Rightarrow> push_target \<Rightarrow> push_target option" where
  "push_export blake3_hex ev t =
     (case se_kind ev of
        SlotAcquired \<Rightarrow> Some (t\<lparr>pt_open := hm_insert (se_lease_id ev) (se_at_ms ev) (pt_open t)\<rparr>)
      | _ \<Rightarrow>
          let stamp = acquire_stamp ev t; t' = t\<lparr>pt_open := hm_remove (se_lease_id ev) (pt_open t)\<rparr> in
          case stamp of
            Some acquired_at_ms \<Rightarrow> enqueue_terminal blake3_hex ev acquired_at_ms t'
          | None \<Rightarrow> Some t')"


section \<open>Flushing\<close>

datatype flush_error = Transport string | HttpStatus nat | BadReceipt ack_error | BufferChanged

text \<open>A flush takes a batch under the buffer lock, posts it without the lock, and drains it under the
  lock again if the receipt validates and the batch is still the head of the buffer.\<close>

definition flush_batch :: "usage_event list \<Rightarrow> usage_event list" where
  "flush_batch buf = take (min (length buf) MAX_BATCH) buf"

definition flush_ack ::
  "(string \<Rightarrow> json option) \<Rightarrow> string + post_response \<Rightarrow> usage_event list \<Rightarrow> usage_event list
     \<Rightarrow> flush_error + usage_event list" where
  "flush_ack from_str reply batch buf =
     (case reply of
        Inl e \<Rightarrow> Inl (Transport e)
      | Inr response \<Rightarrow>
          if pr_status response \<noteq> 202 \<and> pr_status response \<noteq> 409 \<and> pr_status response \<noteq> 422
          then Inl (HttpStatus (pr_status response))
          else case validate_billing_ack from_str response batch of
            Inl x \<Rightarrow> Inl (BadReceipt x)
          | Inr _ \<Rightarrow>
              if length buf < length batch \<or> take (length batch) buf \<noteq> batch then Inl BufferChanged
              else Inr (drop (length batch) buf))"

lemma flush_ack_Inr:
  "flush_ack from_str reply batch buf = Inr buf' \<Longrightarrow> buf = batch @ buf'"
  unfolding flush_ack_def
  by (auto split: sum.splits if_splits) (metis append_take_drop_id)+

lemma flush_batch_nonempty: "buf \<noteq> [] \<Longrightarrow> flush_batch buf \<noteq> []"
  by (simp add: flush_batch_def MAX_BATCH_def)

type_synonym 'w poster = "string \<Rightarrow> string \<Rightarrow> string \<Rightarrow> 'w \<Rightarrow> (string + post_response) \<times> 'w"

text \<open>\<open>flush_now\<close> with nothing recorded meanwhile. Every round drains at least one record, so the loop
  ends.\<close>

function flush_now ::
  "(string \<Rightarrow> json option) \<Rightarrow> (usage_event list \<Rightarrow> string) \<Rightarrow> 'w poster \<Rightarrow> string \<Rightarrow> string
     \<Rightarrow> 'w \<Rightarrow> usage_event list \<Rightarrow> (flush_error + unit) \<times> usage_event list \<times> 'w" where
  "flush_now from_str to_json post url auth w buf =
     (if buf = [] then (Inr (), [], w)
      else let batch = flush_batch buf; (reply, w') = post url auth (to_json batch) w in
        case flush_ack from_str reply batch buf of
          Inl e \<Rightarrow> (Inl e, buf, w')
        | Inr buf' \<Rightarrow> flush_now from_str to_json post url auth w' buf')"
  by pat_completeness auto

termination
proof (relation "measure (\<lambda>(from_str, to_json, post, url, auth, w, buf). length buf)", goal_cases)
  case (2 from_str to_json post url auth w buf batch p reply w' buf')
  then have "buf = flush_batch buf @ buf'" and "flush_batch buf \<noteq> []"
    using flush_ack_Inr [of from_str reply batch buf buf'] flush_batch_nonempty [of buf] by simp_all
  then have "length buf' < length buf" by (metis length_append length_greater_0_conv less_add_same_cancel2)
  then show ?case by simp
qed simp

declare flush_now.simps [simp del]


section \<open>Receipts\<close>

text \<open>What a receipt says of one record.\<close>

definition acknowledges :: "nat \<Rightarrow> json \<Rightarrow> usage_event \<Rightarrow> bool" where
  "acknowledges i v e \<longleftrightarrow> (\<exists>item. v = JObject item \<and> field item ''index'' = JU64 (of_nat i) \<and>
     field item ''idem_key'' = JStr (ue_idem_key e) \<and>
     (field item ''outcome'' = JStr ''accepted'' \<or> field item ''outcome'' = JStr ''deduped''))"

lemma check_outcome_Inr:
  assumes "check_outcome i v e c = Inr c'"
  shows "(ac_accepted c' + ac_deduped c' = ac_accepted c + ac_deduped c + 1 \<and> ac_rejected c' = ac_rejected c \<and>
          ac_conflicts c' = ac_conflicts c \<and> acknowledges i v e) \<or>
         ac_accepted c' + ac_deduped c' = ac_accepted c + ac_deduped c \<and>
         ac_rejected c' + ac_conflicts c' = ac_rejected c + ac_conflicts c + 1"
proof -
  obtain item where v: "v = JObject item"
    using assms by (cases v) (auto simp: check_outcome_def has_exact_json_keys_def)
  show ?thesis using assms
    by (auto simp: check_outcome_def v acknowledges_def json_views Let_def split: if_splits option.splits)
qed

lemma check_outcomes_Inr:
  assumes "check_outcomes i os es c = Inr c'" and "length os = length es"
  shows "ac_accepted c' + ac_deduped c' + ac_rejected c' + ac_conflicts c'
           = ac_accepted c + ac_deduped c + ac_rejected c + ac_conflicts c + length es \<and>
         ac_rejected c + ac_conflicts c \<le> ac_rejected c' + ac_conflicts c' \<and>
         (ac_rejected c' + ac_conflicts c' = ac_rejected c + ac_conflicts c \<longrightarrow>
            (\<forall>k < length es. acknowledges (i + k) (os ! k) (es ! k)))"
  using assms
proof (induction i os es c rule: check_outcomes.induct)
  case (1 i v os e es c)
  obtain c1 where c1: "check_outcome i v e c = Inr c1" "check_outcomes (i + 1) os es c1 = Inr c'"
    using "1.prems" by (auto split: sum.splits)
  note IH = "1.IH" [OF c1(1) c1(2)] and step = check_outcome_Inr [OF c1(1)]
  have len: "length os = length es" using "1.prems" by simp
  show ?case
  proof (intro conjI impI allI)
    show "ac_accepted c' + ac_deduped c' + ac_rejected c' + ac_conflicts c'
        = ac_accepted c + ac_deduped c + ac_rejected c + ac_conflicts c + length (e # es)"
      using IH [OF len] step by auto
    show "ac_rejected c + ac_conflicts c \<le> ac_rejected c' + ac_conflicts c'"
      using IH [OF len] step by auto
    fix k assume same: "ac_rejected c' + ac_conflicts c' = ac_rejected c + ac_conflicts c" and k: "k < length (e # es)"
    have "ac_rejected c1 + ac_conflicts c1 = ac_rejected c + ac_conflicts c" "acknowledges i v e"
      using IH [OF len] step same by auto
    with IH [OF len] same k show "acknowledges (i + k) ((v # os) ! k) ((e # es) ! k)"
      by (cases k) auto
  qed
qed auto

lemma validate_object_Inr:
  assumes "validate_object status m es = Inr ()" and "es \<noteq> []"
  shows "status = 202 \<and> (\<exists>os. field m ''outcomes'' = JArray os \<and> length os = length es \<and>
           (\<forall>k < length es. acknowledges k (os ! k) (es ! k)))"
proof -
  obtain os acc ded rej tot c where r: "field m ''outcomes'' = JArray os" "length os = length es"
    "check_outcomes 0 os es no_counts = Inr c" "check_totals status (length es) acc ded rej tot c = Inr ()"
    using assms(1) unfolding validate_object_def
    by (auto simp: json_views split: option.splits if_splits sum.splits)
  have z: "ac_rejected c = 0" "ac_conflicts c = 0" "status = 202"
    using r(4) assms(2) by (auto simp: check_totals_def split: if_splits)
  then show ?thesis using check_outcomes_Inr [OF r(3,2)] r(1,2) by (simp add: no_counts_def)
qed

text \<open>The receipt an ingest endpoint that accepts or deduplicates every record answers with.\<close>

definition outcome_json :: "nat \<Rightarrow> usage_event \<Rightarrow> bool \<Rightarrow> json" where
  "outcome_json i e fresh = JObject [(''index'', JU64 (of_nat i)), (''idem_key'', JStr (ue_idem_key e)),
     (''outcome'', JStr (if fresh then ''accepted'' else ''deduped''))]"

definition receipt_json :: "(usage_event \<times> bool) list \<Rightarrow> json" where
  "receipt_json rs = JObject
     [(''outcomes'', JArray (map (\<lambda>(i, e, fresh). outcome_json i e fresh) (enumerate 0 rs))),
      (''accepted'', JU64 (of_nat (length (filter snd rs)))),
      (''deduped'', JU64 (of_nat (length (filter (\<lambda>r. \<not> snd r) rs)))),
      (''rejected'', JU64 0), (''total'', JU64 (of_nat (length rs)))]"

lemma check_outcome_json:
  "check_outcome i (outcome_json i e fresh) e c =
     Inr (if fresh then c\<lparr>ac_accepted := ac_accepted c + 1\<rparr> else c\<lparr>ac_deduped := ac_deduped c + 1\<rparr>)"
  by (simp add: check_outcome_def outcome_json_def has_exact_json_keys_def field_def hm_contains_def)

lemma check_outcomes_json:
  "check_outcomes i (map (\<lambda>(i, e, fresh). outcome_json i e fresh) (enumerate i rs)) (map fst rs) c =
     Inr (c\<lparr>ac_accepted := ac_accepted c + length (filter snd rs),
            ac_deduped := ac_deduped c + length (filter (\<lambda>r. \<not> snd r) rs)\<rparr>)"
proof (induction rs arbitrary: i c)
  case (Cons r rs)
  obtain e fresh where r: "r = (e, fresh)" by (cases r)
  show ?case using Cons.IH [of "Suc i"] by (simp add: r check_outcome_json)
qed simp


lemma u64_of_nat: "n < 2 ^ 64 \<Longrightarrow> unat (of_nat n :: u64) = n"
  by (simp add: unsigned_of_nat take_bit_nat_eq_self)

lemma receipt_json_validates:
  assumes "from_str (pr_body r) = Some (receipt_json rs)" and "pr_status r = 202" and "rs \<noteq> []"
    and "length rs < 2 ^ 64"
  shows "validate_billing_ack from_str r (map fst rs) = Inr ()"
proof -
  have lens: "length (filter snd rs) \<le> length rs" "length (filter (\<lambda>r. \<not> snd r) rs) \<le> length rs"
    by (rule length_filter_le)+
  have sum: "length (filter snd rs) + length (filter (\<lambda>r. \<not> snd r) rs) = length rs"
    by (rule sum_length_filter_compl)
  have bnd: "length (filter snd rs) < 2 ^ 64" "length (filter (\<lambda>r. \<not> snd r) rs) < 2 ^ 64"
    using lens assms(4) by linarith+
  show ?thesis
    using assms(1-3) lens sum check_outcomes_json [of 0 rs no_counts]
    by (simp add: validate_billing_ack_def receipt_json_def has_exact_json_keys_def hm_contains_def validate_object_def
        field_def read_count_def u64_of_nat [OF bnd(1)] u64_of_nat [OF bnd(2)] u64_of_nat [OF assms(4)]
        check_totals_def no_counts_def)
qed


section \<open>What leaves the buffer\<close>

text \<open>The record a slot event adds to the buffer, if any.\<close>

definition billed_of :: "(string \<Rightarrow> string) \<Rightarrow> slot_event \<Rightarrow> push_target \<Rightarrow> usage_event option" where
  "billed_of blake3_hex ev t =
     (if se_kind ev = SlotAcquired then None
      else Option.bind (acquire_stamp ev t) (usage_of blake3_hex t ev))"

lemma billing_period_total: "billing_period at_ms \<noteq> None"
proof -
  obtain y m where "civil_from_days (int (unat at_ms div 86400000)) = (y, m)" by fastforce
  from period_key_civil [OF this] show ?thesis by (simp add: billing_period_def)
qed

lemma usage_of_total: "\<exists>d. usage_of blake3_hex t ev a = Some d"
  using billing_period_total [of "se_at_ms ev"] by (auto simp: usage_of_def)

lemma push_export_eq:
  "push_export blake3_hex ev t = Some (t\<lparr>
     pt_open := (if se_kind ev = SlotAcquired then hm_insert (se_lease_id ev) (se_at_ms ev) (pt_open t)
                 else hm_remove (se_lease_id ev) (pt_open t)),
     pt_buffer := (case billed_of blake3_hex ev t of
                     None \<Rightarrow> pt_buffer t | Some d \<Rightarrow> buffer_push d (pt_buffer t))\<rparr>)"
proof (cases "se_kind ev = SlotAcquired")
  case True
  then show ?thesis by (simp add: push_export_def billed_of_def)
next
  case False
  have u: "usage_of blake3_hex (t\<lparr>pt_open := q\<rparr>) ev a = usage_of blake3_hex t ev a" for q a
    by (simp add: usage_of_def split: option.split)
  show ?thesis
  proof (cases "acquire_stamp ev t")
    case None
    with False show ?thesis
      by (cases "se_kind ev") (simp_all add: push_export_def billed_of_def Let_def)
  next
    case (Some a)
    obtain d where "usage_of blake3_hex t ev a = Some d" using usage_of_total by blast
    with False Some u show ?thesis
      by (cases "se_kind ev") (simp_all add: push_export_def billed_of_def Let_def enqueue_terminal_def)
  qed
qed

text \<open>The target under concurrent use: slot events arrive at any time, one flush runs at a time. The last
  three fields are the bookkeeping of the proof: the records billed, those that left the buffer with
  whether they were acknowledged, and the receipts with the batches they cleared.\<close>

datatype push_event = PushSlot slot_event | FlushTake | FlushReply "string + post_response"

record push_run =
  px_target :: push_target
  px_inflight :: "usage_event list option"
  px_billed :: "usage_event list"
  px_left :: "(usage_event \<times> bool) list"
  px_receipts :: "(post_response \<times> usage_event list) list"

definition px_record :: "usage_event \<Rightarrow> push_run \<Rightarrow> push_run" where
  "px_record d x = x\<lparr>px_billed := px_billed x @ [d],
     px_left := px_left x @
       (if length (pt_buffer (px_target x)) \<ge> MAX_BILLING_BUFFER then [(hd (pt_buffer (px_target x)), False)] else [])\<rparr>"

fun push_step :: "(string \<Rightarrow> string) \<Rightarrow> (string \<Rightarrow> json option) \<Rightarrow> push_event \<Rightarrow> push_run \<Rightarrow> push_run" where
  "push_step blake3_hex from_str (PushSlot ev) x =
     (case push_export blake3_hex ev (px_target x) of
        None \<Rightarrow> x
      | Some t \<Rightarrow> (case billed_of blake3_hex ev (px_target x) of None \<Rightarrow> x | Some d \<Rightarrow> px_record d x)\<lparr>px_target := t\<rparr>)"
| "push_step blake3_hex from_str FlushTake x =
     (if px_inflight x \<noteq> None \<or> pt_buffer (px_target x) = [] then x
      else x\<lparr>px_inflight := Some (flush_batch (pt_buffer (px_target x)))\<rparr>)"
| "push_step blake3_hex from_str (FlushReply reply) x =
     (case px_inflight x of
        None \<Rightarrow> x
      | Some batch \<Rightarrow>
          (case flush_ack from_str reply batch (pt_buffer (px_target x)) of
             Inl e \<Rightarrow> x\<lparr>px_inflight := None\<rparr>
           | Inr buf \<Rightarrow> x\<lparr>px_inflight := None, px_target := (px_target x)\<lparr>pt_buffer := buf\<rparr>,
               px_left := px_left x @ map (\<lambda>d. (d, True)) batch,
               px_receipts := px_receipts x @ (case reply of Inr r \<Rightarrow> [(r, batch)] | Inl _ \<Rightarrow> [])\<rparr>))"

definition push_start :: "push_target \<Rightarrow> push_run" where
  "push_start t = \<lparr>px_target = t\<lparr>pt_open := [], pt_buffer := []\<rparr>, px_inflight = None, px_billed = [], px_left = [], px_receipts = []\<rparr>"

definition push_run :: "(string \<Rightarrow> string) \<Rightarrow> (string \<Rightarrow> json option) \<Rightarrow> push_event list \<Rightarrow> push_run \<Rightarrow> push_run" where
  "push_run blake3_hex from_str evs x = fold (push_step blake3_hex from_str) evs x"

definition push_inv :: "(string \<Rightarrow> json option) \<Rightarrow> push_run \<Rightarrow> bool" where
  "push_inv from_str x \<longleftrightarrow>
     map fst (px_left x) @ pt_buffer (px_target x) = px_billed x \<and>
     length (pt_buffer (px_target x)) \<le> MAX_BILLING_BUFFER \<and>
     map fst (filter snd (px_left x)) = concat (map snd (px_receipts x)) \<and>
     (\<forall>(r, b) \<in> set (px_receipts x). b \<noteq> [] \<and> validate_billing_ack from_str r b = Inr ()) \<and>
     (length (px_billed x) \<le> MAX_BILLING_BUFFER \<longrightarrow> list_all snd (px_left x)) \<and>
     (\<forall>b. px_inflight x = Some b \<longrightarrow> b \<noteq> [])"

lemma flush_ack_validated:
  "flush_ack from_str reply batch buf = Inr buf' \<Longrightarrow>
     \<exists>r. reply = Inr r \<and> validate_billing_ack from_str r batch = Inr () \<and> buf = batch @ buf'"
  using flush_ack_Inr [of from_str reply batch buf buf']
  by (auto simp: flush_ack_def split: sum.splits if_splits)

lemma push_inv_slot:
  assumes "push_inv from_str x"
  shows "push_inv from_str (push_step blake3_hex from_str (PushSlot ev) x)"
proof (cases "billed_of blake3_hex ev (px_target x)")
  case None
  then show ?thesis using assms by (simp add: push_export_eq push_inv_def)
next
  case (Some d)
  show ?thesis
  proof (cases "length (pt_buffer (px_target x)) \<ge> MAX_BILLING_BUFFER")
    case True
    obtain b bs where buf: "pt_buffer (px_target x) = b # bs"
      using True by (cases "pt_buffer (px_target x)") (auto simp: MAX_BILLING_BUFFER_def)
    have "length (px_billed x) \<ge> MAX_BILLING_BUFFER"
      using assms True unfolding push_inv_def by (metis le_add2 length_append order_trans)
    then show ?thesis using assms True Some buf
      by (auto simp: push_export_eq push_inv_def px_record_def buffer_push_def)
  next
    case False
    then show ?thesis using assms Some
      by (auto simp: push_export_eq push_inv_def px_record_def buffer_push_def)
  qed
qed

lemma push_inv_step:
  assumes "push_inv from_str x"
  shows "push_inv from_str (push_step blake3_hex from_str e x)"
proof (cases e)
  case (PushSlot ev)
  then show ?thesis using push_inv_slot [OF assms] by simp
next
  case FlushTake
  then show ?thesis using assms flush_batch_nonempty by (simp add: push_inv_def)
next
  case (FlushReply reply)
  show ?thesis
  proof (cases "px_inflight x")
    case None
    then show ?thesis using assms FlushReply by simp
  next
    case (Some batch)
    show ?thesis
    proof (cases "flush_ack from_str reply batch (pt_buffer (px_target x))")
      case (Inl err)
      then show ?thesis using assms FlushReply Some by (simp add: push_inv_def)
    next
      case (Inr buf)
      obtain r where r: "reply = Inr r" "validate_billing_ack from_str r batch = Inr ()"
        "pt_buffer (px_target x) = batch @ buf"
        using flush_ack_validated [OF Inr] by blast
      then show ?thesis using assms FlushReply Some Inr
        by (simp add: push_inv_def comp_def list_all_iff ball_Un)
    qed
  qed
qed

lemma push_inv_run: "push_inv from_str x \<Longrightarrow> push_inv from_str (push_run blake3_hex from_str evs x)"
  unfolding push_run_def by (induction evs arbitrary: x) (simp_all add: push_inv_step del: push_step.simps)

lemma push_inv_start: "push_inv from_str (push_start t)"
  by (simp add: push_inv_def push_start_def)


section \<open>Restarts\<close>

text \<open>A restart of the process forgets the open leases and the buffer.\<close>

fun bill_run :: "(string \<Rightarrow> string) \<Rightarrow> slot_event option list \<Rightarrow> push_target \<Rightarrow> usage_event list" where
  "bill_run blake3_hex [] t = []"
| "bill_run blake3_hex (None # evs) t = bill_run blake3_hex evs (t\<lparr>pt_open := [], pt_buffer := []\<rparr>)"
| "bill_run blake3_hex (Some ev # evs) t =
     (case billed_of blake3_hex ev t of None \<Rightarrow> [] | Some d \<Rightarrow> [d]) @
     (case push_export blake3_hex ev t of None \<Rightarrow> [] | Some t' \<Rightarrow> bill_run blake3_hex evs t')"

text \<open>Every slot event carries what the ledger stamped: a lease is acquired at its stamp, and its terminal
  event repeats the stamp.\<close>

definition stamped :: "(string \<Rightarrow> u64) \<Rightarrow> slot_event \<Rightarrow> bool" where
  "stamped stamp ev \<longleftrightarrow> (if se_kind ev = SlotAcquired then se_at_ms ev = stamp (se_lease_id ev)
     else se_acquired_at_ms ev = Some (stamp (se_lease_id ev)))"

definition terminals :: "slot_event option list \<Rightarrow> slot_event list" where
  "terminals evs = filter (\<lambda>ev. se_kind ev \<noteq> SlotAcquired) (map the (filter (\<lambda>x. x \<noteq> None) evs))"

lemma terminals_simps [simp]:
  "terminals [] = []" "terminals (None # evs) = terminals evs"
  "terminals (Some ev # evs) = (if se_kind ev = SlotAcquired then [] else [ev]) @ terminals evs"
  by (simp_all add: terminals_def)

definition slot_bill :: "(string \<Rightarrow> string) \<Rightarrow> push_target \<Rightarrow> (string \<Rightarrow> u64) \<Rightarrow> slot_event \<Rightarrow> usage_event" where
  "slot_bill blake3_hex t stamp ev = the (usage_of blake3_hex t ev (stamp (se_lease_id ev)))"

lemma bill_run_stamped:
  assumes "\<And>ev. Some ev \<in> set evs \<Longrightarrow> stamped stamp ev" and "\<And>l a. hm_get (pt_open t) l = Some a \<Longrightarrow> a = stamp l"
    and "pt_event_kind t = pt_event_kind t0" and "pt_region t = pt_region t0"
  shows "bill_run blake3_hex evs t = map (slot_bill blake3_hex t0 stamp) (terminals evs)"
  using assms
proof (induction blake3_hex evs t rule: bill_run.induct)
  case (3 blake3_hex ev evs t)
  have st: "stamped stamp ev" using "3.prems"(1) by simp
  let ?t = "the (push_export blake3_hex ev t)"
  have rest: "bill_run blake3_hex evs ?t = map (slot_bill blake3_hex t0 stamp) (terminals evs)"
  proof (rule "3.IH")
    show "push_export blake3_hex ev t = Some ?t" by (simp add: push_export_eq)
    show "stamped stamp e" if "Some e \<in> set evs" for e using "3.prems"(1) that by simp
    show "a = stamp l" if "hm_get (pt_open ?t) l = Some a" for l a
      using that st "3.prems"(2) by (auto simp: push_export_eq stamped_def simp del: map_of_eq_Some_iff split: if_splits)
  qed (simp_all add: push_export_eq "3.prems")
  have u: "usage_of blake3_hex t ev a = usage_of blake3_hex t0 ev a" for a
    using "3.prems"(3,4) by (simp add: usage_of_def split: option.split)
  have stamp: "acquire_stamp ev t = Some (stamp (se_lease_id ev))" if "se_kind ev \<noteq> SlotAcquired"
    using that st "3.prems"(2) by (auto simp: acquire_stamp_def stamped_def simp del: map_of_eq_Some_iff split: option.split)
  have "(case billed_of blake3_hex ev t of None \<Rightarrow> [] | Some d \<Rightarrow> [d])
      = map (slot_bill blake3_hex t0 stamp) (if se_kind ev = SlotAcquired then [] else [ev])"
    using stamp usage_of_total [of blake3_hex t0 ev "stamp (se_lease_id ev)"]
    by (auto simp: billed_of_def slot_bill_def u)
  with rest show ?case by (simp add: push_export_eq)
qed auto


section \<open>Idempotency keys\<close>

lemma pad_nat_digits: "c \<in> set (pad_nat w n) \<Longrightarrow> is_digit c"
  using show_nat_digits [of n] by (auto simp: pad_nat_def Let_def list_all_iff is_digit_def)

lemma billing_period_no_bar: "billing_period at_ms = Some p \<Longrightarrow> CHR ''|'' \<notin> set p"
  by (auto simp: billing_period_def dest!: pad_nat_digits simp: is_digit_def)

lemma bar_split:
  assumes "a @ ''|'' @ p = b @ ''|'' @ q" and "CHR ''|'' \<notin> set p" and "CHR ''|'' \<notin> set q"
  shows "a = b \<and> p = q"
proof -
  have rp: "takeWhile (\<lambda>c. c \<noteq> CHR ''|'') (rev (x @ ''|'' @ y)) = rev y" if "CHR ''|'' \<notin> set y" for x y
    using that takeWhile_append2 [of "rev y" "\<lambda>c. c \<noteq> CHR ''|''" "''|'' @ rev x"] by auto
  from rp [OF assms(2), of a] rp [OF assms(3), of b] have "p = q"
    unfolding assms(1) by simp
  with assms(1) show ?thesis by simp
qed


section \<open>Properties\<close>

text \<open>C25: a usage record leaves the buffer only when its receipt says so. Whatever the interleaving of slot
  events, flushes and replies: the records billed are, in order, those that left and those still
  buffered; the buffer is bounded; the acknowledged records are exactly the batches of the receipts
  accepted; each such receipt came with status 202 and acknowledges every record of its batch under
  the record's own key; and unless 100,000 records were billed, none was shed.\<close>

theorem push_conserves_records:
  fixes blake3_hex :: "string \<Rightarrow> string" and from_str :: "string \<Rightarrow> json option" and t :: push_target and evs :: "push_event list"
  defines "x \<equiv> push_run blake3_hex from_str evs (push_start t)"
  shows "map fst (px_left x) @ pt_buffer (px_target x) = px_billed x \<and>
    length (pt_buffer (px_target x)) \<le> MAX_BILLING_BUFFER \<and>
    map fst (filter snd (px_left x)) = concat (map snd (px_receipts x)) \<and>
    (\<forall>(r, b) \<in> set (px_receipts x). pr_status r = 202 \<and>
       (\<exists>m os. from_str (pr_body r) = Some (JObject m) \<and> field m ''outcomes'' = JArray os \<and> length os = length b \<and>
          (\<forall>k < length b. acknowledges k (os ! k) (b ! k)))) \<and>
    (length (px_billed x) \<le> MAX_BILLING_BUFFER \<longrightarrow> list_all snd (px_left x))"
proof -
  have inv: "push_inv from_str x" unfolding x_def by (rule push_inv_run [OF push_inv_start])
  have "pr_status r = 202 \<and> (\<exists>m os. from_str (pr_body r) = Some (JObject m) \<and> field m ''outcomes'' = JArray os \<and>
      length os = length b \<and> (\<forall>k < length b. acknowledges k (os ! k) (b ! k)))"
    if rb: "(r, b) \<in> set (px_receipts x)" for r b
  proof -
    have v: "b \<noteq> []" "validate_billing_ack from_str r b = Inr ()" using inv rb by (auto simp: push_inv_def)
    obtain m where m: "from_str (pr_body r) = Some (JObject m)" "validate_object (pr_status r) m b = Inr ()"
      using v(2) by (auto simp: validate_billing_ack_def has_exact_json_keys_def json_views split: option.splits if_splits)
    from validate_object_Inr [OF m(2) v(1)] m(1) show ?thesis by blast
  qed
  with inv show ?thesis by (auto simp: push_inv_def)
qed

definition sample_usage :: usage_event where
  "sample_usage = \<lparr>ue_tenant_id = ''acme'', ue_event_kind = RUNNER_SLOT_SECONDS_KIND, ue_qty = 7,
     ue_billing_period = ''1970-01'', ue_region = ''iad'', ue_source = BILLING_SOURCE, ue_time_ms = 7012, ue_idem_key = ''l1|1970-01''\<rparr>"

definition sample_slots :: "slot_event list" where
  "sample_slots = [sample_slot SlotAcquired 5, (sample_slot SlotReleased 7012)\<lparr>se_acquired_at_ms := Some 5\<rparr>]"

text \<open>A codec that is enough for batches of one sample record: a body has as many characters as the batch has records.\<close>

definition sample_from_str :: "string \<Rightarrow> json option" where
  "sample_from_str s = Some (receipt_json (zip (replicate (length s) sample_usage) (replicate (length s) True)))"

definition sample_to_json :: "usage_event list \<Rightarrow> string" where
  "sample_to_json batch = replicate (length batch) CHR ''x''"

definition sample_post :: "unit poster" where
  "sample_post url auth body w = (Inr \<lparr>pr_status = 202, pr_body = body\<rparr>, w)"

theorem push_conserves_records_witness:
  "(let x = push_run id sample_from_str (map PushSlot sample_slots @ [FlushTake, FlushReply (Inr \<lparr>pr_status = 202, pr_body = ''x''\<rparr>)])
              (push_start (push_target_new ''u'' ''a'' ''iad''))
    in map fst (px_left x) @ pt_buffer (px_target x) = px_billed x \<and>
       length (pt_buffer (px_target x)) \<le> MAX_BILLING_BUFFER)"
  unfolding Let_def using push_conserves_records by blast

text \<open>C26: a receipt that accepts or deduplicates every record is accepted, so a flush against an endpoint
  that answers so empties the buffer: it ends after finitely many batches, with success.\<close>

theorem flush_empties_buffer:
  assumes "\<And>body w. \<exists>r w'. post url auth body w = (Inr r, w')"
    and "\<And>batch w r w'. post url auth (to_json batch) w = (Inr r, w') \<Longrightarrow> batch \<noteq> [] \<Longrightarrow>
           set batch \<subseteq> set buf0 \<Longrightarrow> pr_status r = 202 \<and>
           (\<exists>fresh. length fresh = length batch \<and> from_str (pr_body r) = Some (receipt_json (zip batch fresh)))"
  shows "\<exists>w'. flush_now from_str to_json post url auth w buf0 = (Inr (), [], w')"
proof -
  have "\<exists>w'. flush_now from_str to_json post url auth w buf = (Inr (), [], w')" if "set buf \<subseteq> set buf0" for buf
    using that
  proof (induction buf arbitrary: w rule: length_induct)
    case (1 buf)
    show ?case
    proof (cases "buf = []")
      case True
      then show ?thesis by (simp add: flush_now.simps)
    next
      case False
      let ?b = "flush_batch buf"
      obtain r w1 where p: "post url auth (to_json ?b) w = (Inr r, w1)" using assms(1) by blast
      obtain fresh where fr: "pr_status r = 202" "length fresh = length ?b"
        "from_str (pr_body r) = Some (receipt_json (zip ?b fresh))"
        using assms(2) [OF p flush_batch_nonempty [OF False]] "1.prems"
        by (metis flush_batch_def set_take_subset subset_trans)
      have "length ?b \<le> 1024" by (simp add: flush_batch_def MAX_BATCH_def)
      then have "validate_billing_ack from_str r ?b = Inr ()"
        using receipt_json_validates [of from_str r "zip ?b fresh"] fr flush_batch_nonempty [OF False]
        by (cases fresh) (auto simp: zip_eq_Nil_iff)
      then have ack: "flush_ack from_str (Inr r) ?b buf = Inr (drop (length ?b) buf)"
        using fr(1) by (simp add: flush_ack_def flush_batch_def)
      have "length (drop (length ?b) buf) < length buf" using False flush_batch_nonempty [OF False] by simp
      moreover have "set (drop (length ?b) buf) \<subseteq> set buf0" using "1.prems" set_drop_subset by (metis subset_trans)
      ultimately obtain w' where "flush_now from_str to_json post url auth w1 (drop (length ?b) buf) = (Inr (), [], w')"
        using "1.IH" by blast
      with False p ack show ?thesis by (subst flush_now.simps) (simp add: Let_def)
    qed
  qed
  then show ?thesis by blast
qed

theorem flush_empties_buffer_witness:
  "\<exists>w'. flush_now sample_from_str sample_to_json sample_post ''u'' ''a'' () [sample_usage] = (Inr (), [], w')"
proof (rule flush_empties_buffer)
  fix batch and w w' :: unit and r
  assume p: "sample_post ''u'' ''a'' (sample_to_json batch) w = (Inr r, w')" and b: "set batch \<subseteq> set [sample_usage]"
  have "batch = replicate (length batch) sample_usage" using b by (intro replicate_eqI) auto
  then have "zip batch (replicate (length batch) True) = replicate (length batch) (sample_usage, True)"
    by (metis zip_replicate min.idem)
  then show "pr_status r = 202 \<and> (\<exists>fresh. length fresh = length batch \<and>
      sample_from_str (pr_body r) = Some (receipt_json (zip batch fresh)))"
    using p by (intro conjI exI [of _ "replicate (length batch) True"])
      (auto simp: sample_post_def sample_from_str_def sample_to_json_def)
qed (simp add: sample_post_def)

text \<open>The strings a run hashes for its keys.\<close>

definition hashed :: "slot_event option list \<Rightarrow> string set" where
  "hashed evs = (\<lambda>ev. se_lease_id ev @ ''|'' @ the (billing_period (se_at_ms ev))) ` set (terminals evs)"




end
