(* ===== verification/Global_Gate.thy ===== *)
theory Global_Gate
  imports Tenant
begin

text \<open>
  The tenant-aware global admission ceiling of \<open>corelink-fabric/src/global_gate.rs\<close>: a wall over all
  tenants, a share per tenant, and slots held by guards that give them back when dropped.
\<close>

section \<open>The gate\<close>

datatype gate_policy = Advisory | HardReject

datatype global_reject = GlobalWall | TenantShare

record gate_guard =
  gg_tenant :: tenant_id
  gg_released :: bool

datatype global_admit = Admitted gate_guard | Rejected global_reject

fun gate_is_admitted :: "global_admit \<Rightarrow> bool" where
  "gate_is_admitted (Admitted g) = True"
| "gate_is_admitted (Rejected r) = False"

fun into_guard :: "global_admit \<Rightarrow> gate_guard option" where
  "into_guard (Admitted g) = Some g"
| "into_guard (Rejected r) = None"

record global_meters =
  gm_in_flight :: nat
  gm_wall_breaches :: u64
  gm_share_breaches :: u64

record gate_inner =
  gi_per_tenant :: "(tenant_id, nat) hmap"
  gi_total :: nat
  gi_wall_breaches :: u64
  gi_share_breaches :: u64

text \<open>The mutex is \<open>None\<close> when a panic has poisoned it.\<close>

record global_gate =
  gate_wall :: nat
  gate_share :: nat
  gate_policy :: gate_policy
  gate_inner :: "gate_inner option"

definition gate_inner_default :: gate_inner where
  "gate_inner_default = \<lparr>gi_per_tenant = [], gi_total = 0, gi_wall_breaches = 0, gi_share_breaches = 0\<rparr>"

definition clamp :: "nat \<Rightarrow> nat \<Rightarrow> nat \<Rightarrow> nat" where
  "clamp x lo hi = (if x < lo then lo else if x > hi then hi else x)"

definition gate_new :: "nat \<Rightarrow> nat \<Rightarrow> gate_policy \<Rightarrow> global_gate" where
  "gate_new wall share policy =
     \<lparr>gate_wall = wall, gate_share = (if wall = 0 then 0 else clamp share 1 wall), gate_policy = policy,
      gate_inner = Some gate_inner_default\<rparr>"

definition checked_div :: "nat \<Rightarrow> nat \<Rightarrow> nat option" where
  "checked_div a b = (if b = 0 then None else Some (a div b))"

definition fair_share :: "nat \<Rightarrow> nat \<Rightarrow> gate_policy \<Rightarrow> global_gate" where
  "fair_share wall max_tenants_expected policy =
     gate_new wall (case checked_div wall max_tenants_expected of Some s \<Rightarrow> s | None \<Rightarrow> wall) policy"

definition gi_count :: "gate_inner \<Rightarrow> tenant_id \<Rightarrow> nat" where
  "gi_count i t = (case hm_get (gi_per_tenant i) t of Some n \<Rightarrow> n | None \<Rightarrow> 0)"

definition gate_take :: "tenant_id \<Rightarrow> gate_inner \<Rightarrow> gate_inner" where
  "gate_take t i = i\<lparr>gi_per_tenant := hm_insert t (gi_count i t + 1) (gi_per_tenant i), gi_total := gi_total i + 1\<rparr>"

definition try_admit_global :: "tenant_id \<Rightarrow> global_gate \<Rightarrow> global_admit \<times> global_gate" where
  "try_admit_global t g =
     (case gate_inner g of
        None \<Rightarrow> (Rejected GlobalWall, g)
      | Some i \<Rightarrow>
          let share_breached = gi_count i t \<ge> gate_share g;
              wall_breached = gi_total i \<ge> gate_wall g;
              admit = (\<lambda>i. (Admitted \<lparr>gg_tenant = t, gg_released = False\<rparr>, g\<lparr>gate_inner := Some (gate_take t i)\<rparr>))
          in case gate_policy g of
            HardReject \<Rightarrow>
              if share_breached
              then (Rejected TenantShare, g\<lparr>gate_inner := Some (i\<lparr>gi_share_breaches := gi_share_breaches i + 1\<rparr>)\<rparr>)
              else if wall_breached
              then (Rejected GlobalWall, g\<lparr>gate_inner := Some (i\<lparr>gi_wall_breaches := gi_wall_breaches i + 1\<rparr>)\<rparr>)
              else admit i
          | Advisory \<Rightarrow>
              let i1 = (if share_breached then i\<lparr>gi_share_breaches := gi_share_breaches i + 1\<rparr> else i);
                  i2 = (if wall_breached then i1\<lparr>gi_wall_breaches := gi_wall_breaches i1 + 1\<rparr> else i1)
              in admit i2)"

definition gate_meters :: "global_gate \<Rightarrow> global_meters" where
  "gate_meters g =
     (case gate_inner g of
        Some i \<Rightarrow> \<lparr>gm_in_flight = gi_total i, gm_wall_breaches = gi_wall_breaches i, gm_share_breaches = gi_share_breaches i\<rparr>
      | None \<Rightarrow> \<lparr>gm_in_flight = 0, gm_wall_breaches = 0, gm_share_breaches = 0\<rparr>)"

definition tenant_in_flight :: "global_gate \<Rightarrow> tenant_id \<Rightarrow> nat" where
  "tenant_in_flight g t = (case gate_inner g of Some i \<Rightarrow> gi_count i t | None \<Rightarrow> 0)"

definition gate_give :: "tenant_id \<Rightarrow> gate_inner \<Rightarrow> gate_inner" where
  "gate_give t i =
     (let m = (case hm_get (gi_per_tenant i) t of
                 None \<Rightarrow> gi_per_tenant i
               | Some n \<Rightarrow> if n - 1 = 0 then hm_remove t (gi_per_tenant i)
                           else hm_insert t (n - 1) (gi_per_tenant i))
      in i\<lparr>gi_per_tenant := m, gi_total := gi_total i - 1\<rparr>)"

definition guard_release :: "gate_guard \<Rightarrow> global_gate \<Rightarrow> gate_guard \<times> global_gate" where
  "guard_release gd g =
     (if gg_released gd then (gd, g)
      else (gd\<lparr>gg_released := True\<rparr>,
            case gate_inner g of None \<Rightarrow> g | Some i \<Rightarrow> g\<lparr>gate_inner := Some (gate_give (gg_tenant gd) i)\<rparr>))"


section \<open>Runs\<close>

text \<open>Callers admit and release in any order; a guard may be released early and is released again when it
  is dropped. The guards handed out so far are kept by position.\<close>

datatype gate_event = TryAdmit tenant_id | ReleaseGuard nat

fun gate_step :: "gate_event \<Rightarrow> gate_guard list \<times> global_gate \<Rightarrow> gate_guard list \<times> global_gate" where
  "gate_step (TryAdmit t) (gs, g) =
     (case try_admit_global t g of
        (Admitted gd, g') \<Rightarrow> (gs @ [gd], g')
      | (Rejected r, g') \<Rightarrow> (gs, g'))"
| "gate_step (ReleaseGuard k) (gs, g) =
     (if k < length gs then let (gd, g') = guard_release (gs ! k) g in (gs[k := gd], g') else (gs, g))"

definition gate_run :: "gate_event list \<Rightarrow> global_gate \<Rightarrow> gate_guard list \<times> global_gate" where
  "gate_run steps g = fold gate_step steps ([], g)"

definition live :: "tenant_id \<Rightarrow> gate_guard list \<Rightarrow> nat" where
  "live t gs = length (filter (\<lambda>gd. gg_tenant gd = t \<and> \<not> gg_released gd) gs)"

definition live_all :: "gate_guard list \<Rightarrow> nat" where
  "live_all gs = length (filter (\<lambda>gd. \<not> gg_released gd) gs)"

definition gate_inv :: "gate_guard list \<Rightarrow> global_gate \<Rightarrow> bool" where
  "gate_inv gs g \<longleftrightarrow> (\<exists>i. gate_inner g = Some i \<and> hm_wf (gi_per_tenant i) \<and>
     (\<forall>t. hm_get (gi_per_tenant i) t = (if live t gs = 0 then None else Some (live t gs))) \<and>
     gi_total i = live_all gs \<and>
     (gate_policy g = HardReject \<longrightarrow> live_all gs \<le> gate_wall g \<and> (\<forall>t. live t gs \<le> gate_share g)))"

lemma live_append [simp]:
  "live t (gs @ [gd]) = live t gs + (if gg_tenant gd = t \<and> \<not> gg_released gd then 1 else 0)"
  "live_all (gs @ [gd]) = live_all gs + (if gg_released gd then 0 else 1)"
  by (simp_all add: live_def live_all_def)

lemma length_filter_update:
  "k < length xs \<Longrightarrow> P (xs ! k) \<Longrightarrow> \<not> P y \<Longrightarrow> length (filter P (xs[k := y])) + 1 = length (filter P xs)"
proof (induction xs arbitrary: k)
  case (Cons x xs)
  then show ?case by (cases k) auto
qed simp

lemma length_filter_update_same:
  "k < length xs \<Longrightarrow> P (xs ! k) \<longleftrightarrow> P y \<Longrightarrow> length (filter P (xs[k := y])) = length (filter P xs)"
proof (induction xs arbitrary: k)
  case (Cons x xs)
  then show ?case by (cases k) auto
qed simp

lemma live_release:
  assumes "k < length gs" and "\<not> gg_released (gs ! k)"
  defines "gs' \<equiv> gs[k := (gs ! k)\<lparr>gg_released := True\<rparr>]"
  shows "live t gs' = live t gs - (if gg_tenant (gs ! k) = t then 1 else 0)"
    and "0 < live (gg_tenant (gs ! k)) gs" and "live_all gs' + 1 = live_all gs"
proof -
  let ?P = "\<lambda>gd. gg_tenant gd = t \<and> \<not> gg_released gd"
  show "live t gs' = live t gs - (if gg_tenant (gs ! k) = t then 1 else 0)"
    using length_filter_update [OF assms(1), of ?P "(gs ! k)\<lparr>gg_released := True\<rparr>"]
      length_filter_update_same [OF assms(1), of ?P "(gs ! k)\<lparr>gg_released := True\<rparr>"] assms(2)
    by (auto simp: live_def gs'_def)
  show "live_all gs' + 1 = live_all gs"
    using length_filter_update [OF assms(1), of "\<lambda>gd. \<not> gg_released gd" "(gs ! k)\<lparr>gg_released := True\<rparr>"] assms(2)
    by (simp add: live_all_def gs'_def)
  have "gs ! k \<in> set (filter (\<lambda>gd. gg_tenant gd = gg_tenant (gs ! k) \<and> \<not> gg_released gd) gs)"
    using assms by simp
  then show "0 < live (gg_tenant (gs ! k)) gs" unfolding live_def by (rule length_pos_if_in_set)
qed

lemma gate_inv_count: "gate_inv gs g \<Longrightarrow> gate_inner g = Some i \<Longrightarrow> gi_count i t = live t gs"
  by (auto simp: gate_inv_def gi_count_def simp del: map_of_eq_Some_iff)

lemma gate_inv_admit:
  assumes "gate_inv gs g"
  shows "gate_inv (fst (gate_step (TryAdmit t) (gs, g))) (snd (gate_step (TryAdmit t) (gs, g)))"
proof -
  obtain i where i: "gate_inner g = Some i" "hm_wf (gi_per_tenant i)"
    "\<And>t. hm_get (gi_per_tenant i) t = (if live t gs = 0 then None else Some (live t gs))" "gi_total i = live_all gs"
    "gate_policy g = HardReject \<Longrightarrow> live_all gs \<le> gate_wall g \<and> (\<forall>t. live t gs \<le> gate_share g)"
    using assms unfolding gate_inv_def by blast
  note c = gate_inv_count [OF assms i(1)]
  have keep: "gate_inv gs (g\<lparr>gate_inner := Some j\<rparr>)"
    if "gi_per_tenant j = gi_per_tenant i" "gi_total j = gi_total i" for j
    using that i by (simp add: gate_inv_def del: map_of_eq_Some_iff)
  have take: "gate_inv (gs @ [\<lparr>gg_tenant = t, gg_released = False\<rparr>]) (g\<lparr>gate_inner := Some (gate_take t j)\<rparr>)"
    if "gi_per_tenant j = gi_per_tenant i" "gi_total j = gi_total i"
      "gate_policy g = HardReject \<Longrightarrow> live_all gs < gate_wall g \<and> live t gs < gate_share g" for j
    using that i c by (auto simp: gate_inv_def gate_take_def gi_count_def Suc_le_eq simp del: map_of_eq_Some_iff)
  show ?thesis
    using keep take i(1,4) c by (cases "gate_policy g") (auto simp: try_admit_global_def Let_def)
qed

lemma gate_inv_release:
  assumes "gate_inv gs g"
  shows "gate_inv (fst (gate_step (ReleaseGuard k) (gs, g))) (snd (gate_step (ReleaseGuard k) (gs, g)))"
proof (cases "k < length gs \<and> \<not> gg_released (gs ! k)")
  case False
  then show ?thesis using assms by (auto simp: guard_release_def)
next
  case True
  then have k: "k < length gs" "\<not> gg_released (gs ! k)" by simp_all
  let ?t = "gg_tenant (gs ! k)"
  obtain i where i: "gate_inner g = Some i" "hm_wf (gi_per_tenant i)"
    "\<And>t. hm_get (gi_per_tenant i) t = (if live t gs = 0 then None else Some (live t gs))" "gi_total i = live_all gs"
    "gate_policy g = HardReject \<Longrightarrow> live_all gs \<le> gate_wall g \<and> (\<forall>t. live t gs \<le> gate_share g)"
    using assms unfolding gate_inv_def by blast
  define gs' where "gs' = gs[k := (gs ! k)\<lparr>gg_released := True\<rparr>]"
  note l = live_release [OF k, folded gs'_def]
  have wf: "hm_wf (gi_per_tenant (gate_give ?t i))" using i(2)
    by (simp add: gate_give_def Let_def split: option.split)
  have get: "hm_get (gi_per_tenant (gate_give ?t i)) t = (if live t gs' = 0 then None else Some (live t gs'))" for t
    using i(3) l(2) by (auto simp: gate_give_def Let_def l(1) simp del: map_of_eq_Some_iff)
  have "gate_policy g = HardReject \<Longrightarrow> live_all gs' \<le> gate_wall g \<and> (\<forall>t. live t gs' \<le> gate_share g)"
    using i(5) l(1,3) by (metis Suc_eq_plus1 Suc_leD diff_le_self le_trans)
  moreover have "gi_total (gate_give ?t i) = live_all gs'" using i(4) l(3) by (simp add: gate_give_def Let_def)
  ultimately have "gate_inv gs' (g\<lparr>gate_inner := Some (gate_give ?t i)\<rparr>)"
    using wf get by (simp add: gate_inv_def del: map_of_eq_Some_iff)
  then show ?thesis using k i(1) by (simp add: guard_release_def gs'_def)
qed

lemma gate_config [simp]:
  "gate_wall (snd (gate_step s (gs, g))) = gate_wall g" "gate_share (snd (gate_step s (gs, g))) = gate_share g"
  "gate_policy (snd (gate_step s (gs, g))) = gate_policy g"
  by (cases s; auto simp: try_admit_global_def guard_release_def Let_def split: option.split gate_policy.split)+

lemma gate_inv_fold:
  "gate_inv gs g \<Longrightarrow> gate_inv (fst (fold gate_step steps (gs, g))) (snd (fold gate_step steps (gs, g))) \<and>
     gate_wall (snd (fold gate_step steps (gs, g))) = gate_wall g \<and>
     gate_share (snd (fold gate_step steps (gs, g))) = gate_share g \<and>
     gate_policy (snd (fold gate_step steps (gs, g))) = gate_policy g"
proof (induction steps arbitrary: gs g)
  case (Cons s steps)
  have "gate_inv (fst (gate_step s (gs, g))) (snd (gate_step s (gs, g)))"
    using gate_inv_admit [OF Cons.prems] gate_inv_release [OF Cons.prems] by (cases s) blast+
  from Cons.IH [OF this] show ?case by simp
qed simp

lemma gate_inv_new: "gate_inv [] (gate_new wall share policy)"
  by (simp add: gate_inv_def gate_new_def gate_inner_default_def live_def live_all_def)

text \<open>C28: the wall and the shares hold. Whatever the order of admissions and releases, early, repeated or by
  drop: the gate's counts are the guards not yet released, in all and per tenant, and a tenant without one
  leaves no entry behind; under the rejecting policy they never pass the wall or the tenant's share, which
  lies between one and the wall; the next attempt is refused for its share exactly at the share, for the
  wall exactly at the wall, and the advisory policy refuses nothing.\<close>

theorem gate_holds_wall:
  assumes "gate_run steps (gate_new wall share policy) = (gs, g)"
  shows "gm_in_flight (gate_meters g) = live_all gs \<and> tenant_in_flight g t = live t gs \<and>
    (\<exists>i. gate_inner g = Some i \<and> (t \<in> hm_keys (gi_per_tenant i) \<longleftrightarrow> 0 < live t gs)) \<and>
    (policy = HardReject \<longrightarrow> live_all gs \<le> wall \<and> live t gs \<le> gate_share g \<and> gate_share g \<le> wall \<and>
       (0 < wall \<longrightarrow> 1 \<le> gate_share g)) \<and>
    fst (try_admit_global t g) =
      (if policy = HardReject \<and> gate_share g \<le> live t gs then Rejected TenantShare
       else if policy = HardReject \<and> wall \<le> live_all gs then Rejected GlobalWall
       else Admitted \<lparr>gg_tenant = t, gg_released = False\<rparr>)"
proof -
  have inv: "gate_inv gs g" and cfg: "gate_wall g = wall" "gate_policy g = policy"
    "gate_share g = gate_share (gate_new wall share policy)"
    using gate_inv_fold [OF gate_inv_new [of wall share policy], of steps] assms
    by (simp_all add: gate_run_def gate_new_def)
  have sh: "gate_share g \<le> wall" "0 < wall \<Longrightarrow> 1 \<le> gate_share g"
    unfolding cfg(3) by (auto simp: gate_new_def clamp_def)
  obtain i where i: "gate_inner g = Some i" "gi_total i = live_all gs"
    "hm_get (gi_per_tenant i) t = (if live t gs = 0 then None else Some (live t gs))"
    "policy = HardReject \<Longrightarrow> live_all gs \<le> wall \<and> live t gs \<le> gate_share g"
    using inv cfg unfolding gate_inv_def by blast
  have "t \<in> hm_keys (gi_per_tenant i) \<longleftrightarrow> 0 < live t gs"
    unfolding hm_contains_iff [symmetric] hm_contains_def i(3) by simp
  moreover note gate_inv_count [OF inv i(1), of t]
  ultimately show ?thesis using i sh cfg
    by (cases policy) (simp_all add: gate_meters_def tenant_in_flight_def try_admit_global_def Let_def)
qed

definition sample_gate_steps :: "gate_event list" where
  "sample_gate_steps = [TryAdmit (TenantId ''a''), TryAdmit (TenantId ''a''), TryAdmit (TenantId ''b''),
     ReleaseGuard 0, ReleaseGuard 0, TryAdmit (TenantId ''a'')]"

theorem gate_holds_wall_witness:
  "fst (try_admit_global (TenantId ''b'') (snd (gate_run sample_gate_steps (gate_new 2 1 HardReject)))) = Rejected TenantShare \<and>
   gm_in_flight (gate_meters (snd (gate_run sample_gate_steps (gate_new 2 1 HardReject)))) = 2"
proof -
  obtain gs g where r: "gate_run sample_gate_steps (gate_new 2 1 HardReject) = (gs, g)" by fastforce
  have gs: "gs = [\<lparr>gg_tenant = TenantId ''a'', gg_released = True\<rparr>, \<lparr>gg_tenant = TenantId ''b'', gg_released = False\<rparr>,
      \<lparr>gg_tenant = TenantId ''a'', gg_released = False\<rparr>]"
    and share: "gate_share g = 1"
    using r by (simp_all add: gate_run_def sample_gate_steps_def gate_new_def gate_inner_default_def clamp_def
        try_admit_global_def guard_release_def gate_take_def gate_give_def gi_count_def Let_def, auto)
  from gate_holds_wall [OF r, of "TenantId ''b''"] show ?thesis
    unfolding r snd_conv gs share by (simp add: live_def live_all_def)
qed

end
