(* ===== verification/Introspect.thy ===== *)
theory Introspect
  imports Tenant Json
begin

text \<open>
  Authentication against the introspection endpoint: the circuit breaker
  (\<open>corelink-fabric-server/src/introspect_breaker.rs\<close>), the token store (\<open>corelink_auth.rs\<close>), the
  short-lived success cache (\<open>introspect_cache.rs\<close>) and the middleware that composes them
  (\<open>auth.rs\<close>). The HTTP transport, the clock, the JSON codec and the token hash are parameters.
\<close>

section \<open>The circuit breaker\<close>

text \<open>Instants and durations are counted in one unit; \<open>duration_since\<close> saturates at zero.\<close>

record breaker_config =
  bc_threshold :: u32
  bc_cooldown :: nat

definition breaker_config_default :: breaker_config where
  "breaker_config_default = \<lparr>bc_threshold = 5, bc_cooldown = 5000\<rparr>"

datatype breaker_state = BClosed u32 | BOpen nat

datatype breaker_gate = GateAllow | GateProbe | GateReject

record breaker =
  br_cfg :: breaker_config
  br_state :: breaker_state
  br_opened :: nat

definition breaker_new :: "breaker_config \<Rightarrow> breaker" where
  "breaker_new cfg = \<lparr>br_cfg = \<lparr>bc_threshold = max (bc_threshold cfg) 1, bc_cooldown = bc_cooldown cfg\<rparr>,
     br_state = BClosed 0, br_opened = 0\<rparr>"

definition on_call :: "nat \<Rightarrow> breaker \<Rightarrow> breaker_gate \<times> breaker" where
  "on_call now b =
     (case br_state b of
        BClosed consecutive \<Rightarrow> (GateAllow, b)
      | BOpen opened_at \<Rightarrow>
          if now - opened_at \<ge> bc_cooldown (br_cfg b) then (GateProbe, b\<lparr>br_state := BOpen now\<rparr>)
          else (GateReject, b))"

definition on_endpoint_responded :: "breaker \<Rightarrow> breaker" where
  "on_endpoint_responded b = b\<lparr>br_state := BClosed 0\<rparr>"

definition on_transient_failure :: "nat \<Rightarrow> breaker \<Rightarrow> breaker" where
  "on_transient_failure now b =
     (case br_state b of
        BClosed consecutive \<Rightarrow>
          if consecutive + 1 \<ge> bc_threshold (br_cfg b)
          then b\<lparr>br_state := BOpen now, br_opened := br_opened b + 1\<rparr>
          else b\<lparr>br_state := BClosed (consecutive + 1)\<rparr>
      | BOpen opened_at \<Rightarrow> b\<lparr>br_state := BOpen now, br_opened := br_opened b + 1\<rparr>)"


section \<open>One gated round trip\<close>

record http_response =
  hr_status :: nat
  hr_body :: string

record auth_config =
  au_url :: string
  au_secret :: string

text \<open>The world the store talks to: a POST, the monotonic clock, and the wait between attempts.\<close>

record 'w introspect_env =
  ie_post :: "string \<Rightarrow> string \<Rightarrow> string \<Rightarrow> 'w \<Rightarrow> (string + http_response) \<times> 'w"
  ie_clock :: "'w \<Rightarrow> nat"
  ie_backoff :: "'w \<Rightarrow> 'w"

definition INTROSPECT_ATTEMPTS :: nat where
  "INTROSPECT_ATTEMPTS = 3"

datatype introspect_outcome = Body200 string | IntrospectFailClosed

fun introspect_attempts ::
  "'w introspect_env \<Rightarrow> auth_config \<Rightarrow> string \<Rightarrow> nat \<Rightarrow> breaker \<Rightarrow> 'w \<Rightarrow> introspect_outcome \<times> breaker \<times> 'w" where
  "introspect_attempts env cfg body 0 b w = (IntrospectFailClosed, on_transient_failure (ie_clock env w) b, w)"
| "introspect_attempts env cfg body (Suc left) b w =
     (let (reply, w') = ie_post env (au_url cfg) (au_secret cfg) body w;
          retry = introspect_attempts env cfg body left b (if left = 0 then w' else ie_backoff env w')
      in case reply of
           Inl e \<Rightarrow> retry
         | Inr resp \<Rightarrow>
             if hr_status resp = 200 then (Body200 (hr_body resp), on_endpoint_responded b, w')
             else if hr_status resp \<ge> 500 then retry
             else (IntrospectFailClosed, on_endpoint_responded b, w'))"

definition run_introspect ::
  "'w introspect_env \<Rightarrow> auth_config \<Rightarrow> string \<Rightarrow> breaker \<Rightarrow> 'w \<Rightarrow> introspect_outcome \<times> breaker \<times> 'w" where
  "run_introspect env cfg body b w =
     (let (gate, b') = on_call (ie_clock env w) b in
      case gate of
        GateReject \<Rightarrow> (IntrospectFailClosed, b', w)
      | _ \<Rightarrow> introspect_attempts env cfg body INTROSPECT_ATTEMPTS b' w)"


section \<open>The token store\<close>

datatype token_store_error = StoreUnreachable

definition parse_introspect_200 :: "(string \<Rightarrow> json option) \<Rightarrow> string \<Rightarrow> token_store_error + tenant_id option" where
  "parse_introspect_200 from_str body =
     (case from_str body of
        None \<Rightarrow> Inl StoreUnreachable
      | Some v \<Rightarrow>
          (case Option.bind (json_get v ''valid'') as_bool of
             None \<Rightarrow> Inl StoreUnreachable
           | Some valid \<Rightarrow>
               if \<not> valid then Inr None
               else (case Option.bind (json_get v ''tenant_id'') as_str of
                       None \<Rightarrow> Inl StoreUnreachable
                     | Some s \<Rightarrow>
                         if s = [] then Inl StoreUnreachable
                         else (case tenant_new s of
                                 Inl e \<Rightarrow> Inl StoreUnreachable
                               | Inr t \<Rightarrow> Inr (Some t)))))"

text \<open>\<open>to_body\<close> prints the request \<open>{"token": ...}\<close>.\<close>

definition tenant_of_capturing ::
  "'w introspect_env \<Rightarrow> (string \<Rightarrow> json option) \<Rightarrow> (string \<Rightarrow> string) \<Rightarrow> auth_config \<Rightarrow> string \<Rightarrow> breaker \<Rightarrow> 'w
     \<Rightarrow> (token_store_error + (tenant_id \<times> string option) option) \<times> breaker \<times> 'w" where
  "tenant_of_capturing env from_str to_body cfg token b w =
     (let (out, b', w') = run_introspect env cfg (to_body token) b w in
      case out of
        IntrospectFailClosed \<Rightarrow> (Inl StoreUnreachable, b', w')
      | Body200 body \<Rightarrow>
          (case parse_introspect_200 from_str body of
             Inl e \<Rightarrow> (Inl e, b', w')
           | Inr None \<Rightarrow> (Inr None, b', w')
           | Inr (Some t) \<Rightarrow> (Inr (Some (t, Some body)), b', w')))"

definition tenant_of ::
  "'w introspect_env \<Rightarrow> (string \<Rightarrow> json option) \<Rightarrow> (string \<Rightarrow> string) \<Rightarrow> auth_config \<Rightarrow> string \<Rightarrow> breaker \<Rightarrow> 'w
     \<Rightarrow> (token_store_error + tenant_id option) \<times> breaker \<times> 'w" where
  "tenant_of env from_str to_body cfg token b w =
     (let (r, b', w') = tenant_of_capturing env from_str to_body cfg token b w in
      (map_sum id (map_option fst) r, b', w'))"


section \<open>The success cache\<close>

record cache_entry =
  ce_tenant :: tenant_id
  ce_body :: "string option"
  ce_expires_at :: nat

record introspect_cache =
  ic_ttl :: nat
  ic_max_entries :: nat
  ic_map :: "(string, cache_entry) hmap"

definition introspect_cache_new :: "nat \<Rightarrow> nat \<Rightarrow> introspect_cache" where
  "introspect_cache_new ttl max_entries = \<lparr>ic_ttl = ttl, ic_max_entries = max max_entries 1, ic_map = []\<rparr>"

definition cache_is_armed :: "introspect_cache \<Rightarrow> bool" where
  "cache_is_armed c \<longleftrightarrow> ic_ttl c \<noteq> 0"

definition cache_get ::
  "(string \<Rightarrow> string) \<Rightarrow> nat \<Rightarrow> string \<Rightarrow> introspect_cache \<Rightarrow> (tenant_id \<times> string option) option \<times> introspect_cache" where
  "cache_get key_of now token c =
     (if \<not> cache_is_armed c then (None, c)
      else case hm_get (ic_map c) (key_of token) of
        None \<Rightarrow> (None, c)
      | Some e \<Rightarrow>
          if ce_expires_at e > now then (Some (ce_tenant e, ce_body e), c)
          else (None, c\<lparr>ic_map := hm_remove (key_of token) (ic_map c)\<rparr>))"

definition cache_put ::
  "(string \<Rightarrow> string) \<Rightarrow> nat \<Rightarrow> string \<Rightarrow> tenant_id \<Rightarrow> string option \<Rightarrow> introspect_cache \<Rightarrow> introspect_cache" where
  "cache_put key_of now token t body c =
     (if \<not> cache_is_armed c then c
      else
        let key = key_of token;
            entry = \<lparr>ce_tenant = t, ce_body = body, ce_expires_at = now + ic_ttl c\<rparr>;
            insert = (\<lambda>m. c\<lparr>ic_map := hm_insert key entry m\<rparr>)
        in if length (ic_map c) \<ge> ic_max_entries c \<and> \<not> hm_contains key (ic_map c) then
             let swept = filter (\<lambda>(k, e). ce_expires_at e > now) (ic_map c) in
             if length swept \<ge> ic_max_entries c then c\<lparr>ic_map := swept\<rparr> else insert swept
           else insert (ic_map c))"


section \<open>The middleware\<close>

datatype auth_leg = Resolved "token_store_error + (tenant_id \<times> string option) option" | Shed

datatype auth_reply =
    Admit tenant_id "string option"
  | MissingPat
  | UnknownPat
  | AuthFailClosed
  | IntrospectShed

text \<open>\<open>authorization\<close> is the header as \<open>HeaderValue::to_str\<close> yields it, \<open>None\<close> for a missing or
  non-text value.\<close>

definition bearer_token :: "string option \<Rightarrow> string option" where
  "bearer_token authorization =
     (case authorization of
        None \<Rightarrow> None
      | Some header \<Rightarrow>
          (case strip_prefix ''Bearer '' header of
             None \<Rightarrow> None
           | Some token \<Rightarrow> if token = [] then None else Some token))"

definition auth_finish ::
  "(string \<Rightarrow> string) \<Rightarrow> nat \<Rightarrow> string \<Rightarrow> auth_leg \<Rightarrow> introspect_cache \<Rightarrow> auth_reply \<times> introspect_cache" where
  "auth_finish key_of now token leg c =
     (case leg of
        Shed \<Rightarrow> (IntrospectShed, c)
      | Resolved (Inr (Some (t, body))) \<Rightarrow> (Admit t body, cache_put key_of now token t body c)
      | Resolved (Inr None) \<Rightarrow> (UnknownPat, c)
      | Resolved (Inl StoreUnreachable) \<Rightarrow> (AuthFailClosed, c))"

record 'w auth_state =
  as_cache :: introspect_cache
  as_breaker :: breaker
  as_permits :: nat
  as_world :: 'w

text \<open>One request while no other request for the same token is in flight, so that the single-flight layer
  runs its leader. \<open>None\<close> of the store is a panicked blocking task.\<close>

definition auth_leader ::
  "(string \<Rightarrow> breaker \<Rightarrow> 'w \<Rightarrow> (token_store_error + (tenant_id \<times> string option) option) option \<times> breaker \<times> 'w)
     \<Rightarrow> string \<Rightarrow> 'w auth_state \<Rightarrow> auth_leg \<times> 'w auth_state" where
  "auth_leader store token s =
     (if as_permits s = 0 then (Shed, s)
      else let (out, b, w) = store token (as_breaker s) (as_world s) in
        (Resolved (case out of Some r \<Rightarrow> r | None \<Rightarrow> Inl StoreUnreachable), s\<lparr>as_breaker := b, as_world := w\<rparr>))"

definition require_tenant ::
  "(string \<Rightarrow> string) \<Rightarrow> ('w \<Rightarrow> nat)
     \<Rightarrow> (string \<Rightarrow> breaker \<Rightarrow> 'w \<Rightarrow> (token_store_error + (tenant_id \<times> string option) option) option \<times> breaker \<times> 'w)
     \<Rightarrow> string option \<Rightarrow> 'w auth_state \<Rightarrow> auth_reply \<times> 'w auth_state" where
  "require_tenant key_of clock store authorization s =
     (case bearer_token authorization of
        None \<Rightarrow> (MissingPat, s)
      | Some token \<Rightarrow>
          (case cache_get key_of (clock (as_world s)) token (as_cache s) of
             (Some (t, body), c) \<Rightarrow> (Admit t body, s\<lparr>as_cache := c\<rparr>)
           | (None, c) \<Rightarrow>
               let (leg, s') = auth_leader store token (s\<lparr>as_cache := c\<rparr>);
                   (reply, c') = auth_finish key_of (clock (as_world s')) token leg (as_cache s')
               in (reply, s'\<lparr>as_cache := c'\<rparr>)))"

definition corelink_store ::
  "'w introspect_env \<Rightarrow> (string \<Rightarrow> json option) \<Rightarrow> (string \<Rightarrow> string) \<Rightarrow> auth_config \<Rightarrow> string \<Rightarrow> breaker \<Rightarrow> 'w
     \<Rightarrow> (token_store_error + (tenant_id \<times> string option) option) option \<times> breaker \<times> 'w" where
  "corelink_store env from_str to_body cfg token b w =
     (let (r, b', w') = tenant_of_capturing env from_str to_body cfg token b w in (Some r, b', w'))"

text \<open>The in-memory store captures no body, through the trait's default method.\<close>

definition static_tenant_of :: "(string, tenant_id) hmap \<Rightarrow> string \<Rightarrow> token_store_error + tenant_id option" where
  "static_tenant_of tokens token = Inr (hm_get tokens token)"

definition default_tenant_of_capturing ::
  "(string \<Rightarrow> token_store_error + tenant_id option) \<Rightarrow> string \<Rightarrow> token_store_error + (tenant_id \<times> string option) option" where
  "default_tenant_of_capturing resolve token =
     (case resolve token of Inl e \<Rightarrow> Inl e | Inr r \<Rightarrow> Inr (map_option (\<lambda>t. (t, None)) r))"


section \<open>The breaker over a history\<close>

datatype breaker_event = Called nat | Responded | Failed nat

fun breaker_step :: "breaker_event \<Rightarrow> breaker \<Rightarrow> breaker" where
  "breaker_step (Called now) b = snd (on_call now b)"
| "breaker_step Responded b = on_endpoint_responded b"
| "breaker_step (Failed now) b = on_transient_failure now b"

fun event_time :: "breaker_event \<Rightarrow> nat option" where
  "event_time (Called now) = Some now"
| "event_time Responded = None"
| "event_time (Failed now) = Some now"

fun probes :: "breaker_event list \<Rightarrow> breaker \<Rightarrow> nat" where
  "probes [] b = 0"
| "probes (e # es) b =
     (case e of Called now \<Rightarrow> if fst (on_call now b) = GateProbe then 1 else 0 | _ \<Rightarrow> 0) + probes es (breaker_step e b)"

text \<open>The calls that ran out of attempts since the endpoint last responded.\<close>

fun streak :: "breaker_event list \<Rightarrow> nat \<Rightarrow> nat" where
  "streak [] n = n"
| "streak (Called now # es) n = streak es n"
| "streak (Responded # es) n = streak es 0"
| "streak (Failed now # es) n = streak es (n + 1)"

definition breaker_tracks :: "nat \<Rightarrow> breaker \<Rightarrow> bool" where
  "breaker_tracks n b \<longleftrightarrow> bc_threshold (br_cfg b) > 0 \<and>
     (case br_state b of
        BClosed k \<Rightarrow> unat k = n \<and> n < unat (bc_threshold (br_cfg b))
      | BOpen at \<Rightarrow> unat (bc_threshold (br_cfg b)) \<le> n)"

lemma breaker_step_cfg [simp]: "br_cfg (breaker_step e b) = br_cfg b"
  by (cases e) (auto simp: on_call_def on_endpoint_responded_def on_transient_failure_def split: breaker_state.splits)

lemma fold_breaker_cfg [simp]: "br_cfg (fold breaker_step es b) = br_cfg b"
  by (induction es arbitrary: b) simp_all

lemma failed_tracks:
  assumes "breaker_tracks n b"
  shows "breaker_tracks (n + 1) (on_transient_failure now b)"
proof (cases "br_state b")
  case (BClosed k)
  let ?t = "bc_threshold (br_cfg b)"
  have k: "unat k = n" "n < unat ?t" using assms BClosed by (simp_all add: breaker_tracks_def)
  moreover have "unat ?t < 2 ^ 32" using unsigned_less [of ?t, where ?'a = nat] by simp
  ultimately have s: "unat (k + 1) = n + 1" by (simp add: unat_word_ariths(1))
  then have "?t \<le> k + 1 \<longleftrightarrow> unat ?t \<le> n + 1" by (simp add: word_le_nat_alt)
  then show ?thesis using assms BClosed s by (auto simp: breaker_tracks_def on_transient_failure_def)
next
  case (BOpen at)
  then show ?thesis using assms by (auto simp: breaker_tracks_def on_transient_failure_def)
qed

lemma history_tracks:
  assumes "breaker_tracks n b"
  shows "breaker_tracks (streak es n) (fold breaker_step es b)"
  using assms
proof (induction es n arbitrary: b rule: streak.induct)
  case (2 now es n)
  then have "breaker_tracks n (snd (on_call now b))"
    by (auto simp: breaker_tracks_def on_call_def split: breaker_state.splits)
  then show ?case using "2.IH" by simp
next
  case (3 es n)
  then have "breaker_tracks 0 (on_endpoint_responded b)"
    by (auto simp: breaker_tracks_def on_endpoint_responded_def word_less_nat_alt)
  then show ?case using "3.IH" by simp
next
  case (4 now es n)
  then show ?case using failed_tracks by simp
qed simp

lemma new_tracks: "breaker_tracks 0 (breaker_new cfg)"
  by (auto simp: breaker_tracks_def breaker_new_def word_less_nat_alt max_def word_le_nat_alt)

text \<open>C16: the breaker is open exactly when the calls that exhausted their attempts since the endpoint last
  responded, at whatever times, number at least the configured threshold (at least one); closed, its
  32-bit counter is that number and has not wrapped. Calls that were only gated change neither.\<close>

theorem breaker_trips_exactly:
  "case br_state (fold breaker_step es (breaker_new cfg)) of
     BOpen at \<Rightarrow> max (unat (bc_threshold cfg)) 1 \<le> streak es 0
   | BClosed k \<Rightarrow> unat k = streak es 0 \<and> streak es 0 < max (unat (bc_threshold cfg)) 1"
  using history_tracks [OF new_tracks, of es cfg]
  by (auto simp: breaker_tracks_def breaker_new_def max_def word_le_nat_alt word_less_nat_alt split: breaker_state.splits if_splits)

definition in_window :: "nat \<Rightarrow> nat \<Rightarrow> breaker_event \<Rightarrow> bool" where
  "in_window a d e \<longleftrightarrow> (case event_time e of None \<Rightarrow> True | Some now \<Rightarrow> a \<le> now \<and> now < a + d)"

definition calm :: "nat \<Rightarrow> breaker \<Rightarrow> bool" where
  "calm a b \<longleftrightarrow> (case br_state b of BClosed k \<Rightarrow> True | BOpen at \<Rightarrow> a \<le> at)"

lemma calm_step: "calm a b \<Longrightarrow> in_window a d e \<Longrightarrow> calm a (breaker_step e b)"
  by (cases e) (auto simp: calm_def in_window_def on_call_def on_endpoint_responded_def on_transient_failure_def
      split: breaker_state.splits)

lemma calm_no_probe:
  "calm a b \<Longrightarrow> in_window a (bc_cooldown (br_cfg b)) (Called now) \<Longrightarrow> fst (on_call now b) \<noteq> GateProbe"
  by (auto simp: calm_def in_window_def on_call_def split: breaker_state.splits)

lemma probe_calms: "in_window a d (Called now) \<Longrightarrow> fst (on_call now b) = GateProbe \<Longrightarrow> calm a (snd (on_call now b))"
  by (auto simp: calm_def in_window_def on_call_def split: breaker_state.splits if_splits)

lemma calm_probes: "calm a b \<Longrightarrow> list_all (in_window a (bc_cooldown (br_cfg b))) es \<Longrightarrow> probes es b = 0"
proof (induction es arbitrary: b)
  case (Cons e es)
  then have "calm a (breaker_step e b)" by (auto intro: calm_step)
  then have "probes es (breaker_step e b) = 0" using Cons by simp
  then show ?case using Cons.prems calm_no_probe by (auto split: breaker_event.split)
qed simp

text \<open>C17: at most one recovery probe per cooldown. Whatever state the breaker is in and however calls,
  responses and failures interleave, any run of them whose clock readings fall within one cooldown, in
  order or not, admits at most one probe.\<close>

theorem one_probe_per_cooldown:
  assumes "list_all (in_window a (bc_cooldown (br_cfg b))) es"
  shows "probes es b \<le> 1"
  using assms
proof (induction es arbitrary: b)
  case (Cons e es)
  have rest: "list_all (in_window a (bc_cooldown (br_cfg (breaker_step e b)))) es" using Cons.prems by simp
  show ?case
  proof (cases "\<exists>now. e = Called now \<and> fst (on_call now b) = GateProbe")
    case True
    then have "calm a (breaker_step e b)" using probe_calms Cons.prems by auto
    then have "probes es (breaker_step e b) = 0" using calm_probes rest by blast
    then show ?thesis by (simp split: breaker_event.split)
  next
    case False
    then have "probes (e # es) b = probes es (breaker_step e b)" by (auto split: breaker_event.split)
    then show ?thesis using Cons.IH [OF rest] by simp
  qed
qed simp

lemma one_probe_per_cooldown_witness:
  "probes [Called 7, Called 8, Failed 9, Called 11] \<lparr>br_cfg = \<lparr>bc_threshold = 1, bc_cooldown = 5\<rparr>, br_state = BOpen 1, br_opened = 1\<rparr> = 1"
proof -
  let ?b = "\<lparr>br_cfg = \<lparr>bc_threshold = 1, bc_cooldown = 5\<rparr>, br_state = BOpen 1, br_opened = 1\<rparr>"
  have "probes [Called 7, Called 8, Failed 9, Called 11] ?b \<le> 1"
    by (rule one_probe_per_cooldown [of 7]) (simp add: in_window_def)
  moreover have "fst (on_call 7 ?b) = GateProbe" by (simp add: on_call_def)
  ultimately show ?thesis by simp
qed


section \<open>The verdicts behind an admission\<close>

text \<open>The exchanges with the endpoint, recorded beside the world.\<close>

record exchange =
  ex_request :: string
  ex_reply :: "string + http_response"
  ex_at :: nat

definition logged :: "'w introspect_env \<Rightarrow> ('w \<times> exchange list) introspect_env" where
  "logged env = \<lparr>
     ie_post = (\<lambda>url secret body (w, log).
        let (reply, w') = ie_post env url secret body w in
        (reply, w', log @ [\<lparr>ex_request = body, ex_reply = reply, ex_at = ie_clock env w'\<rparr>])),
     ie_clock = (\<lambda>(w, log). ie_clock env w),
     ie_backoff = (\<lambda>(w, log). (ie_backoff env w, log))\<rparr>"

definition answers :: "(string \<Rightarrow> string) \<Rightarrow> string \<Rightarrow> string \<Rightarrow> exchange \<Rightarrow> bool" where
  "answers to_body token body ex \<longleftrightarrow> ex_request ex = to_body token \<and>
     (case ex_reply ex of Inl e \<Rightarrow> False | Inr resp \<Rightarrow> hr_status resp = 200 \<and> hr_body resp = body)"

definition says_tenant :: "(string \<Rightarrow> json option) \<Rightarrow> string \<Rightarrow> tenant_id \<Rightarrow> bool" where
  "says_tenant from_str body t \<longleftrightarrow>
     (\<exists>v s. from_str body = Some v \<and> json_get v ''valid'' = Some (JBool True) \<and>
        json_get v ''tenant_id'' = Some (JStr s) \<and> tenant_new s = Inr t)"

lemma attempts_log:
  "introspect_attempts (logged env) cfg body n b (w, log) = (out, b', w', log') \<Longrightarrow>
     \<exists>xs. log' = log @ xs \<and>
       (\<forall>r. out = Body200 r \<longrightarrow> (\<exists>ys ex. xs = ys @ [ex] \<and> ex_at ex = ie_clock env w' \<and> ex_request ex = body \<and>
          (\<exists>resp. ex_reply ex = Inr resp \<and> hr_status resp = 200 \<and> hr_body resp = r)))"
proof (induction n arbitrary: w log)
  case (Suc n)
  obtain reply u where post: "ie_post env (au_url cfg) (au_secret cfg) body w = (reply, u)" by fastforce
  let ?ex = "\<lparr>ex_request = body, ex_reply = reply, ex_at = ie_clock env u\<rparr>"
  let ?u = "if n = 0 then u else ie_backoff env u"
  let ?retry = "introspect_attempts (logged env) cfg body n b (?u, log @ [?ex])"
  note eq = Suc.prems [unfolded introspect_attempts.simps]
  consider (answered) resp where "reply = Inr resp" "hr_status resp < 500" | (retry) "?retry = (out, b', w', log')"
    using eq post by (cases reply) (auto simp: logged_def split: if_splits)
  then show ?case
  proof cases
    case answered
    then show ?thesis using eq post by (auto simp: logged_def split: if_splits)
  next
    case retry
    then show ?thesis using Suc.IH [of ?u "log @ [?ex]"] by fastforce
  qed
qed simp

lemma parse_introspect_200_valid: "parse_introspect_200 from_str body = Inr (Some t) \<Longrightarrow> says_tenant from_str body t"
  by (auto simp: parse_introspect_200_def says_tenant_def json_views bind_eq_Some_conv
      elim!: as_bool.elims split: option.splits if_splits sum.splits)

definition vouched ::
  "(string \<Rightarrow> json option) \<Rightarrow> (string \<Rightarrow> string) \<Rightarrow> string \<Rightarrow> tenant_id \<Rightarrow> string option \<Rightarrow> exchange \<Rightarrow> bool" where
  "vouched from_str to_body token t c ex \<longleftrightarrow>
     (\<exists>body. c = Some body \<and> answers to_body token body ex \<and> says_tenant from_str body t)"

lemma capturing_log:
  assumes "tenant_of_capturing (logged env) from_str to_body cfg token b (w, log) = (r, b', w', log')"
  shows "\<exists>xs. log' = log @ xs \<and>
    (\<forall>t c. r = Inr (Some (t, c)) \<longrightarrow> (\<exists>ex \<in> set xs. vouched from_str to_body token t c ex \<and> ex_at ex = ie_clock env w'))"
proof -
  obtain out v where run: "run_introspect (logged env) cfg (to_body token) b (w, log) = (out, b', w', log')"
    using assms by (auto simp: tenant_of_capturing_def split: prod.splits introspect_outcome.splits sum.splits option.splits)
  have "\<exists>xs. log' = log @ xs \<and>
       (\<forall>r. out = Body200 r \<longrightarrow> (\<exists>ex \<in> set xs. ex_at ex = ie_clock env w' \<and> answers to_body token r ex))"
  proof (cases "fst (on_call (ie_clock (logged env) (w, log)) b) = GateReject")
    case True
    then show ?thesis using run by (auto simp: run_introspect_def split: prod.splits)
  next
    case False
    then obtain b1 where "introspect_attempts (logged env) cfg (to_body token) INTROSPECT_ATTEMPTS b1 (w, log) = (out, b', w', log')"
      using run by (auto simp: run_introspect_def split: prod.splits breaker_gate.splits)
    then show ?thesis using attempts_log by (fastforce simp: answers_def)
  qed
  then obtain xs where "log' = log @ xs"
    and xs: "\<And>r. out = Body200 r \<Longrightarrow> \<exists>ex \<in> set xs. ex_at ex = ie_clock env w' \<and> answers to_body token r ex"
    by auto
  moreover have "\<exists>ex \<in> set xs. vouched from_str to_body token t c ex \<and> ex_at ex = ie_clock env w'"
    if r: "r = Inr (Some (t, c))" for t c
  proof -
    obtain body where "out = Body200 body" "c = Some body" "parse_introspect_200 from_str body = Inr (Some t)"
      using assms run r
      by (auto simp: tenant_of_capturing_def split: introspect_outcome.splits sum.splits option.splits)
    then show ?thesis using xs parse_introspect_200_valid by (fastforce simp: vouched_def)
  qed
  ultimately show ?thesis by blast
qed

definition cache_vouched ::
  "(string \<Rightarrow> string) \<Rightarrow> (string \<Rightarrow> json option) \<Rightarrow> (string \<Rightarrow> string) \<Rightarrow> exchange list \<Rightarrow> introspect_cache \<Rightarrow> bool" where
  "cache_vouched key_of from_str to_body log c \<longleftrightarrow>
     (\<forall>k e. hm_get (ic_map c) k = Some e \<longrightarrow>
        (\<exists>token ex. key_of token = k \<and> ex \<in> set log \<and> vouched from_str to_body token (ce_tenant e) (ce_body e) ex \<and>
           ce_expires_at e = ex_at ex + ic_ttl c))"

lemma cache_vouched_mono: "cache_vouched key_of fs tb log c \<Longrightarrow> cache_vouched key_of fs tb (log @ xs) c"
  unfolding cache_vouched_def by fastforce

lemma cache_get_vouched:
  assumes "cache_vouched key_of fs tb log c" and "cache_get key_of now token c = (r, c')"
  shows "cache_vouched key_of fs tb log c' \<and> ic_ttl c' = ic_ttl c \<and>
    (\<forall>t body. r = Some (t, body) \<longrightarrow> (\<exists>token' ex. key_of token' = key_of token \<and> ex \<in> set log \<and>
       vouched fs tb token' t body ex \<and> now < ex_at ex + ic_ttl c))"
  using assms by (fastforce simp: cache_get_def cache_vouched_def split: if_splits option.splits)

lemma cache_put_get:
  assumes "hm_get (ic_map (cache_put key_of now token t body c)) k = Some e" and "hm_wf (ic_map c)"
  shows "hm_get (ic_map c) k = Some e \<or>
    k = key_of token \<and> e = \<lparr>ce_tenant = t, ce_body = body, ce_expires_at = now + ic_ttl c\<rparr>"
proof -
  have "hm_get (filter P (ic_map c)) k = Some e \<Longrightarrow> hm_get (ic_map c) k = Some e" for P
    using assms(2) map_of_SomeD [of "filter P (ic_map c)" k e] by simp
  then show ?thesis using assms(1) by (auto simp: cache_put_def Let_def split: if_splits)
qed

lemma cache_put_vouched:
  assumes "cache_vouched key_of fs tb log c" and "hm_wf (ic_map c)"
    and "ex \<in> set log" and "vouched fs tb token t body ex" and "ex_at ex = now"
  shows "cache_vouched key_of fs tb log (cache_put key_of now token t body c)"
proof -
  have ttl: "ic_ttl (cache_put key_of now token t body c) = ic_ttl c" by (simp add: cache_put_def Let_def)
  show ?thesis
    unfolding cache_vouched_def ttl
  proof (intro allI impI)
    fix k e
    assume "hm_get (ic_map (cache_put key_of now token t body c)) k = Some e"
    from cache_put_get [OF this assms(2)]
    consider "hm_get (ic_map c) k = Some e" | "k = key_of token" "e = \<lparr>ce_tenant = t, ce_body = body, ce_expires_at = now + ic_ttl c\<rparr>"
      by blast
    then show "\<exists>token ex. key_of token = k \<and> ex \<in> set log \<and> vouched fs tb token (ce_tenant e) (ce_body e) ex \<and>
        ce_expires_at e = ex_at ex + ic_ttl c"
      using assms by cases (auto simp: cache_vouched_def)
  qed
qed

lemma cache_put_bounded:
  assumes "hm_wf (ic_map c)" and "length (ic_map c) \<le> ic_max_entries c"
  shows "hm_wf (ic_map (cache_put key_of now token t body c)) \<and>
    length (ic_map (cache_put key_of now token t body c)) \<le> ic_max_entries c"
proof -
  have wf: "hm_wf (filter P (ic_map c))" for P using assms(1) by (rule distinct_map_filter)
  have len: "length (filter P (ic_map c)) \<le> length (ic_map c)" for P by simp
  have upd: "length (hm_insert k v m) = (if hm_contains k m then length m else length m + 1)"
    for k :: string and v :: cache_entry and m
    by (induction m) (auto simp: hm_contains_def)
  have "hm_contains k (filter P (ic_map c)) \<Longrightarrow> hm_contains k (ic_map c)" for k P
    by (auto simp: hm_contains_iff)
  then show ?thesis using assms wf len by (auto simp: cache_put_def Let_def upd not_le Suc_le_eq)
qed

datatype 'w auth_event = Request "string option" | Elsewhere "'w \<Rightarrow> 'w" nat breaker

text \<open>A history: requests, and between them any change of the world, the free permits and the shared
  breaker by the rest of the system.\<close>

fun auth_step ::
  "(string \<Rightarrow> string) \<Rightarrow> 'w introspect_env \<Rightarrow> (string \<Rightarrow> json option) \<Rightarrow> (string \<Rightarrow> string) \<Rightarrow> auth_config
     \<Rightarrow> 'w auth_event \<Rightarrow> ('w \<times> exchange list) auth_state \<Rightarrow> ('w \<times> exchange list) auth_state" where
  "auth_step key_of env from_str to_body cfg (Request header) s =
     snd (require_tenant key_of (ie_clock (logged env)) (corelink_store (logged env) from_str to_body cfg) header s)"
| "auth_step key_of env from_str to_body cfg (Elsewhere f permits b) s =
     s\<lparr>as_world := map_prod f id (as_world s), as_permits := permits, as_breaker := b\<rparr>"

definition auth_fresh :: "nat \<Rightarrow> nat \<Rightarrow> nat \<Rightarrow> breaker \<Rightarrow> 'w \<Rightarrow> ('w \<times> exchange list) auth_state" where
  "auth_fresh ttl max_entries permits b w =
     \<lparr>as_cache = introspect_cache_new ttl max_entries, as_breaker = b, as_permits = permits, as_world = (w, [])\<rparr>"

definition auth_inv ::
  "(string \<Rightarrow> string) \<Rightarrow> (string \<Rightarrow> json option) \<Rightarrow> (string \<Rightarrow> string) \<Rightarrow> nat \<Rightarrow> nat \<Rightarrow> ('w \<times> exchange list) auth_state \<Rightarrow> bool" where
  "auth_inv key_of from_str to_body ttl max_entries s \<longleftrightarrow>
     cache_vouched key_of from_str to_body (snd (as_world s)) (as_cache s) \<and> ic_ttl (as_cache s) = ttl \<and>
     hm_wf (ic_map (as_cache s)) \<and> length (ic_map (as_cache s)) \<le> ic_max_entries (as_cache s) \<and>
     ic_max_entries (as_cache s) = max max_entries 1"

lemma cache_get_shape:
  assumes "cache_get key_of now token c = (r, c')"
  shows "ic_max_entries c' = ic_max_entries c \<and> length (ic_map c') \<le> length (ic_map c) \<and> (hm_wf (ic_map c) \<longrightarrow> hm_wf (ic_map c'))"
  using assms by (auto simp: cache_get_def AList.length_delete_le split: if_splits option.splits)

lemma cached_request:
  assumes inv: "auth_inv key_of fs tb ttl n s" and token: "bearer_token header = Some token"
    and get: "cache_get key_of (ie_clock (logged env) (as_world s)) token (as_cache s) = (r, c)"
  shows "auth_inv key_of fs tb ttl n (s\<lparr>as_cache := c\<rparr>) \<and>
    (\<forall>t body. r = Some (t, body) \<longrightarrow> (\<exists>token' ex. key_of token' = key_of token \<and> ex \<in> set (snd (as_world s)) \<and>
       vouched fs tb token' t body ex \<and> ie_clock env (fst (as_world s)) < ex_at ex + ttl))"
  using cache_get_vouched [OF _ get] cache_get_shape [OF get] inv
  by (cases "as_world s") (auto simp: auth_inv_def logged_def)

lemma resolved_request:
  assumes inv: "auth_inv key_of fs tb ttl n s"
    and lead: "auth_leader (corelink_store (logged env) fs tb cfg) token s = (leg, s1)"
    and fin: "auth_finish key_of (ie_clock (logged env) (as_world s1)) token leg (as_cache s1) = (reply, c)"
  shows "auth_inv key_of fs tb ttl n (s1\<lparr>as_cache := c\<rparr>) \<and>
    (\<exists>xs. snd (as_world s1) = snd (as_world s) @ xs \<and>
       (\<forall>t body. reply = Admit t body \<longrightarrow> (\<exists>ex \<in> set xs. vouched fs tb token t body ex)))"
proof (cases "as_permits s = 0")
  case True
  then show ?thesis using assms by (auto simp: auth_leader_def auth_finish_def)
next
  case False
  obtain w log where w: "as_world s = (w, log)" by fastforce
  obtain r b w' log' where cap: "tenant_of_capturing (logged env) fs tb cfg token (as_breaker s) (w, log) = (r, b, w', log')"
    by (metis prod_cases4)
  then have leg: "leg = Resolved r" and s1: "s1 = s\<lparr>as_breaker := b, as_world := (w', log')\<rparr>"
    using lead False w by (simp_all add: auth_leader_def corelink_store_def)
  obtain xs where log': "log' = log @ xs"
    and xs: "\<And>t c. r = Inr (Some (t, c)) \<Longrightarrow> \<exists>ex \<in> set xs. vouched fs tb token t c ex \<and> ex_at ex = ie_clock env w'"
    using capturing_log [OF cap] by blast
  have inv1: "auth_inv key_of fs tb ttl n s1"
    using inv w log' cache_vouched_mono by (simp add: s1 auth_inv_def)
  show ?thesis
  proof (cases "\<exists>t body. r = Inr (Some (t, body))")
    case True
    then obtain t body where r: "r = Inr (Some (t, body))" by blast
    obtain ex where ex: "ex \<in> set xs" "vouched fs tb token t body ex" "ex_at ex = ie_clock env w'" using xs r by blast
    have c: "reply = Admit t body" "c = cache_put key_of (ie_clock env w') token t body (as_cache s1)"
      using fin leg r by (simp_all add: auth_finish_def s1 logged_def)
    have "cache_vouched key_of fs tb log' c"
      unfolding c(2) using inv1 ex log' by (intro cache_put_vouched) (auto simp: auth_inv_def s1)
    moreover have "ic_ttl c = ic_ttl (as_cache s1)" "ic_max_entries c = ic_max_entries (as_cache s1)"
      by (simp_all add: c(2) cache_put_def Let_def)
    ultimately show ?thesis
      using inv1 cache_put_bounded [of "as_cache s1"] ex c log' w by (auto simp: auth_inv_def s1)
  next
    case False
    then have "c = as_cache s1" "\<And>t body. reply \<noteq> Admit t body"
      using fin leg by (auto simp: auth_finish_def split: sum.splits option.splits token_store_error.splits)
    then show ?thesis using inv1 log' w by (auto simp: s1)
  qed
qed

lemma require_tenant_inv:
  assumes inv: "auth_inv key_of fs tb ttl n s"
    and req: "require_tenant key_of (ie_clock (logged env)) (corelink_store (logged env) fs tb cfg) header s = (reply, s')"
  shows "auth_inv key_of fs tb ttl n s' \<and>
    (\<exists>xs. snd (as_world s') = snd (as_world s) @ xs \<and>
       (\<forall>t body. reply = Admit t body \<longrightarrow> (\<exists>token. bearer_token header = Some token \<and>
          ((\<exists>ex \<in> set xs. vouched fs tb token t body ex) \<or>
           (\<exists>token' ex. key_of token' = key_of token \<and> ex \<in> set (snd (as_world s)) \<and> vouched fs tb token' t body ex \<and>
              ie_clock env (fst (as_world s)) < ex_at ex + ttl)))))"
proof (cases "bearer_token header")
  case None
  then show ?thesis using assms by (simp add: require_tenant_def)
next
  case (Some token)
  obtain r c where get: "cache_get key_of (ie_clock (logged env) (as_world s)) token (as_cache s) = (r, c)" by fastforce
  note hit = cached_request [OF inv Some get]
  show ?thesis
  proof (cases r)
    case None
    obtain leg s1 where lead: "auth_leader (corelink_store (logged env) fs tb cfg) token (s\<lparr>as_cache := c\<rparr>) = (leg, s1)" by fastforce
    obtain c' where "auth_finish key_of (ie_clock (logged env) (as_world s1)) token leg (as_cache s1) = (reply, c')"
      and "s' = s1\<lparr>as_cache := c'\<rparr>"
      using req Some get None lead by (auto simp: require_tenant_def split: prod.splits)
    then show ?thesis using resolved_request [OF _ lead] hit Some by fastforce
  next
    case (Some p)
    then show ?thesis using hit req get \<open>bearer_token header = Some token\<close>
      by (cases p) (fastforce simp: require_tenant_def)
  qed
qed

lemma history_auth_inv:
  "auth_inv key_of fs tb ttl n (fold (auth_step key_of env fs tb cfg) es (auth_fresh ttl n permits b w))"
proof (rule fold_invariant [where P = "auth_inv key_of fs tb ttl n" and Q = "\<lambda>_. True"])
  fix e and s :: "('a \<times> exchange list) auth_state"
  assume "auth_inv key_of fs tb ttl n s"
  then show "auth_inv key_of fs tb ttl n (auth_step key_of env fs tb cfg e s)"
  proof (cases e)
    case (Request header)
    then show ?thesis using require_tenant_inv \<open>auth_inv key_of fs tb ttl n s\<close>
      by (metis auth_step.simps(1) prod.exhaust_sel)
  next
    case (Elsewhere f p c)
    then show ?thesis using \<open>auth_inv key_of fs tb ttl n s\<close> by (simp add: auth_inv_def)
  qed
qed (simp_all add: auth_fresh_def auth_inv_def introspect_cache_new_def cache_vouched_def)


text \<open>An endpoint that vouches for every token, with a clock that advances by one on each exchange.\<close>

definition sample_env :: "nat introspect_env" where
  "sample_env = \<lparr>ie_post = (\<lambda>url secret body w. (Inr \<lparr>hr_status = 200, hr_body = ''ok''\<rparr>, w + 1)),
     ie_clock = (\<lambda>w. w), ie_backoff = (\<lambda>w. w)\<rparr>"

definition sample_from_str :: "string \<Rightarrow> json option" where
  "sample_from_str s = (if s = ''ok'' then Some (JObject [(''valid'', JBool True), (''tenant_id'', JStr ''acme'')]) else None)"

definition sample_cfg :: auth_config where
  "sample_cfg = \<lparr>au_url = ''u'', au_secret = ''s''\<rparr>"

definition sample_state :: "(nat \<times> exchange list) auth_state" where
  "sample_state = fold (auth_step id sample_env sample_from_str id sample_cfg) [Request (Some ''Bearer k'')]
     (auth_fresh 10 4 1 (breaker_new \<lparr>bc_threshold = 1, bc_cooldown = 3\<rparr>) 0)"


lemma cache_stays_bounded:
  "length (ic_map (as_cache (fold (auth_step key_of env from_str to_body cfg) es (auth_fresh ttl n permits b w)))) \<le> max n 1"
  using history_auth_inv by (metis auth_inv_def)

end
