(* ===== verification/Coalesce.thy ===== *)
theory Coalesce
  imports Introspect
begin

text \<open>
  The single-flight coalescer, \<open>corelink-fabric-server/src/introspect_coalesce.rs\<close>, as a state machine
  over the interleavings of its callers. A flight is one shared slot with its watch channel; the map holds a
  weak reference to it, the leader and the followers hold strong ones. The critical sections under the map
  lock and the channel operations are the atomic steps.
\<close>

section \<open>Flights\<close>

record ('k, 'v) flight =
  fl_key :: 'k
  fl_guard :: bool
  fl_tx :: bool
  fl_value :: "'v option"
  fl_waiters :: "nat list"

record ('k, 'v) coalescer =
  co_map :: "('k, nat) hmap"
  co_flights :: "('k, 'v) flight list"

definition coalescer_new :: "('k, 'v) coalescer" where
  "coalescer_new = \<lparr>co_map = [], co_flights = []\<rparr>"

text \<open>\<open>Weak::upgrade\<close> succeeds while the leader or a follower holds the flight.\<close>

definition upgrade :: "('k, 'v) flight \<Rightarrow> bool" where
  "upgrade fl \<longleftrightarrow> fl_tx fl \<or> fl_waiters fl \<noteq> []"

datatype flight_role = Leader nat | Follower nat

definition live_flight :: "'k \<Rightarrow> ('k, 'v) coalescer \<Rightarrow> nat option" where
  "live_flight key s =
     (case hm_get (co_map s) key of
        None \<Rightarrow> None
      | Some f \<Rightarrow> if upgrade (co_flights s ! f) then Some f else None)"

definition enter :: "nat \<Rightarrow> 'k \<Rightarrow> ('k, 'v) coalescer \<Rightarrow> flight_role \<times> ('k, 'v) coalescer" where
  "enter caller key s =
     (case live_flight key s of
        Some f \<Rightarrow>
          (Follower f,
           s\<lparr>co_flights := (co_flights s)[f := (co_flights s ! f)\<lparr>fl_waiters := caller # fl_waiters (co_flights s ! f)\<rparr>]\<rparr>)
      | None \<Rightarrow>
          let f = length (co_flights s) in
          (Leader f,
           s\<lparr>co_map := hm_insert key f (co_map s),
             co_flights := co_flights s @
               [\<lparr>fl_key = key, fl_guard = True, fl_tx = True, fl_value = None, fl_waiters = []\<rparr>]\<rparr>))"

definition update_flight :: "nat \<Rightarrow> (('k, 'v) flight \<Rightarrow> ('k, 'v) flight) \<Rightarrow> ('k, 'v) coalescer \<Rightarrow> ('k, 'v) coalescer" where
  "update_flight f g s = s\<lparr>co_flights := (co_flights s)[f := g (co_flights s ! f)]\<rparr>"

definition publish :: "nat \<Rightarrow> 'v \<Rightarrow> ('k, 'v) coalescer \<Rightarrow> ('k, 'v) coalescer" where
  "publish f v = update_flight f (\<lambda>fl. fl\<lparr>fl_value := Some v\<rparr>)"

text \<open>Dropping the guard removes the slot if it still points at this flight; it precedes the drop of the
  sender, the locals being dropped in reverse order of declaration.\<close>

definition drop_guard :: "nat \<Rightarrow> ('k, 'v) coalescer \<Rightarrow> ('k, 'v) coalescer" where
  "drop_guard f s =
     (let key = fl_key (co_flights s ! f);
          s' = (if hm_get (co_map s) key = Some f then s\<lparr>co_map := hm_remove key (co_map s)\<rparr> else s)
      in update_flight f (\<lambda>fl. fl\<lparr>fl_guard := False\<rparr>) s')"

definition drop_tx :: "nat \<Rightarrow> ('k, 'v) coalescer \<Rightarrow> ('k, 'v) coalescer" where
  "drop_tx f = update_flight f (\<lambda>fl. fl\<lparr>fl_tx := False\<rparr>)"

text \<open>\<open>Shared::wait\<close> polled once: \<open>None\<close> is pending, \<open>Some None\<close> a closed channel without a value.\<close>

definition wait_poll :: "('k, 'v) flight \<Rightarrow> 'v option option" where
  "wait_poll fl = (case fl_value fl of Some v \<Rightarrow> Some (Some v) | None \<Rightarrow> if fl_tx fl then None else Some None)"

definition leave :: "nat \<Rightarrow> nat \<Rightarrow> ('k, 'v) coalescer \<Rightarrow> ('k, 'v) coalescer" where
  "leave caller f = update_flight f (\<lambda>fl. fl\<lparr>fl_waiters := remove1 caller (fl_waiters fl)\<rparr>)"


section \<open>Interleavings\<close>

datatype ('k, 'v) flight_event =
    Enter nat 'k flight_role
  | Publish nat 'v
  | DropGuard nat
  | DropTx nat
  | Wake nat nat 'v
  | Cancel nat nat

inductive co_step :: "'v \<Rightarrow> ('k, 'v) coalescer \<Rightarrow> ('k, 'v) flight_event \<Rightarrow> ('k, 'v) coalescer \<Rightarrow> bool"
  for fail_closed :: 'v where
  step_enter: "enter c k s = (role, s') \<Longrightarrow> co_step fail_closed s (Enter c k role) s'"
| step_publish:
    "f < length (co_flights s) \<Longrightarrow> fl_guard (co_flights s ! f) \<Longrightarrow> fl_value (co_flights s ! f) = None
       \<Longrightarrow> co_step fail_closed s (Publish f v) (publish f v s)"
| step_guard:
    "f < length (co_flights s) \<Longrightarrow> fl_guard (co_flights s ! f) \<Longrightarrow> co_step fail_closed s (DropGuard f) (drop_guard f s)"
| step_tx:
    "f < length (co_flights s) \<Longrightarrow> \<not> fl_guard (co_flights s ! f) \<Longrightarrow> fl_tx (co_flights s ! f)
       \<Longrightarrow> co_step fail_closed s (DropTx f) (drop_tx f s)"
| step_wake:
    "f < length (co_flights s) \<Longrightarrow> c \<in> set (fl_waiters (co_flights s ! f)) \<Longrightarrow> wait_poll (co_flights s ! f) = Some r
       \<Longrightarrow> co_step fail_closed s (Wake c f (case r of Some v \<Rightarrow> v | None \<Rightarrow> fail_closed)) (leave c f s)"
| step_cancel:
    "f < length (co_flights s) \<Longrightarrow> c \<in> set (fl_waiters (co_flights s ! f))
       \<Longrightarrow> co_step fail_closed s (Cancel c f) (leave c f s)"

text \<open>A run, with the events that led to its state.\<close>

inductive flights :: "'v \<Rightarrow> ('k, 'v) flight_event list \<Rightarrow> ('k, 'v) coalescer \<Rightarrow> bool"
  for fail_closed :: 'v where
  flights_new: "flights fail_closed [] coalescer_new"
| flights_step: "flights fail_closed tr s \<Longrightarrow> co_step fail_closed s e s' \<Longrightarrow> flights fail_closed (tr @ [e]) s'"

inductive_cases wakeE: "co_step fail_closed s (Wake c f v) s'"


section \<open>The invariant\<close>

definition joined :: "('k, 'v) flight_event list \<Rightarrow> nat \<Rightarrow> nat \<Rightarrow> 'k \<Rightarrow> bool" where
  "joined tr c f k \<longleftrightarrow> (\<exists>pre post. tr = pre @ Enter c k (Follower f) # post \<and> DropGuard f \<notin> set pre \<and>
     (\<exists>c0. Enter c0 k (Leader f) \<in> set pre))"

definition flight_ok :: "('k, 'v) flight_event list \<Rightarrow> nat \<Rightarrow> ('k, 'v) flight \<Rightarrow> bool" where
  "flight_ok tr f fl \<longleftrightarrow>
     (fl_guard fl \<longrightarrow> fl_tx fl) \<and>
     (DropGuard f \<in> set tr \<longleftrightarrow> \<not> fl_guard fl) \<and> (DropTx f \<in> set tr \<longleftrightarrow> \<not> fl_tx fl) \<and>
     (\<forall>v. Publish f v \<in> set tr \<longleftrightarrow> fl_value fl = Some v) \<and>
     (\<exists>c. Enter c (fl_key fl) (Leader f) \<in> set tr) \<and>
     (\<forall>c \<in> set (fl_waiters fl). joined tr c f (fl_key fl))"

definition co_inv :: "('k, 'v) flight_event list \<Rightarrow> ('k, 'v) coalescer \<Rightarrow> bool" where
  "co_inv tr s \<longleftrightarrow>
     (\<forall>k f. hm_get (co_map s) k = Some f \<longleftrightarrow>
        f < length (co_flights s) \<and> fl_key (co_flights s ! f) = k \<and> fl_guard (co_flights s ! f)) \<and>
     (\<forall>f < length (co_flights s). flight_ok tr f (co_flights s ! f)) \<and>
     (\<forall>f \<ge> length (co_flights s). DropGuard f \<notin> set tr \<and> DropTx f \<notin> set tr \<and> (\<forall>v. Publish f v \<notin> set tr))"

lemma update_flight_simps [simp]:
  "co_map (update_flight f g s) = co_map s"
  "length (co_flights (update_flight f g s)) = length (co_flights s)"
  "f < length (co_flights s) \<Longrightarrow> co_flights (update_flight f g s) ! f' = (if f' = f then g (co_flights s ! f) else co_flights s ! f')"
  by (simp_all add: update_flight_def)

lemma joined_mono: "joined tr c f k \<Longrightarrow> joined (tr @ [e]) c f k"
  unfolding joined_def by (metis append_Cons append_assoc)

fun about :: "('k, 'v) flight_event \<Rightarrow> nat option" where
  "about (Publish f v) = Some f"
| "about (DropGuard f) = Some f"
| "about (DropTx f) = Some f"
| "about _ = None"

lemma flight_ok_other:
  assumes "flight_ok tr f fl" and "about e \<noteq> Some f"
  shows "flight_ok (tr @ [e]) f fl"
proof -
  have "DropGuard f \<noteq> e" "DropTx f \<noteq> e" "\<And>v. Publish f v \<noteq> e" using assms(2) by auto
  then show ?thesis using assms(1) by (auto simp: flight_ok_def intro: joined_mono)
qed

text \<open>A step that changes one flight and leaves the map alone.\<close>

lemma update_inv:
  assumes inv: "co_inv tr s" and f: "f < length (co_flights s)"
    and e: "about e = None \<or> about e = Some f"
    and keep: "fl_key (g (co_flights s ! f)) = fl_key (co_flights s ! f)" "fl_guard (g (co_flights s ! f)) = fl_guard (co_flights s ! f)"
    and ok: "flight_ok (tr @ [e]) f (g (co_flights s ! f))"
  shows "co_inv (tr @ [e]) (update_flight f g s)"
proof -
  have "\<And>f'. f' \<ge> length (co_flights s) \<Longrightarrow> about e \<noteq> Some f'" using e f by auto
  then have fresh: "\<And>f'. f' \<ge> length (co_flights s) \<Longrightarrow>
      DropGuard f' \<notin> set (tr @ [e]) \<and> DropTx f' \<notin> set (tr @ [e]) \<and> (\<forall>v. Publish f' v \<notin> set (tr @ [e]))"
    using inv by (fastforce simp: co_inv_def)
  have others: "\<And>f'. f' < length (co_flights s) \<Longrightarrow> f' \<noteq> f \<Longrightarrow> flight_ok (tr @ [e]) f' (co_flights s ! f')"
    using inv e by (auto simp: co_inv_def intro!: flight_ok_other)
  have "(f' < length (co_flights s) \<and> fl_key (co_flights (update_flight f g s) ! f') = k \<and> fl_guard (co_flights (update_flight f g s) ! f'))
      \<longleftrightarrow> hm_get (co_map s) k = Some f'" for k f'
    using inv f keep by (simp add: co_inv_def)
  then show ?thesis using f ok others fresh by (simp add: co_inv_def)
qed

lemma enter_leader_inv:
  assumes inv: "co_inv tr s" and new: "live_flight k s = None"
  shows "co_inv (tr @ [Enter c k (Leader (length (co_flights s)))]) (snd (enter c k s))"
proof -
  let ?n = "length (co_flights s)" and ?e = "Enter c k (Leader (length (co_flights s)))"
  have none: "hm_get (co_map s) k = None"
  proof (rule ccontr)
    assume "hm_get (co_map s) k \<noteq> None"
    then obtain f where f: "hm_get (co_map s) k = Some f" by blast
    then have "fl_tx (co_flights s ! f)" using inv by (auto simp: co_inv_def flight_ok_def)
    then show False using new f by (simp add: live_flight_def upgrade_def)
  qed
  let ?fl = "\<lparr>fl_key = k, fl_guard = True, fl_tx = True, fl_value = None, fl_waiters = []\<rparr>"
  have s': "snd (enter c k s) = s\<lparr>co_map := hm_insert k ?n (co_map s), co_flights := co_flights s @ [?fl]\<rparr>"
    using new by (simp add: enter_def Let_def)
  have map: "hm_get (hm_insert k ?n (co_map s)) k' = Some f \<longleftrightarrow>
      f < ?n + 1 \<and> fl_key ((co_flights s @ [?fl]) ! f) = k' \<and> fl_guard ((co_flights s @ [?fl]) ! f)" for k' f
  proof (cases "f < ?n")
    case True
    have iff: "hm_get (co_map s) k'' = Some f \<longleftrightarrow> fl_key (co_flights s ! f) = k'' \<and> fl_guard (co_flights s ! f)" for k''
      using inv True by (simp add: co_inv_def)
    then show ?thesis using True none iff [of k] iff [of k'] by (auto simp: nth_append)
  next
    case False
    then have "hm_get (co_map s) k' \<noteq> Some f" using inv by (simp add: co_inv_def)
    then show ?thesis using False by (cases "f = ?n") (auto simp: nth_append)
  qed
  have "flight_ok (tr @ [?e]) ?n ?fl" using inv by (auto simp: co_inv_def flight_ok_def)
  moreover have "\<And>f. f < ?n \<Longrightarrow> flight_ok (tr @ [?e]) f (co_flights s ! f)"
    using inv by (auto simp: co_inv_def intro!: flight_ok_other)
  ultimately have "\<forall>f < ?n + 1. flight_ok (tr @ [?e]) f ((co_flights s @ [?fl]) ! f)"
    by (auto simp: nth_append less_Suc_eq)
  then show ?thesis using map inv by (simp add: s' co_inv_def)
qed

lemma enter_follower_inv:
  assumes inv: "co_inv tr s" and live: "live_flight k s = Some f"
  shows "co_inv (tr @ [Enter c k (Follower f)]) (snd (enter c k s))"
proof -
  have "hm_get (co_map s) k = Some f" using live by (auto simp: live_flight_def split: option.splits if_splits)
  then have f: "f < length (co_flights s)" "fl_key (co_flights s ! f) = k" "fl_guard (co_flights s ! f)"
    using inv by (auto simp: co_inv_def)
  let ?e = "Enter c k (Follower f)"
  have ok: "flight_ok tr f (co_flights s ! f)" using inv f(1) by (simp add: co_inv_def)
  then have "joined (tr @ [?e]) c f k"
    unfolding joined_def using f by (intro exI [of _ tr] exI [of _ "[]"]) (auto simp: flight_ok_def)
  then have "flight_ok (tr @ [?e]) f ((co_flights s ! f)\<lparr>fl_waiters := c # fl_waiters (co_flights s ! f)\<rparr>)"
    using flight_ok_other [OF ok, of ?e] f by (simp add: flight_ok_def)
  then have "co_inv (tr @ [?e]) (update_flight f (\<lambda>fl. fl\<lparr>fl_waiters := c # fl_waiters fl\<rparr>) s)"
    using inv f by (intro update_inv) simp_all
  then show ?thesis using live by (simp add: enter_def update_flight_def)
qed

lemma guard_inv:
  assumes inv: "co_inv tr s" and f: "f < length (co_flights s)" and g: "fl_guard (co_flights s ! f)"
  shows "co_inv (tr @ [DropGuard f]) (drop_guard f s)"
proof -
  let ?k = "fl_key (co_flights s ! f)" and ?e = "DropGuard f :: ('a, 'b) flight_event"
  have at: "hm_get (co_map s) ?k = Some f" using inv f g by (simp add: co_inv_def)
  then have s': "drop_guard f s = update_flight f (\<lambda>fl. fl\<lparr>fl_guard := False\<rparr>) (s\<lparr>co_map := hm_remove ?k (co_map s)\<rparr>)"
    by (simp add: drop_guard_def)
  have ok: "flight_ok tr f (co_flights s ! f)" using inv f by (simp add: co_inv_def)
  then have here: "flight_ok (tr @ [?e]) f ((co_flights s ! f)\<lparr>fl_guard := False\<rparr>)"
    by (auto simp: flight_ok_def intro: joined_mono)
  have others: "\<And>f'. f' < length (co_flights s) \<Longrightarrow> f' \<noteq> f \<Longrightarrow> flight_ok (tr @ [?e]) f' (co_flights s ! f')"
    using inv by (auto simp: co_inv_def intro!: flight_ok_other)
  have map: "hm_get (hm_remove ?k (co_map s)) k = Some f' \<longleftrightarrow>
      f' < length (co_flights s) \<and> f' \<noteq> f \<and> fl_key (co_flights s ! f') = k \<and> fl_guard (co_flights s ! f')" for k f'
  proof -
    have iff: "hm_get (co_map s) k = Some f' \<longleftrightarrow>
        f' < length (co_flights s) \<and> fl_key (co_flights s ! f') = k \<and> fl_guard (co_flights s ! f')" for k f'
      using inv by (simp add: co_inv_def)
    have "f' \<noteq> f \<Longrightarrow> hm_get (co_map s) ?k \<noteq> Some f'" using at by simp
    then show ?thesis using iff [of k f'] iff [of ?k f'] at by auto
  qed
  show ?thesis using f here others map inv by (auto simp: s' co_inv_def)
qed

lemma publish_inv:
  assumes inv: "co_inv tr s" and f: "f < length (co_flights s)" and v: "fl_value (co_flights s ! f) = None"
  shows "co_inv (tr @ [Publish f v]) (publish f v s)"
proof -
  have "flight_ok tr f (co_flights s ! f)" using inv f by (simp add: co_inv_def)
  then have "flight_ok (tr @ [Publish f v]) f ((co_flights s ! f)\<lparr>fl_value := Some v\<rparr>)"
    using v by (auto simp: flight_ok_def intro: joined_mono)
  then show ?thesis unfolding publish_def using inv f by (intro update_inv) simp_all
qed

lemma tx_inv:
  assumes inv: "co_inv tr s" and f: "f < length (co_flights s)" and g: "\<not> fl_guard (co_flights s ! f)"
  shows "co_inv (tr @ [DropTx f]) (drop_tx f s)"
proof -
  have "flight_ok tr f (co_flights s ! f)" using inv f by (simp add: co_inv_def)
  then have "flight_ok (tr @ [DropTx f]) f ((co_flights s ! f)\<lparr>fl_tx := False\<rparr>)"
    using g by (auto simp: flight_ok_def intro: joined_mono)
  then show ?thesis unfolding drop_tx_def using inv f by (intro update_inv) simp_all
qed

lemma leave_inv:
  assumes inv: "co_inv tr s" and f: "f < length (co_flights s)" and e: "about e = None"
  shows "co_inv (tr @ [e]) (leave c f s)"
proof -
  have "flight_ok (tr @ [e]) f (co_flights s ! f)" using inv f e by (auto simp: co_inv_def intro!: flight_ok_other)
  then have "flight_ok (tr @ [e]) f ((co_flights s ! f)\<lparr>fl_waiters := remove1 c (fl_waiters (co_flights s ! f))\<rparr>)"
    using set_remove1_subset by (fastforce simp: flight_ok_def)
  then show ?thesis unfolding leave_def using inv f e by (intro update_inv) simp_all
qed

lemma enter_inv:
  assumes "co_inv tr s" and "enter c k s = (role, s')"
  shows "co_inv (tr @ [Enter c k role]) s'"
proof (cases "live_flight k s")
  case None
  then show ?thesis using enter_leader_inv [OF assms(1) None, of c] assms(2) by (auto simp: enter_def Let_def)
next
  case (Some f)
  then show ?thesis using enter_follower_inv [OF assms(1) Some, of c] assms(2) by (auto simp: enter_def)
qed

lemma step_inv: "co_step fc s e s' \<Longrightarrow> co_inv tr s \<Longrightarrow> co_inv (tr @ [e]) s'"
  by (induction rule: co_step.induct) (auto intro: enter_inv publish_inv guard_inv tx_inv leave_inv)

lemma flights_inv: "flights fc tr s \<Longrightarrow> co_inv tr s"
proof (induction rule: flights.induct)
  case flights_new
  show ?case by (simp add: coalescer_new_def co_inv_def)
qed (rule step_inv)

text \<open>C14: single flight, in every interleaving. Two leaders of one key are never in flight together, and no
  follower waits on a flight whose leader is gone: it can return at once. Once the leader of a flight has
  released its slot, the next caller of that key leads a new flight, so no outcome outlives its flight.\<close>

theorem single_flight:
  assumes "flights fail_closed tr s" and "f < length (co_flights s)"
  shows "(\<forall>f' < length (co_flights s). fl_guard (co_flights s ! f) \<and> fl_guard (co_flights s ! f') \<and>
        fl_key (co_flights s ! f) = fl_key (co_flights s ! f') \<longrightarrow> f = f') \<and>
    (\<forall>c \<in> set (fl_waiters (co_flights s ! f)). \<not> fl_tx (co_flights s ! f) \<longrightarrow>
        (\<exists>v s'. co_step fail_closed s (Wake c f v) s')) \<and>
    (\<forall>c k. fst (enter c k s) = Follower f \<longrightarrow> fl_guard (co_flights s ! f) \<and> fl_key (co_flights s ! f) = k)"
proof (intro conjI)
  have "co_inv tr s" using assms(1) by (rule flights_inv)
  then have iff: "hm_get (co_map s) k = Some f \<longleftrightarrow>
      f < length (co_flights s) \<and> fl_key (co_flights s ! f) = k \<and> fl_guard (co_flights s ! f)" for k f
    by (simp add: co_inv_def)
  show "\<forall>f' < length (co_flights s). fl_guard (co_flights s ! f) \<and> fl_guard (co_flights s ! f') \<and>
      fl_key (co_flights s ! f) = fl_key (co_flights s ! f') \<longrightarrow> f = f'"
    using iff assms(2) by (metis option.inject)
  have "\<not> fl_tx (co_flights s ! f) \<Longrightarrow> \<exists>r. wait_poll (co_flights s ! f) = Some r"
    by (simp add: wait_poll_def split: option.split)
  then show "\<forall>c \<in> set (fl_waiters (co_flights s ! f)). \<not> fl_tx (co_flights s ! f) \<longrightarrow>
      (\<exists>v s'. co_step fail_closed s (Wake c f v) s')"
    using assms(2) by (metis step_wake)
  show "\<forall>c k. fst (enter c k s) = Follower f \<longrightarrow> fl_guard (co_flights s ! f) \<and> fl_key (co_flights s ! f) = k"
    using iff by (auto simp: enter_def live_flight_def Let_def split: option.splits if_splits)
qed

text \<open>Two callers of one key: the second follows, the first publishes and ends, the second returns.\<close>

definition sample_flight :: "auth_leg \<Rightarrow> (string, auth_leg) coalescer" where
  "sample_flight v = drop_tx 0 (drop_guard 0 (publish 0 v (snd (enter 2 ''k'' (snd (enter 1 ''k'' coalescer_new))))))"

definition sample_trace :: "auth_leg \<Rightarrow> (string, auth_leg) flight_event list" where
  "sample_trace v = [Enter 1 ''k'' (Leader 0), Enter 2 ''k'' (Follower 0), Publish 0 v, DropGuard 0, DropTx 0]"

lemmas flight_defs = enter_def live_flight_def upgrade_def coalescer_new_def publish_def drop_guard_def drop_tx_def
  leave_def update_flight_def wait_poll_def Let_def

lemma sample_flights: "flights fc (sample_trace v) (sample_flight v)"
proof -
  let ?s1 = "snd (enter 1 ''k'' coalescer_new) :: (string, auth_leg) coalescer" and ?s2 = "\<lambda>s. snd (enter 2 ''k'' s)"
  have "flights fc [Enter 1 ''k'' (Leader 0)] ?s1"
    using flights_step [OF flights_new step_enter, of 1 "''k''" "Leader 0" ?s1] by (simp add: flight_defs)
  then have "flights fc ([Enter 1 ''k'' (Leader 0)] @ [Enter 2 ''k'' (Follower 0)]) (?s2 ?s1)"
    by (rule flights_step) (rule step_enter, simp add: flight_defs)
  then have "flights fc (([Enter 1 ''k'' (Leader 0)] @ [Enter 2 ''k'' (Follower 0)]) @ [Publish 0 v]) (publish 0 v (?s2 ?s1))"
    by (rule flights_step) (rule step_publish, simp_all add: flight_defs)
  then have "flights fc ((([Enter 1 ''k'' (Leader 0)] @ [Enter 2 ''k'' (Follower 0)]) @ [Publish 0 v]) @ [DropGuard 0])
      (drop_guard 0 (publish 0 v (?s2 ?s1)))"
    by (rule flights_step) (rule step_guard, simp_all add: flight_defs)
  then have "flights fc (((([Enter 1 ''k'' (Leader 0)] @ [Enter 2 ''k'' (Follower 0)]) @ [Publish 0 v]) @ [DropGuard 0]) @ [DropTx 0])
      (sample_flight v)"
    unfolding sample_flight_def by (rule flights_step) (rule step_tx, simp_all add: flight_defs)
  then show ?thesis by (simp add: sample_trace_def)
qed

lemma sample_flight_shape:
  "length (co_flights (sample_flight v)) = 1" "fl_waiters (co_flights (sample_flight v) ! 0) = [2]"
  "\<not> fl_tx (co_flights (sample_flight v) ! 0)" "fl_value (co_flights (sample_flight v) ! 0) = Some v"
  by (simp_all add: sample_flight_def flight_defs)

lemma single_flight_witness:
  "\<exists>v s'. co_step Shed (sample_flight Shed) (Wake 2 0 v) s'"
  using single_flight [OF sample_flights, of 0 Shed Shed] by (simp add: sample_flight_shape)

text \<open>C15: a coalesced admission is the leader's. When a request that followed another is admitted, in any
  interleaving, a leader of the same key published exactly that tenant and body, and had not yet released
  its slot when the follower arrived. A leader that vanished, shed or failed admits none of its followers.\<close>

theorem coalesced_admission:
  assumes "flights (Resolved (Inl StoreUnreachable)) tr s"
    and "co_step (Resolved (Inl StoreUnreachable)) s (Wake c f leg) s'"
    and "auth_finish key_of now token leg cache = (Admit t body, cache')"
  shows "\<exists>k. joined tr c f k \<and> Publish f (Resolved (Inr (Some (t, body)))) \<in> set tr"
proof -
  have leg: "leg = Resolved (Inr (Some (t, body)))"
    using assms(3) by (auto simp: auth_finish_def split: auth_leg.splits sum.splits option.splits token_store_error.splits)
  obtain r where r: "f < length (co_flights s)" "c \<in> set (fl_waiters (co_flights s ! f))"
      "wait_poll (co_flights s ! f) = Some r" "leg = (case r of Some v \<Rightarrow> v | None \<Rightarrow> Resolved (Inl StoreUnreachable))"
    using assms(2) by (auto elim: wakeE)
  then have "fl_value (co_flights s ! f) = Some leg"
    using leg by (auto simp: wait_poll_def split: option.splits if_splits)
  moreover have "flight_ok tr f (co_flights s ! f)" using flights_inv [OF assms(1)] r(1) by (simp add: co_inv_def)
  ultimately show ?thesis using r(2) leg by (auto simp: flight_ok_def)
qed

lemma coalesced_admission_witness:
  "\<exists>k. joined (sample_trace (Resolved (Inr (Some (TenantId ''a'', None))))) 2 0 k \<and>
     Publish 0 (Resolved (Inr (Some (TenantId ''a'', None)))) \<in> set (sample_trace (Resolved (Inr (Some (TenantId ''a'', None)))))"
proof -
  let ?v = "Resolved (Inr (Some (TenantId ''a'', None)))" and ?c = "introspect_cache_new 0 1"
  have "co_step (Resolved (Inl StoreUnreachable)) (sample_flight ?v)
      (Wake 2 0 (case Some ?v of Some v \<Rightarrow> v | None \<Rightarrow> Resolved (Inl StoreUnreachable))) (leave 2 0 (sample_flight ?v))"
    by (rule step_wake) (simp_all add: sample_flight_shape wait_poll_def)
  moreover have "auth_finish id 0 ''k'' ?v ?c = (Admit (TenantId ''a'') None, ?c)"
    by (simp add: auth_finish_def cache_put_def cache_is_armed_def introspect_cache_new_def)
  ultimately show ?thesis using coalesced_admission [OF sample_flights] by fastforce
qed

end
