(* ===== verification/Decimal.thy ===== *)
theory Decimal
  imports Json Compute_Meter
begin

text \<open>
  Checked decimal parsing of the compute entitlement, \<open>corelink-fabric-server/src/decimal.rs\<close>. The
  intermediate values are \<open>u128\<close> and \<open>i32\<close> with every operation checked, written here as unbounded
  numbers with the bound tested.
\<close>

section \<open>Scanning a number\<close>

datatype plan_source_error = PlanUnreachable

definition checked_u128 :: "nat \<Rightarrow> nat option" where
  "checked_u128 n = (if n < 2 ^ 128 then Some n else None)"

definition checked_i32 :: "int \<Rightarrow> int option" where
  "checked_i32 i = (if - (2 ^ 31) \<le> i \<and> i < 2 ^ 31 then Some i else None)"

text \<open>One loop scans a run of digits into the mantissa. The first check is the one of the multiplication,
  the second that of the addition.\<close>

fun scan_mantissa :: "nat \<Rightarrow> nat \<Rightarrow> string \<Rightarrow> (nat \<times> nat \<times> string) option" where
  "scan_mantissa m n [] = Some (m, n, [])"
| "scan_mantissa m n (c # s) =
     (if is_digit c then
        Option.bind (Option.bind (checked_u128 (m * 10)) (\<lambda>v. checked_u128 (v + digit_val c)))
          (\<lambda>m'. scan_mantissa m' (n + 1) s)
      else Some (m, n, c # s))"

fun scan_exponent :: "int \<Rightarrow> nat \<Rightarrow> string \<Rightarrow> (int \<times> nat \<times> string) option" where
  "scan_exponent e n [] = Some (e, n, [])"
| "scan_exponent e n (c # s) =
     (if is_digit c then
        Option.bind (Option.bind (checked_i32 (e * 10)) (\<lambda>v. checked_i32 (v + int (digit_val c))))
          (\<lambda>e'. scan_exponent e' (n + 1) s)
      else Some (e, n, c # s))"

definition parse_fraction :: "nat \<Rightarrow> string \<Rightarrow> (nat \<times> nat \<times> string) option" where
  "parse_fraction m s =
     (if s \<noteq> [] \<and> hd s = CHR ''.'' then
        (case scan_mantissa m 0 (tl s) of
           None \<Rightarrow> None
         | Some (m', n, rest) \<Rightarrow> if n = 0 then None else Some (m', n, rest))
      else Some (m, 0, s))"

definition exponent_sign :: "string \<Rightarrow> bool \<times> string" where
  "exponent_sign s =
     (if s \<noteq> [] \<and> hd s = CHR ''-'' then (True, tl s)
      else if s \<noteq> [] \<and> hd s = CHR ''+'' then (False, tl s)
      else (False, s))"

definition parse_exponent :: "string \<Rightarrow> (int \<times> string) option" where
  "parse_exponent s =
     (case s of
        [] \<Rightarrow> Some (0, [])
      | c # t \<Rightarrow>
          if c = CHR ''e'' \<or> c = CHR ''E'' then
            let (negative, u) = exponent_sign t in
            (case scan_exponent 0 0 u of
               None \<Rightarrow> None
             | Some (e, n, rest) \<Rightarrow>
                 if n = 0 then None
                 else if negative then map_option (\<lambda>x. (x, rest)) (checked_i32 (- e)) else Some (e, rest))
          else Some (0, s))"

definition parse_number :: "string \<Rightarrow> plan_source_error + nat \<times> nat \<times> int" where
  "parse_number raw =
     (if raw = [] \<or> hd raw = CHR ''-'' \<or> hd raw = CHR ''+'' then Inl PlanUnreachable
      else case scan_mantissa 0 0 raw of
        None \<Rightarrow> Inl PlanUnreachable
      | Some (m, n, s) \<Rightarrow>
          if n = 0 then Inl PlanUnreachable
          else case parse_fraction m s of
            None \<Rightarrow> Inl PlanUnreachable
          | Some (m', f, s') \<Rightarrow>
              (case parse_exponent s' of
                 None \<Rightarrow> Inl PlanUnreachable
               | Some (e, rest) \<Rightarrow> if rest \<noteq> [] then Inl PlanUnreachable else Inr (m', f, e)))"

fun pow10_loop :: "nat \<Rightarrow> nat \<Rightarrow> nat option" where
  "pow10_loop 0 v = Some v"
| "pow10_loop (Suc k) v = Option.bind (checked_u128 (v * 10)) (pow10_loop k)"

definition checked_pow10 :: "nat \<Rightarrow> nat option" where
  "checked_pow10 n = (if n > 38 then None else pow10_loop n 1)"


section \<open>The ceiling\<close>

definition scaled_ms :: "nat \<Rightarrow> int \<Rightarrow> nat option" where
  "scaled_ms numerator scale =
     (if scale \<le> 0 then
        (case checked_i32 (- scale) of
           None \<Rightarrow> None
         | Some p \<Rightarrow> Option.bind (checked_pow10 (nat p)) (\<lambda>k. checked_u128 (numerator * k)))
      else map_option (\<lambda>k. numerator div k) (checked_pow10 (nat scale)))"

definition ceiling_of_parts :: "nat \<Rightarrow> nat \<Rightarrow> int \<Rightarrow> plan_source_error + u64" where
  "ceiling_of_parts mantissa fractional_digits exponent =
     (if mantissa = 0 then Inr 0
      else case Option.bind (checked_i32 (int fractional_digits)) (\<lambda>f. checked_i32 (f - exponent)) of
        None \<Rightarrow> Inl PlanUnreachable
      | Some scale \<Rightarrow>
          (case checked_u128 (mantissa * unat MS_PER_VCPU_HOUR) of
             None \<Rightarrow> Inl PlanUnreachable
           | Some numerator \<Rightarrow>
               (case scaled_ms numerator scale of
                  None \<Rightarrow> Inl PlanUnreachable
                | Some ms \<Rightarrow>
                    if ms \<ge> 2 ^ 64 then Inl PlanUnreachable
                    else if ms = 0 \<or> \<not> fits_ledger (of_nat ms) then Inl PlanUnreachable
                    else Inr (of_nat ms))))"

definition max_vcpu_h_ceiling_ms :: "json \<Rightarrow> plan_source_error + u64" where
  "max_vcpu_h_ceiling_ms v =
     (case json_get v ''max_vcpu_h'' of
        None \<Rightarrow> Inr 0
      | Some x \<Rightarrow>
          (case number_text x of
             None \<Rightarrow> Inl PlanUnreachable
           | Some text \<Rightarrow>
               (case parse_number text of
                  Inl e \<Rightarrow> Inl e
                | Inr (m, f, e) \<Rightarrow> ceiling_of_parts m f e)))"


section \<open>Reading back the number\<close>

lemma checked_u128_Some: "checked_u128 n = Some k \<longleftrightarrow> k = n \<and> n < 2 ^ 128"
  by (auto simp: checked_u128_def)

lemma checked_i32_Some: "checked_i32 n = Some k \<longleftrightarrow> k = n \<and> - (2 ^ 31) \<le> n \<and> n < 2 ^ 31"
  by (auto simp: checked_i32_def)

definition digits_onto :: "nat \<Rightarrow> string \<Rightarrow> nat" where
  "digits_onto m ds = foldl (\<lambda>acc c. 10 * acc + digit_val c) m ds"

lemma digits_onto_simps [simp]:
  "digits_onto m [] = m" "digits_onto m (c # ds) = digits_onto (10 * m + digit_val c) ds"
  "digits_onto m (a @ b) = digits_onto (digits_onto m a) b"
  by (simp_all add: digits_onto_def)

lemma digits_onto_ge: "m \<le> digits_onto m ds"
proof (induction ds arbitrary: m)
  case (Cons c ds)
  have "m \<le> 10 * m + digit_val c" by simp
  then show ?case using Cons.IH [of "10 * m + digit_val c"] by simp
qed simp

lemma scan_mantissa_digits:
  assumes "list_all is_digit ds" and "r = [] \<or> \<not> is_digit (hd r)"
  shows "scan_mantissa m n (ds @ r) =
    (if digits_onto m ds < 2 ^ 128 \<or> ds = [] then Some (digits_onto m ds, n + length ds, r) else None)"
  using assms(1)
proof (induction ds arbitrary: m n)
  case Nil
  then show ?case using assms(2) by (cases r) simp_all
next
  case (Cons c ds)
  let ?m = "10 * m + digit_val c"
  have le: "?m \<le> digits_onto ?m ds" by (rule digits_onto_ge)
  show ?case
  proof (cases "?m < 2 ^ 128")
    case True
    then have "checked_u128 (m * 10) = Some (m * 10)" "checked_u128 (m * 10 + digit_val c) = Some ?m"
      by (simp_all add: checked_u128_def mult.commute)
    then show ?thesis using Cons True by (cases "ds = []") (simp_all add: mult.commute)
  next
    case False
    then have "Option.bind (checked_u128 (m * 10)) (\<lambda>v. checked_u128 (v + digit_val c)) = None"
      by (simp add: checked_u128_def mult.commute)
    moreover have "\<not> digits_onto ?m ds < 2 ^ 128" using le False by linarith
    ultimately show ?thesis using Cons.prems by simp
  qed
qed

lemma scan_exponent_digits:
  assumes "list_all is_digit ds" and "r = [] \<or> \<not> is_digit (hd r)" and "digits_onto (nat e) ds < 2 ^ 31" and "0 \<le> e"
  shows "scan_exponent e n (ds @ r) = Some (int (digits_onto (nat e) ds), n + length ds, r)"
  using assms(1,3,4)
proof (induction ds arbitrary: e n)
  case Nil
  then show ?case using assms(2) by (cases r) simp_all
next
  case (Cons c ds)
  let ?m = "10 * nat e + digit_val c"
  have "?m \<le> digits_onto ?m ds" by (rule digits_onto_ge)
  then have b: "?m < 2 ^ 31" using Cons.prems(2) by simp
  then have "checked_i32 (e * 10) = Some (e * 10)" "checked_i32 (e * 10 + int (digit_val c)) = Some (int ?m)"
    using Cons.prems(3) by (auto simp: checked_i32_def)
  then show ?case using Cons.IH [of "int ?m" "n + 1"] Cons.prems by (simp del: of_nat_add of_nat_mult)
qed

text \<open>The shape of a JSON number: digits, an optional fraction and an optional exponent.\<close>

definition exponent_shape :: "string \<Rightarrow> int \<Rightarrow> bool" where
  "exponent_shape et e \<longleftrightarrow> et = [] \<and> e = 0 \<or>
     (\<exists>c sg ds. c \<in> {CHR ''e'', CHR ''E''} \<and> sg \<in> {[], ''-'', ''+''} \<and> ds \<noteq> [] \<and> list_all is_digit ds \<and>
        et = c # sg @ ds \<and> digits_onto 0 ds < 2 ^ 31 \<and>
        e = (if sg = ''-'' then - int (digits_onto 0 ds) else int (digits_onto 0 ds)))"

definition number_shape :: "string \<Rightarrow> string \<Rightarrow> string \<Rightarrow> int \<Rightarrow> bool" where
  "number_shape text ip fp e \<longleftrightarrow> ip \<noteq> [] \<and> list_all is_digit ip \<and> list_all is_digit fp \<and>
     (\<exists>et. text = ip @ (if fp = [] then [] else CHR ''.'' # fp) @ et \<and> exponent_shape et e)"

lemma not_digits: "\<not> is_digit CHR ''.''" "\<not> is_digit CHR ''e''" "\<not> is_digit CHR ''E''" "\<not> is_digit CHR ''-''" "\<not> is_digit CHR ''+''"
  by (simp_all add: is_digit_def)

lemma parse_exponent_shape: "exponent_shape et e \<Longrightarrow> parse_exponent et = Some (e, [])"
proof -
  have pos: "parse_exponent (c # sg @ ds) = Some (if sg = ''-'' then - int (digits_onto 0 ds) else int (digits_onto 0 ds), [])"
    if "c \<in> {CHR ''e'', CHR ''E''}" "sg \<in> {[], ''-'', ''+''}" "ds \<noteq> []" "list_all is_digit ds" "digits_onto 0 ds < 2 ^ 31"
    for c sg ds
  proof -
    have scan: "scan_exponent 0 0 ds = Some (int (digits_onto 0 ds), length ds, [])"
      using scan_exponent_digits [of ds "[]" 0 0] that by simp
    have "hd ds \<noteq> CHR ''-''" "hd ds \<noteq> CHR ''+''" using that(3,4) not_digits by (metis list.pred_inject(2) list.collapse)+
    then have sign: "exponent_sign (sg @ ds) = (sg = ''-'', ds)"
      using that(2,3) by (auto simp: exponent_sign_def)
    have "checked_i32 (- int (digits_onto 0 ds)) = Some (- int (digits_onto 0 ds))"
      using that(5) by (simp add: checked_i32_def)
    with that(1,3) scan sign show ?thesis by (simp add: parse_exponent_def del: append.simps)
  qed
  assume "exponent_shape et e"
  then consider "et = []" "e = 0" | c sg ds where "c \<in> {CHR ''e'', CHR ''E''}" "sg \<in> {[], ''-'', ''+''}" "ds \<noteq> []"
      "list_all is_digit ds" "et = c # sg @ ds" "digits_onto 0 ds < 2 ^ 31"
      "e = (if sg = ''-'' then - int (digits_onto 0 ds) else int (digits_onto 0 ds))"
    unfolding exponent_shape_def by blast
  then show ?thesis
  proof cases
    case 1
    then show ?thesis by (simp add: parse_exponent_def)
  next
    case 2
    then show ?thesis using pos [OF 2(1-4,6)] by (simp only:)
  qed
qed


lemma exponent_head: "exponent_shape et e \<Longrightarrow> et = [] \<or> \<not> is_digit (hd et) \<and> hd et \<noteq> CHR ''.''"
  by (auto simp: exponent_shape_def not_digits)

lemma parse_number_shape:
  assumes "number_shape text ip fp e"
  shows "parse_number text =
    (if digits_onto 0 (ip @ fp) < 2 ^ 128 then Inr (digits_onto 0 (ip @ fp), length fp, e) else Inl PlanUnreachable)"
proof -
  obtain et where t: "text = ip @ (if fp = [] then [] else CHR ''.'' # fp) @ et" and ex: "exponent_shape et e"
    and ip: "ip \<noteq> []" "list_all is_digit ip" and fp: "list_all is_digit fp"
    using assms unfolding number_shape_def by blast
  let ?r = "(if fp = [] then [] else CHR ''.'' # fp) @ et"
  have hd: "hd ip \<noteq> CHR ''-''" "hd ip \<noteq> CHR ''+''" using ip not_digits by (metis list.pred_inject(2) list.collapse)+
  have "?r = [] \<or> \<not> is_digit (hd ?r)" using exponent_head [OF ex] by (auto simp: not_digits)
  note s1 = scan_mantissa_digits [OF ip(2) this, of 0 0]
  note s2 = scan_mantissa_digits [OF fp, of et "digits_onto 0 ip" 0]
  have frac: "parse_fraction (digits_onto 0 ip) ?r =
      (if digits_onto (digits_onto 0 ip) fp < 2 ^ 128 \<or> fp = [] then Some (digits_onto (digits_onto 0 ip) fp, length fp, et) else None)"
    using s2 exponent_head [OF ex] by (auto simp: parse_fraction_def)
  have "digits_onto 0 ip \<le> digits_onto (digits_onto 0 ip) fp" by (rule digits_onto_ge)
  then show ?thesis
    using hd ip s1 frac parse_exponent_shape [OF ex] unfolding t parse_number_def
    by (cases "fp = []") (auto split: if_splits)
qed

lemma pow10_loop_eq: "v * 10 ^ k < 2 ^ 128 \<Longrightarrow> pow10_loop k v = Some (v * 10 ^ k)"
proof (induction k arbitrary: v)
  case (Suc k)
  have "v * 10 \<le> v * 10 * 10 ^ k" by simp
  moreover have "v * 10 * 10 ^ k < 2 ^ 128" using Suc.prems by (simp add: mult.assoc)
  ultimately have "v * 10 < 2 ^ 128" by (rule le_less_trans)
  then have "checked_u128 (v * 10) = Some (v * 10)" unfolding checked_u128_def by (rule if_P)
  then show ?case using Suc.IH [of "v * 10"] Suc.prems by (simp add: mult.assoc)
qed simp

lemma checked_pow10_eq: "checked_pow10 n = (if n \<le> 38 then Some (10 ^ n) else None)"
proof (cases "n \<le> 38")
  case True
  then have "(10 :: nat) ^ n \<le> 10 ^ 38" by (intro power_increasing) simp_all
  then have "1 * 10 ^ n < (2 :: nat) ^ 128" by simp
  with True show ?thesis using pow10_loop_eq [of 1 n] by (simp add: checked_pow10_def)
qed (simp add: checked_pow10_def)

text \<open>The exact value in whole milliseconds, in unbounded arithmetic.\<close>

definition exact_ms :: "nat \<Rightarrow> nat \<Rightarrow> int \<Rightarrow> nat" where
  "exact_ms m f e = (if int f \<le> e then m * 3600000 * 10 ^ nat (e - int f) else m * 3600000 div 10 ^ nat (int f - e))"

lemma scaled_ms_exact:
  assumes "scaled_ms (m * 3600000) (int f - e) = Some ms"
  shows "ms = exact_ms m f e"
  using assms
  by (auto simp: scaled_ms_def exact_ms_def checked_pow10_eq checked_u128_Some checked_i32_Some bind_eq_Some_conv
      split: if_splits option.splits)

lemma unat_MS_PER_VCPU_HOUR: "unat MS_PER_VCPU_HOUR = 3600000"
  by (simp add: MS_PER_VCPU_HOUR_def)

lemma case_option_Inr:
  "(case x of None \<Rightarrow> Inl e | Some y \<Rightarrow> F y) = Inr z \<longleftrightarrow> (\<exists>y. x = Some y \<and> F y = Inr z)"
  by (cases x) simp_all

lemma ceiling_of_parts_sound:
  assumes "ceiling_of_parts m f e = Inr ms"
  shows "unat ms = exact_ms m f e \<and> unat ms < 2 ^ 63 \<and> (ms = 0 \<longleftrightarrow> m = 0)"
proof (cases "m = 0")
  case True
  then show ?thesis using assms by (simp add: ceiling_of_parts_def exact_ms_def)
next
  case False
  obtain scale numerator k where parts: "Option.bind (checked_i32 (int f)) (\<lambda>f. checked_i32 (f - e)) = Some scale"
    "checked_u128 (m * 3600000) = Some numerator" "scaled_ms numerator scale = Some k"
    and result: "(if k \<ge> 2 ^ 64 then Inl PlanUnreachable else if k = 0 \<or> \<not> fits_ledger (of_nat k) then Inl PlanUnreachable
      else Inr (of_nat k)) = Inr ms"
    using assms unfolding ceiling_of_parts_def if_not_P [OF False] unat_MS_PER_VCPU_HOUR case_option_Inr by blast
  have "scale = int f - e" using parts(1) by (cases "checked_i32 (int f)") (simp_all add: checked_i32_Some)
  moreover have "numerator = m * 3600000" using parts(2) by (simp only: checked_u128_Some)
  ultimately have k1: "scaled_ms (m * 3600000) (int f - e) = Some k" using parts(3) by simp
  have k: "k < 2 ^ 64" "k \<noteq> 0" "fits_ledger (of_nat k)" "ms = of_nat k"
    using result by (auto split: if_splits)
  have u: "unat (of_nat k :: u64) = k" using k(1) by (simp add: unsigned_of_nat take_bit_nat_eq_self)
  have "ms \<noteq> 0" using k(2,4) u by (metis unat_0)
  moreover have "unat ms < 2 ^ 63" using k(3,4) fits_ledger_nat [of ms] by simp
  ultimately show ?thesis using False scaled_ms_exact [OF k1] u k(4) by simp
qed

lemma ceiling_of_parts_complete:
  assumes "m * 3600000 < 2 ^ 128" and "\<bar>int f - e\<bar> \<le> 38" and "f < 2 ^ 31" and "0 < exact_ms m f e" and "exact_ms m f e < 2 ^ 63"
  shows "ceiling_of_parts m f e = Inr (of_nat (exact_ms m f e))"
proof -
  have "m \<noteq> 0" using assms(4) by (intro notI) (simp add: exact_ms_def split: if_splits)
  have i: "checked_i32 (int f) = Some (int f)" "checked_i32 (int f - e) = Some (int f - e)"
    "checked_i32 (- (int f - e)) = Some (- (int f - e))"
    using assms(2,3) by (auto simp: checked_i32_def)
  have s: "scaled_ms (m * 3600000) (int f - e) = Some (exact_ms m f e)"
  proof (cases "int f \<le> e")
    case True
    then have x: "exact_ms m f e = m * 3600000 * 10 ^ nat (e - int f)" by (simp only: exact_ms_def if_True)
    then have "checked_u128 (m * 3600000 * 10 ^ nat (e - int f)) = Some (exact_ms m f e)"
      using assms(5) by (simp add: checked_u128_Some)
    then show ?thesis using True i(3) assms(2) by (simp add: scaled_ms_def checked_pow10_eq)
  next
    case False
    then show ?thesis using assms(2) by (simp add: scaled_ms_def checked_pow10_eq exact_ms_def)
  qed
  have "unat (of_nat (exact_ms m f e) :: u64) = exact_ms m f e"
    using assms(5) by (simp add: unsigned_of_nat take_bit_nat_eq_self)
  then have "fits_ledger (of_nat (exact_ms m f e))" using assms(5) by (simp add: fits_ledger_nat)
  then show ?thesis using i s assms \<open>m \<noteq> 0\<close>
    by (simp add: ceiling_of_parts_def checked_u128_def MS_PER_VCPU_HOUR_def)
qed



end
