(* ===== verification/Plan_Store.thy ===== *)
theory Plan_Store
  imports Introspect Decimal Ledger
begin

text \<open>
  The sources of a tenant's plan and compute ceiling: the trait \<open>PlanSource\<close> with \<open>StaticPlans\<close> and
  \<open>CompositePlanSource\<close> (\<open>corelink-fabric-server/src/app.rs\<close>), the live registry and its admin endpoint
  (\<open>handlers/admin.rs\<close>), the introspecting store (\<open>corelink_plans.rs\<close>), and the compute gate the acquire
  path builds from them (\<open>build_compute_gate\<close> of \<open>handlers/leases.rs\<close>).
\<close>

section \<open>The introspecting store\<close>

definition DERIVED_RATE_MULTIPLIER :: u32 where
  "DERIVED_RATE_MULTIPLIER = 10"

record plan_cache =
  pc_ceilings :: "(tenant_id, u64) hmap"
  pc_plans :: "(tenant_id, tenant_plan) hmap"

definition plan_cache_default :: plan_cache where
  "plan_cache_default = \<lparr>pc_ceilings = [], pc_plans = []\<rparr>"

definition invalidate_cache :: "tenant_id \<Rightarrow> plan_cache \<Rightarrow> plan_cache" where
  "invalidate_cache t c = c\<lparr>pc_plans := hm_remove t (pc_plans c), pc_ceilings := hm_remove t (pc_ceilings c)\<rparr>"

definition cl_plan_of :: "plan_cache \<Rightarrow> tenant_id \<Rightarrow> tenant_plan option" where
  "cl_plan_of c t = hm_get (pc_plans c) t"

definition cl_tenant_ceiling_vcpu_ms :: "plan_cache \<Rightarrow> tenant_id \<Rightarrow> u64" where
  "cl_tenant_ceiling_vcpu_ms c t = (case hm_get (pc_ceilings c) t of Some v \<Rightarrow> v | None \<Rightarrow> 0)"

definition u32_try_from :: "u64 \<Rightarrow> u32 option" where
  "u32_try_from n = (if n < 2 ^ 32 then Some (ucast n) else None)"

definition u32_field :: "json \<Rightarrow> string \<Rightarrow> u32 option" where
  "u32_field v name = Option.bind (Option.bind (json_get v name) as_u64) u32_try_from"

definition plan_rate :: "json \<Rightarrow> u32 \<Rightarrow> u32" where
  "plan_rate v max_concurrency =
     (case u32_field v ''rate_ceiling_per_min'' of
        Some rate \<Rightarrow> rate
      | None \<Rightarrow> sat_mul max_concurrency DERIVED_RATE_MULTIPLIER)"

definition parse_plan_200 ::
  "(string \<Rightarrow> json option) \<Rightarrow> tenant_id \<Rightarrow> string \<Rightarrow> plan_cache
     \<Rightarrow> (plan_source_error + tenant_plan option) \<times> plan_cache" where
  "parse_plan_200 from_str t body c =
     (case from_str body of
        None \<Rightarrow> (Inl PlanUnreachable, invalidate_cache t c)
      | Some v \<Rightarrow>
          (case Option.bind (json_get v ''valid'') as_bool of
             None \<Rightarrow> (Inl PlanUnreachable, invalidate_cache t c)
           | Some valid \<Rightarrow>
               if \<not> valid then (Inr None, invalidate_cache t c)
               else (case max_vcpu_h_ceiling_ms v of
                       Inl e \<Rightarrow> (Inl e, invalidate_cache t c)
                     | Inr ceiling \<Rightarrow>
                         (case u32_field v ''max_concurrency'' of
                            None \<Rightarrow> (Inr None, invalidate_cache t c)
                          | Some max_concurrency \<Rightarrow>
                              let plan = \<lparr>tp_tenant = t, tp_max_concurrency = max_concurrency,
                                          tp_rate_ceiling_per_min = plan_rate v max_concurrency,
                                          tp_repo_allowlist = []\<rparr>
                              in (Inr (Some plan),
                                  c\<lparr>pc_ceilings := hm_insert t ceiling (pc_ceilings c),
                                    pc_plans := hm_insert t plan (pc_plans c)\<rparr>)))))"

text \<open>The store with the breaker and the world it shares with the token store.\<close>

record 'w plan_store =
  ps_cache :: plan_cache
  ps_breaker :: breaker
  ps_world :: 'w

definition cl_plan_of_resolving ::
  "'w introspect_env \<Rightarrow> (string \<Rightarrow> json option) \<Rightarrow> (string \<Rightarrow> string) \<Rightarrow> auth_config
     \<Rightarrow> tenant_id \<Rightarrow> string \<Rightarrow> 'w plan_store \<Rightarrow> (plan_source_error + tenant_plan option) \<times> 'w plan_store" where
  "cl_plan_of_resolving env from_str to_body cfg t token s =
     (let (out, b, w) = run_introspect env cfg (to_body token) (ps_breaker s) (ps_world s);
          s' = s\<lparr>ps_breaker := b, ps_world := w\<rparr>
      in case out of
           Body200 body \<Rightarrow>
             (let (r, c) = parse_plan_200 from_str t body (ps_cache s') in (r, s'\<lparr>ps_cache := c\<rparr>))
         | IntrospectFailClosed \<Rightarrow> (Inl PlanUnreachable, s'\<lparr>ps_cache := invalidate_cache t (ps_cache s')\<rparr>))"

definition cl_plan_of_resolving_cached ::
  "'w introspect_env \<Rightarrow> (string \<Rightarrow> json option) \<Rightarrow> (string \<Rightarrow> string) \<Rightarrow> auth_config
     \<Rightarrow> tenant_id \<Rightarrow> string \<Rightarrow> string option \<Rightarrow> 'w plan_store
     \<Rightarrow> (plan_source_error + tenant_plan option) \<times> 'w plan_store" where
  "cl_plan_of_resolving_cached env from_str to_body cfg t token cached s =
     (case cached of
        Some body \<Rightarrow> (let (r, c) = parse_plan_200 from_str t body (ps_cache s) in (r, s\<lparr>ps_cache := c\<rparr>))
      | None \<Rightarrow> cl_plan_of_resolving env from_str to_body cfg t token s)"


section \<open>Local sources\<close>

record static_plans =
  sp_plans :: "(tenant_id, tenant_plan) hmap"
  sp_ceiling_vcpu_ms :: u64

definition static_plans_new :: "tenant_plan list \<Rightarrow> static_plans" where
  "static_plans_new plans =
     \<lparr>sp_plans = fold (\<lambda>p m. hm_insert (tp_tenant p) p m) plans [], sp_ceiling_vcpu_ms = 0\<rparr>"

definition with_ceiling_vcpu_ms :: "u64 \<Rightarrow> static_plans \<Rightarrow> static_plans" where
  "with_ceiling_vcpu_ms ceiling s = s\<lparr>sp_ceiling_vcpu_ms := ceiling\<rparr>"

definition static_plan_of :: "static_plans \<Rightarrow> tenant_id \<Rightarrow> tenant_plan option" where
  "static_plan_of s t = hm_get (sp_plans s) t"

definition static_all_tenant_plans :: "static_plans \<Rightarrow> tenant_plan list" where
  "static_all_tenant_plans s = hm_values (sp_plans s)"

definition static_tenant_ceiling_vcpu_ms :: "static_plans \<Rightarrow> tenant_id \<Rightarrow> u64" where
  "static_tenant_ceiling_vcpu_ms s t =
     (case hm_get (sp_plans s) t of
        None \<Rightarrow> 0
      | Some plan \<Rightarrow>
          if sp_ceiling_vcpu_ms s \<noteq> 0 then sp_ceiling_vcpu_ms s
          else (case List.find (\<lambda>tier. fst (plan_for tier) = tp_max_concurrency plan) plan_tier_ALL of
                  None \<Rightarrow> 0
                | Some tier \<Rightarrow> ceiling_for tier))"

definition live_plan_of :: "plan_registry \<Rightarrow> tenant_id \<Rightarrow> tenant_plan option" where
  "live_plan_of reg t =
     (let plan = tenant_plan_of reg t in if tp_max_concurrency plan = 0 then None else Some plan)"

definition live_tenant_ceiling_vcpu_ms :: "plan_registry \<Rightarrow> tenant_id \<Rightarrow> u64" where
  "live_tenant_ceiling_vcpu_ms reg t = tenant_ceiling_vcpu_ms reg t"

text \<open>The composite of two sources, given by their operations.\<close>

definition composite_plan_of ::
  "(tenant_id \<Rightarrow> tenant_plan option) \<Rightarrow> (tenant_id \<Rightarrow> tenant_plan option) \<Rightarrow> tenant_id \<Rightarrow> tenant_plan option" where
  "composite_plan_of primary secondary t = (case primary t of Some p \<Rightarrow> Some p | None \<Rightarrow> secondary t)"

definition composite_plan_of_resolving ::
  "('s \<Rightarrow> (plan_source_error + tenant_plan option) \<times> 's) \<Rightarrow> ('r \<Rightarrow> (plan_source_error + tenant_plan option) \<times> 'r)
     \<Rightarrow> 's \<times> 'r \<Rightarrow> (plan_source_error + tenant_plan option) \<times> 's \<times> 'r" where
  "composite_plan_of_resolving primary secondary s =
     (case primary (fst s) of
        (Inl e, p) \<Rightarrow> (Inl e, p, snd s)
      | (Inr (Some plan), p) \<Rightarrow> (Inr (Some plan), p, snd s)
      | (Inr None, p) \<Rightarrow> (let (r, q) = secondary (snd s) in (r, p, q)))"

definition composite_tenant_ceiling_vcpu_ms :: "(tenant_id \<Rightarrow> u64) \<Rightarrow> (tenant_id \<Rightarrow> u64) \<Rightarrow> tenant_id \<Rightarrow> u64" where
  "composite_tenant_ceiling_vcpu_ms primary secondary t =
     (let c = primary t in if c = 0 then secondary t else c)"

definition composite_all_tenant_plans :: "tenant_plan list \<Rightarrow> tenant_plan list \<Rightarrow> tenant_plan list" where
  "composite_all_tenant_plans primary secondary =
     primary @ filter (\<lambda>p. tp_tenant p \<notin> tp_tenant ` set primary) secondary"

text \<open>The trait's default methods.\<close>

definition default_plan_of_resolving ::
  "(tenant_id \<Rightarrow> tenant_plan option) \<Rightarrow> tenant_id \<Rightarrow> plan_source_error + tenant_plan option" where
  "default_plan_of_resolving plan_of t = Inr (plan_of t)"


section \<open>The compute gate\<close>

text \<open>\<open>None\<close> is the failed assertion of \<open>period_key\<close>, which does not occur.\<close>

definition build_compute_gate ::
  "u32 option \<Rightarrow> (tenant_id \<Rightarrow> u64) \<Rightarrow> tenant_id \<Rightarrow> u64 \<Rightarrow> u64 \<Rightarrow> (string + compute_gate option) option" where
  "build_compute_gate runner_vcpu ceiling_of t ttl now_ms =
     (case runner_vcpu of
        None \<Rightarrow> Some (Inr None)
      | Some vcpu \<Rightarrow>
          (case period_key now_ms of
             None \<Rightarrow> None
           | Some key \<Rightarrow>
               let ceiling = ceiling_of t;
                   reserved = vcpu_ms vcpu ttl
               in if \<not> fits_ledger reserved then Some (Inl ''compute reservation exceeds ledger bound'')
                  else Some (Inr (Some \<lparr>cg_period_key = key, cg_ceiling_vcpu_ms = ceiling,
                                        cg_box_vcpu_count = vcpu, cg_new_reserved_vcpu_ms = reserved\<rparr>))))"


section \<open>The plan leg of a request\<close>

datatype plan_resolve = PlanOk "tenant_plan option" | ResolveUnreachable | ResolveShed | ResolvePanicked

datatype plan_leg = PlanResolved "plan_source_error + tenant_plan option" | PlanShed | PlanPanicked

text \<open>As for the auth leg, the request leads its flight; \<open>None\<close> of the resolve is a panicked task.\<close>

definition plan_leader ::
  "('s \<Rightarrow> (plan_source_error + tenant_plan option) option \<times> 's) \<Rightarrow> nat \<Rightarrow> 's \<Rightarrow> plan_leg \<times> 's" where
  "plan_leader resolve permits s =
     (if permits = 0 then (PlanShed, s)
      else case resolve s of
        (Some (Inr plan), s') \<Rightarrow> (PlanResolved (Inr plan), s')
      | (Some (Inl PlanUnreachable), s') \<Rightarrow> (PlanResolved (Inl PlanUnreachable), s')
      | (None, s') \<Rightarrow> (PlanPanicked, s'))"

definition resolve_plan_offloaded ::
  "(string option \<Rightarrow> 's \<Rightarrow> (plan_source_error + tenant_plan option) \<times> 's)
     \<Rightarrow> ('s \<Rightarrow> (plan_source_error + tenant_plan option) option \<times> 's)
     \<Rightarrow> nat \<Rightarrow> string option \<Rightarrow> 's \<Rightarrow> plan_resolve \<times> 's" where
  "resolve_plan_offloaded resolve_cached resolve permits cached s =
     (case cached of
        Some body \<Rightarrow>
          (case resolve_cached (Some body) s of
             (Inr plan, s') \<Rightarrow> (PlanOk plan, s')
           | (Inl PlanUnreachable, s') \<Rightarrow> (ResolveUnreachable, s'))
      | None \<Rightarrow>
          (case plan_leader resolve permits s of
             (PlanResolved (Inr plan), s') \<Rightarrow> (PlanOk plan, s')
           | (PlanResolved (Inl PlanUnreachable), s') \<Rightarrow> (ResolveUnreachable, s')
           | (PlanShed, s') \<Rightarrow> (ResolveShed, s')
           | (PlanPanicked, s') \<Rightarrow> (ResolvePanicked, s')))"


section \<open>The boot guards of the compute wall\<close>

datatype ledger_backend = MemoryBackend | PostgresBackend

datatype auth_backend = StaticAuth | CoreLinkAuth auth_config

datatype boot_error = CeilingZero | CeilingOverflows | BackendNotCapSafe | BootstrapUnmetered | DeadCeilingKnob

text \<open>The checks on \<open>FABRIC_TENANT_MAX_VCPU_H\<close> once it has parsed as a number.\<close>

definition ceiling_knob :: "u64 option \<Rightarrow> boot_error + u64 option" where
  "ceiling_knob knob =
     (case knob of
        None \<Rightarrow> Inr None
      | Some n \<Rightarrow>
          if n = 0 then Inl CeilingZero
          else (case ceiling_vcpu_ms n of Inl e \<Rightarrow> Inl CeilingOverflows | Inr c \<Rightarrow> Inr (Some n)))"

definition bootstrap_ceiling :: "u64 option \<Rightarrow> tenant_plan \<Rightarrow> u64" where
  "bootstrap_ceiling tenant_max_vcpu_h plan =
     (case tenant_max_vcpu_h of
        Some h \<Rightarrow> 1
      | None \<Rightarrow> static_tenant_ceiling_vcpu_ms (static_plans_new [plan]) (tp_tenant plan))"

definition compute_boot_guard ::
  "u32 option \<Rightarrow> ledger_backend \<Rightarrow> auth_backend \<Rightarrow> u64 option \<Rightarrow> tenant_plan \<Rightarrow> boot_error + u64 option" where
  "compute_boot_guard runner_vcpu ledger_backend auth_backend knob plan =
     (case ceiling_knob knob of
        Inl e \<Rightarrow> Inl e
      | Inr tenant_max_vcpu_h \<Rightarrow>
          if runner_vcpu \<noteq> None \<and> ledger_backend \<noteq> PostgresBackend then Inl BackendNotCapSafe
          else if runner_vcpu \<noteq> None \<and> auth_backend = StaticAuth \<and> bootstrap_ceiling tenant_max_vcpu_h plan = 0
            then Inl BootstrapUnmetered
          else if tenant_max_vcpu_h \<noteq> None \<and> auth_backend \<noteq> StaticAuth then Inl DeadCeilingKnob
          else Inr tenant_max_vcpu_h)"

text \<open>The composition root's static plans; \<open>None\<close> is the failed \<open>expect\<close>.\<close>

definition bootstrap_plans :: "u64 option \<Rightarrow> tenant_plan \<Rightarrow> static_plans option" where
  "bootstrap_plans tenant_max_vcpu_h plan =
     (case tenant_max_vcpu_h of
        None \<Rightarrow> Some (with_ceiling_vcpu_ms 0 (static_plans_new [plan]))
      | Some h \<Rightarrow>
          (case ceiling_vcpu_ms h of
             Inl e \<Rightarrow> None
           | Inr c \<Rightarrow> Some (with_ceiling_vcpu_ms c (static_plans_new [plan]))))"


section \<open>The contract of a plan source\<close>

text \<open>A source answers token-free reads from what its last resolve of the tenant found; \<open>'q\<close> is what the
  request brings along. Without a plan there is no ceiling either.\<close>

locale plan_source =
  fixes inv :: "'s \<Rightarrow> bool"
    and plan_of :: "'s \<Rightarrow> tenant_id \<Rightarrow> tenant_plan option"
    and ceiling :: "'s \<Rightarrow> tenant_id \<Rightarrow> u64"
    and resolve :: "tenant_id \<Rightarrow> 'q \<Rightarrow> 's \<Rightarrow> (plan_source_error + tenant_plan option) \<times> 's"
  assumes resolve_inv: "inv s \<Longrightarrow> resolve t q s = (r, s') \<Longrightarrow> inv s'"
    and resolve_sets: "inv s \<Longrightarrow> resolve t q s = (r, s') \<Longrightarrow> plan_of s' t = (case r of Inr p \<Rightarrow> p | Inl e \<Rightarrow> None)"
    and resolve_frame: "inv s \<Longrightarrow> resolve t q s = (r, s') \<Longrightarrow> t' \<noteq> t \<Longrightarrow>
      plan_of s' t' = plan_of s t' \<and> ceiling s' t' = ceiling s t'"
    and plan_tenant: "inv s \<Longrightarrow> plan_of s t = Some p \<Longrightarrow> tp_tenant p = t"
    and no_plan_no_ceiling: "inv s \<Longrightarrow> plan_of s t = None \<Longrightarrow> ceiling s t = 0"
begin

lemma run_inv: "inv s \<Longrightarrow> inv (fold (\<lambda>(t, q) s. snd (resolve t q s)) qs s)"
proof (induction qs arbitrary: s)
  case (Cons x qs)
  obtain t q where x: "x = (t, q)" by fastforce
  have "inv (snd (resolve t q s))" using resolve_inv [OF Cons.prems, of t q] by (cases "resolve t q s") simp
  then show ?case using Cons.IH by (simp add: x)
qed simp

lemma run_frame:
  "inv s \<Longrightarrow> t \<notin> fst ` set qs \<Longrightarrow>
     plan_of (fold (\<lambda>(t, q) s. snd (resolve t q s)) qs s) t = plan_of s t \<and>
     ceiling (fold (\<lambda>(t, q) s. snd (resolve t q s)) qs s) t = ceiling s t"
proof (induction qs arbitrary: s)
  case (Cons x qs)
  obtain t' q where x: "x = (t', q)" by fastforce
  obtain r s' where r: "resolve t' q s = (r, s')" by fastforce
  then have "inv s'" using resolve_inv Cons.prems(1) by blast
  then show ?case using Cons.IH [of s'] resolve_frame [OF Cons.prems(1) r, of t] Cons.prems(2) r by (simp add: x)
qed simp

lemma last_resolve:
  assumes "inv s" and "t \<notin> fst ` set post"
    and "resolve t q (fold (\<lambda>(t, q) s. snd (resolve t q s)) pre s) = (r, s')"
  shows "plan_of (fold (\<lambda>(t, q) s. snd (resolve t q s)) (pre @ (t, q) # post) s) t = (case r of Inr p \<Rightarrow> p | Inl e \<Rightarrow> None) \<and>
    ceiling (fold (\<lambda>(t, q) s. snd (resolve t q s)) (pre @ (t, q) # post) s) t = ceiling s' t \<and>
    (\<forall>p. r = Inr (Some p) \<longrightarrow> tp_tenant p = t) \<and> (\<not> (\<exists>p. r = Inr (Some p)) \<longrightarrow> ceiling s' t = 0)"
proof -
  have mid: "inv (fold (\<lambda>(t, q) s. snd (resolve t q s)) pre s)" using run_inv assms(1) by blast
  then have s': "inv s'" "plan_of s' t = (case r of Inr p \<Rightarrow> p | Inl e \<Rightarrow> None)"
    using resolve_inv resolve_sets assms(3) by blast+
  have "fold (\<lambda>(t, q) s. snd (resolve t q s)) (pre @ (t, q) # post) s = fold (\<lambda>(t, q) s. snd (resolve t q s)) post s'"
    using assms(3) by simp
  then show ?thesis
    using run_frame [OF s'(1) assms(2)] s'(2) plan_tenant [OF s'(1), of t] no_plan_no_ceiling [OF s'(1), of t]
    by (auto split: sum.splits option.splits)
qed

end


section \<open>The introspecting store keeps the contract\<close>

lemma ceiling_fits: "max_vcpu_h_ceiling_ms v = Inr c \<Longrightarrow> fits_ledger c"
  by (auto simp: max_vcpu_h_ceiling_ms_def ceiling_of_parts_def fits_ledger_def
      split: option.splits sum.splits prod.splits if_splits)

definition entitles :: "json \<Rightarrow> tenant_id \<Rightarrow> tenant_plan \<Rightarrow> u64 \<Rightarrow> bool" where
  "entitles v t plan ceiling \<longleftrightarrow> json_get v ''valid'' = Some (JBool True) \<and>
     u32_field v ''max_concurrency'' = Some (tp_max_concurrency plan) \<and> max_vcpu_h_ceiling_ms v = Inr ceiling \<and>
     tp_rate_ceiling_per_min plan = plan_rate v (tp_max_concurrency plan) \<and> tp_tenant plan = t \<and> tp_repo_allowlist plan = []"

lemma parse_plan_cases:
  assumes "parse_plan_200 from_str t body c = (r, c')"
  obtains (granted) v plan ceiling where "from_str body = Some v" "entitles v t plan ceiling" "r = Inr (Some plan)"
      "c' = c\<lparr>pc_ceilings := hm_insert t ceiling (pc_ceilings c), pc_plans := hm_insert t plan (pc_plans c)\<rparr>"
    | (refused) "\<And>p. r \<noteq> Inr (Some p)" "c' = invalidate_cache t c"
proof (cases "\<exists>plan. r = Inr (Some plan)")
  case True
  then obtain plan where r: "r = Inr (Some plan)" by blast
  obtain v x ceiling cap where "from_str body = Some v" "json_get v ''valid'' = Some x" "as_bool x = Some True"
      "max_vcpu_h_ceiling_ms v = Inr ceiling" "u32_field v ''max_concurrency'' = Some cap"
      "plan = \<lparr>tp_tenant = t, tp_max_concurrency = cap, tp_rate_ceiling_per_min = plan_rate v cap, tp_repo_allowlist = []\<rparr>"
      "c' = c\<lparr>pc_ceilings := hm_insert t ceiling (pc_ceilings c), pc_plans := hm_insert t plan (pc_plans c)\<rparr>"
    using assms r by (fastforce simp: parse_plan_200_def Let_def bind_eq_Some_conv split: option.splits sum.splits if_splits)
  then show ?thesis using r by (intro granted [of v plan ceiling]) (auto simp: entitles_def elim!: as_bool.elims)
next
  case False
  then have "c' = invalidate_cache t c"
    using assms by (auto simp: parse_plan_200_def Let_def split: option.splits sum.splits if_splits)
  then show ?thesis using False refused by blast
qed

definition plan_cache_ok :: "plan_cache \<Rightarrow> bool" where
  "plan_cache_ok c \<longleftrightarrow>
     (\<forall>t. hm_get (pc_plans c) t = None \<longleftrightarrow> hm_get (pc_ceilings c) t = None) \<and>
     (\<forall>t p. hm_get (pc_plans c) t = Some p \<longrightarrow> tp_tenant p = t \<and> tp_repo_allowlist p = []) \<and>
     (\<forall>t v. hm_get (pc_ceilings c) t = Some v \<longrightarrow> fits_ledger v)"

lemma parse_plan_ok:
  assumes "plan_cache_ok c" and "parse_plan_200 from_str t body c = (r, c')"
  shows "plan_cache_ok c'"
  using assms(2)
proof (cases rule: parse_plan_cases)
  case (granted v plan ceiling)
  then have "tp_tenant plan = t" "tp_repo_allowlist plan = []" "fits_ledger ceiling"
    using ceiling_fits by (auto simp: entitles_def)
  then show ?thesis using assms(1) granted(4) by (simp add: plan_cache_ok_def)
next
  case refused
  then show ?thesis using assms(1) by (simp add: plan_cache_ok_def invalidate_cache_def)
qed

definition cl_query ::
  "'w introspect_env \<Rightarrow> (string \<Rightarrow> json option) \<Rightarrow> (string \<Rightarrow> string) \<Rightarrow> auth_config
     \<Rightarrow> tenant_id \<Rightarrow> string \<times> string option \<Rightarrow> 'w plan_store \<Rightarrow> (plan_source_error + tenant_plan option) \<times> 'w plan_store" where
  "cl_query env from_str to_body cfg t q s = cl_plan_of_resolving_cached env from_str to_body cfg t (fst q) (snd q) s"

lemma cl_query_cases:
  assumes "cl_query env from_str to_body cfg t (token, cached) s = (r, s')"
  obtains (answered) body where "parse_plan_200 from_str t body (ps_cache s) = (r, ps_cache s')" "\<And>b. cached = Some b \<Longrightarrow> body = b"
    | (failed) "cached = None" "r = Inl PlanUnreachable" "ps_cache s' = invalidate_cache t (ps_cache s)"
  using assms
  by (fastforce simp: cl_query_def cl_plan_of_resolving_cached_def cl_plan_of_resolving_def Let_def
      split: option.splits prod.splits introspect_outcome.splits)

lemma cl_query_effect:
  assumes "cl_query env from_str to_body cfg t q s = (r, s')"
  shows "(\<exists>plan ceiling. r = Inr (Some plan) \<and> tp_tenant plan = t \<and> ps_cache s' = (ps_cache s)\<lparr>
      pc_ceilings := hm_insert t ceiling (pc_ceilings (ps_cache s)), pc_plans := hm_insert t plan (pc_plans (ps_cache s))\<rparr>) \<or>
    (\<forall>p. r \<noteq> Inr (Some p)) \<and> ps_cache s' = invalidate_cache t (ps_cache s)"
proof -
  obtain token cached where q: "q = (token, cached)" by fastforce
  show ?thesis
    using assms unfolding q
  proof (cases rule: cl_query_cases)
    case (answered body)
    from answered(1) show ?thesis
    proof (cases rule: parse_plan_cases)
      case (granted v plan ceiling)
      then have "tp_tenant plan = t" by (simp add: entitles_def)
      then show ?thesis using granted by blast
    qed blast
  qed blast
qed

lemma cl_query_ok:
  assumes "plan_cache_ok (ps_cache s)" and "cl_query env from_str to_body cfg t q s = (r, s')"
  shows "plan_cache_ok (ps_cache s')"
proof -
  obtain token cached where q: "q = (token, cached)" by fastforce
  show ?thesis
    using assms(2) unfolding q
  proof (cases rule: cl_query_cases)
    case (answered body)
    then show ?thesis using parse_plan_ok assms(1) by blast
  next
    case failed
    then show ?thesis using assms(1) by (simp add: plan_cache_ok_def invalidate_cache_def)
  qed
qed

interpretation corelink: plan_source
  "\<lambda>s. plan_cache_ok (ps_cache s)" "\<lambda>s. cl_plan_of (ps_cache s)" "\<lambda>s. cl_tenant_ceiling_vcpu_ms (ps_cache s)"
  "cl_query env from_str to_body cfg" for env from_str to_body cfg
proof
  fix t q s r s'
  assume q: "cl_query env from_str to_body cfg t q s = (r, s')"
  note eff = cl_query_effect [OF q]
  show "plan_cache_ok (ps_cache s')" if "plan_cache_ok (ps_cache s)"
    using that q by (rule cl_query_ok)
  from eff show "cl_plan_of (ps_cache s') t = (case r of Inr p \<Rightarrow> p | Inl e \<Rightarrow> None)"
    by (cases r) (auto simp: cl_plan_of_def invalidate_cache_def)
  fix t'
  assume "t' \<noteq> t"
  with eff show "cl_plan_of (ps_cache s') t' = cl_plan_of (ps_cache s) t' \<and>
      cl_tenant_ceiling_vcpu_ms (ps_cache s') t' = cl_tenant_ceiling_vcpu_ms (ps_cache s) t'"
    by (auto simp: cl_plan_of_def cl_tenant_ceiling_vcpu_ms_def invalidate_cache_def)
qed (auto simp: plan_cache_ok_def cl_plan_of_def cl_tenant_ceiling_vcpu_ms_def)


section \<open>The local sources keep it too\<close>

definition filed :: "('s \<Rightarrow> tenant_id \<Rightarrow> tenant_plan option) \<Rightarrow> 's \<Rightarrow> bool" where
  "filed plan_of s \<longleftrightarrow> (\<forall>t p. plan_of s t = Some p \<longrightarrow> tp_tenant p = t)"

definition bootstrap_resolve ::
  "tenant_id \<Rightarrow> string \<Rightarrow> plan_registry \<times> static_plans
     \<Rightarrow> (plan_source_error + tenant_plan option) \<times> plan_registry \<times> static_plans" where
  "bootstrap_resolve t token = composite_plan_of_resolving
     (\<lambda>reg. (default_plan_of_resolving (live_plan_of reg) t, reg))
     (\<lambda>s. (default_plan_of_resolving (static_plan_of s) t, s))"

definition bootstrap_plan_of :: "plan_registry \<times> static_plans \<Rightarrow> tenant_id \<Rightarrow> tenant_plan option" where
  "bootstrap_plan_of s = composite_plan_of (live_plan_of (fst s)) (static_plan_of (snd s))"

definition bootstrap_ceiling_of :: "plan_registry \<times> static_plans \<Rightarrow> tenant_id \<Rightarrow> u64" where
  "bootstrap_ceiling_of s = composite_tenant_ceiling_vcpu_ms (live_tenant_ceiling_vcpu_ms (fst s)) (static_tenant_ceiling_vcpu_ms (snd s))"

lemma ceiling_for_nonzero: "ceiling_for tier \<noteq> 0"
  by (cases tier) (simp_all add: MS_PER_VCPU_HOUR_def)

lemma live_plan_iff: "live_plan_of reg t = (case hm_get (pr_tiers reg) t of None \<Rightarrow> None | Some tier \<Rightarrow> Some (tenant_plan_of reg t))"
proof (cases "hm_get (pr_tiers reg) t")
  case (Some tier)
  then show ?thesis by (cases tier) (simp_all add: live_plan_of_def tenant_plan_of_def Let_def)
qed (simp add: live_plan_of_def tenant_plan_of_def)

lemma live_ceiling_iff: "live_tenant_ceiling_vcpu_ms reg t = 0 \<longleftrightarrow> live_plan_of reg t = None"
  by (simp add: live_plan_iff live_tenant_ceiling_vcpu_ms_def tenant_ceiling_vcpu_ms_def ceiling_for_nonzero split: option.split)

lemma live_filed: "filed live_plan_of reg"
  by (auto simp: filed_def live_plan_iff tenant_plan_of_def split: option.splits prod.splits)

interpretation bootstrap: plan_source "\<lambda>s. filed static_plan_of (snd s)" bootstrap_plan_of bootstrap_ceiling_of bootstrap_resolve
proof
  fix t q s r s'
  assume "bootstrap_resolve t q s = (r, s')"
  then have r: "s' = s" "r = Inr (bootstrap_plan_of s t)"
    by (auto simp: bootstrap_resolve_def composite_plan_of_resolving_def default_plan_of_resolving_def bootstrap_plan_of_def
        composite_plan_of_def split: option.splits)
  show "filed static_plan_of (snd s) \<Longrightarrow> filed static_plan_of (snd s')" by (simp add: r)
  show "bootstrap_plan_of s' t = (case r of Inr p \<Rightarrow> p | Inl e \<Rightarrow> None)" by (simp add: r)
  show "bootstrap_plan_of s' t' = bootstrap_plan_of s t' \<and> bootstrap_ceiling_of s' t' = bootstrap_ceiling_of s t'" for t'
    by (simp add: r)
next
  fix s t p
  assume "filed static_plan_of (snd s)" and "bootstrap_plan_of s t = Some p"
  then show "tp_tenant p = t"
    using live_filed [of "fst s"] by (auto simp: bootstrap_plan_of_def composite_plan_of_def filed_def split: option.splits)
next
  fix s t
  assume "bootstrap_plan_of s t = None"
  then show "bootstrap_ceiling_of s t = 0"
    by (auto simp: bootstrap_plan_of_def composite_plan_of_def bootstrap_ceiling_of_def composite_tenant_ceiling_vcpu_ms_def
        live_ceiling_iff static_tenant_ceiling_vcpu_ms_def static_plan_of_def split: option.splits)
qed


section \<open>Properties\<close>

text \<open>A history of resolves on a new store.\<close>

definition cl_history ::
  "'w introspect_env \<Rightarrow> (string \<Rightarrow> json option) \<Rightarrow> (string \<Rightarrow> string) \<Rightarrow> auth_config \<Rightarrow> breaker \<Rightarrow> 'w
     \<Rightarrow> (tenant_id \<times> string \<times> string option) list \<Rightarrow> 'w plan_store" where
  "cl_history env from_str to_body cfg b w qs =
     fold (\<lambda>(t, q) s. snd (cl_query env from_str to_body cfg t q s)) qs
       \<lparr>ps_cache = plan_cache_default, ps_breaker = b, ps_world = w\<rparr>"

text \<open>Every cached entitlement is well typed. After any history of resolves, by round trip or from a
  captured body, the plan and the ceiling caches hold the same tenants, each plan is filed under its own
  tenant with no repository allowed, and each ceiling fits the signed ledger column.\<close>

theorem plan_cache_typed:
  "plan_cache_ok (ps_cache (cl_history env from_str to_body cfg b w qs))"
  unfolding cl_history_def by (rule corelink.run_inv) (simp add: plan_cache_ok_def plan_cache_default_def)

text \<open>C18: the token-free reads give the last answer. After any history, the plan and the ceiling read for a
  tenant are those of its latest resolve, whatever other tenants resolved since: an answer that grants a
  plan is read back with exactly the ceiling its \<open>max_vcpu_h\<close> says, and a refusal, a malformed answer or
  an unreachable endpoint leaves no plan and no ceiling, however much an earlier answer granted.\<close>

theorem plan_reads_last_answer:
  assumes "t \<notin> fst ` set post"
    and "cl_query env from_str to_body cfg t q (cl_history env from_str to_body cfg b w pre) = (r, s')"
    and "c = ps_cache (cl_history env from_str to_body cfg b w (pre @ (t, q) # post))"
  shows "case r of
      Inr (Some plan) \<Rightarrow> cl_plan_of c t = Some plan \<and>
        (\<exists>body v. from_str body = Some v \<and> entitles v t plan (cl_tenant_ceiling_vcpu_ms c t) \<and> (\<forall>x. snd q = Some x \<longrightarrow> body = x))
    | _ \<Rightarrow> cl_plan_of c t = None \<and> cl_tenant_ceiling_vcpu_ms c t = 0"
proof -
  let ?s = "\<lparr>ps_cache = plan_cache_default, ps_breaker = b, ps_world = w\<rparr>"
  have "plan_cache_ok (ps_cache ?s)" by (simp add: plan_cache_ok_def plan_cache_default_def)
  note last = corelink.last_resolve [OF this assms(1) assms(2) [unfolded cl_history_def]]
  have read: "cl_plan_of c t = (case r of Inr p \<Rightarrow> p | Inl e \<Rightarrow> None)"
    "cl_tenant_ceiling_vcpu_ms c t = cl_tenant_ceiling_vcpu_ms (ps_cache s') t"
    "\<not> (\<exists>p. r = Inr (Some p)) \<Longrightarrow> cl_tenant_ceiling_vcpu_ms (ps_cache s') t = 0"
    using last unfolding assms(3) cl_history_def by blast+
  show ?thesis
  proof (cases "\<exists>plan. r = Inr (Some plan)")
    case False
    then show ?thesis using read by (auto split: sum.splits option.splits)
  next
    case True
    then obtain plan where r: "r = Inr (Some plan)" by blast
    obtain body v ceiling where body: "from_str body = Some v" "entitles v t plan ceiling" "\<forall>x. snd q = Some x \<longrightarrow> body = x"
        "cl_tenant_ceiling_vcpu_ms (ps_cache s') t = ceiling"
    proof -
      obtain token cached where q: "q = (token, cached)" by fastforce
      from assms(2) [unfolded q] show thesis
      proof (cases rule: cl_query_cases)
        case (answered body)
        from answered(1) show thesis
          by (cases rule: parse_plan_cases) (use r answered(2) q in \<open>auto intro!: that simp: cl_tenant_ceiling_vcpu_ms_def\<close>)
      qed (simp add: r)
    qed
    then show ?thesis using read r by auto
  qed
qed

definition sample_bodies :: "string \<Rightarrow> json option" where
  "sample_bodies s =
     (if s = ''full'' then Some (JObject [(''valid'', JBool True), (''tenant_id'', JStr ''acme''),
        (''max_concurrency'', JU64 4), (''max_vcpu_h'', JU64 1)])
      else if s = ''negative'' then Some (JObject [(''valid'', JBool True), (''tenant_id'', JStr ''acme''),
        (''max_concurrency'', JU64 4), (''max_vcpu_h'', JNumber ''-1'')])
      else None)"

lemma number_text_one: "show_nat (Suc 0) = ''1''"
  by code_simp

lemma sample_ceiling: "ceiling_of_parts (Suc 0) 0 0 = Inr 3600000"
  by (simp add: ceiling_of_parts_def checked_i32_def checked_u128_def scaled_ms_def checked_pow10_def MS_PER_VCPU_HOUR_def
      fits_ledger_def MAX_LEDGER_VCPU_MS_def)

lemma sample_number: "parse_number ''1'' = Inr (1, 0, 0)" "parse_number ''-1'' = Inl PlanUnreachable"
  by (simp_all add: parse_number_def checked_u128_def is_digit_def digit_val_def parse_fraction_def parse_exponent_def)

lemma sample_granted:
  "parse_plan_200 sample_bodies t ''full'' c =
     (Inr (Some \<lparr>tp_tenant = t, tp_max_concurrency = 4, tp_rate_ceiling_per_min = 40, tp_repo_allowlist = []\<rparr>),
      c\<lparr>pc_ceilings := hm_insert t 3600000 (pc_ceilings c),
        pc_plans := hm_insert t \<lparr>tp_tenant = t, tp_max_concurrency = 4, tp_rate_ceiling_per_min = 40, tp_repo_allowlist = []\<rparr> (pc_plans c)\<rparr>)"
proof -
  have "u32_try_from 4 = Some 4" by (simp add: u32_try_from_def)
  moreover have "sat_mul (4 :: u32) DERIVED_RATE_MULTIPLIER = 40" by (simp add: sat_mul_def DERIVED_RATE_MULTIPLIER_def)
  ultimately show ?thesis
    by (simp add: parse_plan_200_def sample_bodies_def json_get_def u32_field_def plan_rate_def max_vcpu_h_ceiling_ms_def
        number_text_one sample_number sample_ceiling Let_def)
qed

lemma sample_refused: "parse_plan_200 sample_bodies t ''negative'' c = (Inl PlanUnreachable, invalidate_cache t c)"
  by (simp add: parse_plan_200_def sample_bodies_def json_get_def max_vcpu_h_ceiling_ms_def sample_number)

lemma plan_reads_last_answer_witness:
  "let c = ps_cache (cl_history sample_env sample_bodies id sample_cfg (breaker_new breaker_config_default) 0
        ([(TenantId ''acme'', ''k'', Some ''full'')] @ (TenantId ''acme'', ''k'', Some ''negative'')
           # [(TenantId ''zeta'', ''z'', Some ''full'')]))
   in cl_plan_of c (TenantId ''acme'') = None \<and> cl_tenant_ceiling_vcpu_ms c (TenantId ''acme'') = 0"
proof -
  let ?h = "cl_history sample_env sample_bodies id sample_cfg (breaker_new breaker_config_default) 0"
  let ?pre = "[(TenantId ''acme'', ''k'', Some ''full'')]"
  obtain s' where "cl_query sample_env sample_bodies id sample_cfg (TenantId ''acme'') (''k'', Some ''negative'') (?h ?pre) = (Inl PlanUnreachable, s')"
    by (simp add: cl_query_def cl_plan_of_resolving_cached_def sample_refused)
  then show ?thesis
    using plan_reads_last_answer [of "TenantId ''acme''" "[(TenantId ''zeta'', ''z'', Some ''full'')]", OF _ _ refl]
    by (fastforce simp: Let_def)
qed

text \<open>A captured body can be unreachable. There is an answer from which the auth leg admits a tenant and
  from which the plan leg, given the same captured bytes, reports an unreachable source and drops whatever
  the tenant's caches held: a negative \<open>max_vcpu_h\<close>.\<close>

theorem captured_body_can_be_unreachable:
  "\<exists>from_str body t. parse_introspect_200 from_str body = Inr (Some t) \<and>
     (\<forall>resolve permits b w c. resolve_plan_offloaded
        (\<lambda>cached. cl_plan_of_resolving_cached sample_env from_str id sample_cfg t ''k'' cached) resolve permits (Some body)
        \<lparr>ps_cache = c, ps_breaker = b, ps_world = w\<rparr>
      = (ResolveUnreachable, \<lparr>ps_cache = invalidate_cache t c, ps_breaker = b, ps_world = w\<rparr>))"
proof (intro exI conjI allI)
  show "parse_introspect_200 sample_bodies ''negative'' = Inr (Some (TenantId ''acme''))"
    by code_simp
qed (simp add: resolve_plan_offloaded_def cl_plan_of_resolving_cached_def sample_refused)

text \<open>C30: a refusal that races an admission disarms the compute wall. One request of a tenant has resolved its
  plan; before it builds its compute gate, another resolve of the same tenant is refused and drops the
  cached ceiling. The gate is then built with the disabled ceiling, and the ledger admits the first request
  under its concurrency cap alone, whatever the tenant has already used of its month.\<close>

theorem raced_ceiling_admits:
  assumes "parse_plan_200 from_str t body c = (Inr (Some plan), c1)"
    and "parse_plan_200 from_str t other c1 = (r, c2)" and "\<And>p. r \<noteq> Inr (Some p)"
    and "build_compute_gate (Some vcpu) (cl_tenant_ceiling_vcpu_ms c2) t ttl now_ms = Some (Inr gate)"
    and "fst (mem_try_admit rec (tp_max_concurrency plan) led) = Inr True"
  shows "fst (mem_try_admit_with_compute rec (tp_max_concurrency plan) gate led) = Inr Admitted"
proof -
  have "c2 = invalidate_cache t c1" using assms(2,3) by (cases rule: parse_plan_cases) auto
  then have "cl_tenant_ceiling_vcpu_ms c2 t = 0" by (simp add: cl_tenant_ceiling_vcpu_ms_def invalidate_cache_def)
  then have "\<exists>g. gate = Some g \<and> cg_ceiling_vcpu_ms g = 0"
    using assms(4) by (auto simp: build_compute_gate_def Let_def split: option.splits if_splits)
  then show ?thesis using assms(5)
    by (auto simp: mem_try_admit_with_compute_def concurrency_only_admit_def concurrency_only_outcome_def
        split: prod.splits sum.splits)
qed

definition spent_lease :: lease_record where
  "spent_lease = \<lparr>lr_lease_id = ''l1'', lr_tenant = TenantId ''acme'', lr_state = Pending, lr_box_ref = ''box:l1'',
     lr_created_at_ms = 0, lr_updated_at_ms = 0, lr_deadline_ms = Some 1000, lr_billing_acquired_at_ms = None\<rparr>"

definition spent_ledger :: in_memory_inner where
  "spent_ledger = mem_new\<lparr>im_accruals := [((TenantId ''acme'', 197001), 3600000)]\<rparr>"

definition armed_gate :: "u64 \<Rightarrow> compute_gate" where
  "armed_gate ceiling = \<lparr>cg_period_key = 197001, cg_ceiling_vcpu_ms = ceiling, cg_box_vcpu_count = 1, cg_new_reserved_vcpu_ms = 1000\<rparr>"

lemma epoch_gate: "build_compute_gate (Some 1) f t 1000 0 = Some (Inr (Some (armed_gate (f t))))"
proof -
  have "period_key 0 = Some 197001" by code_simp
  moreover have "vcpu_ms 1 1000 = 1000" by (simp add: vcpu_ms_def sat_mul_def)
  ultimately show ?thesis by (simp add: build_compute_gate_def armed_gate_def fits_ledger_def MAX_LEDGER_VCPU_MS_def Let_def)
qed

lemma spent_month_refused: "fst (mem_try_admit_with_compute spent_lease 4 (Some (armed_gate 3600000)) spent_ledger) = Inr OverCompute"
  by (simp add: mem_try_admit_with_compute_def admit_decision_def armed_gate_def spent_ledger_def spent_lease_def mem_new_def
      hm_values_def sat_add_def Let_def)

lemma raced_ceiling_admits_witness:
  "fst (mem_try_admit_with_compute spent_lease 4 (Some (armed_gate 3600000)) spent_ledger) = Inr OverCompute \<and>
   fst (mem_try_admit_with_compute spent_lease 4 (Some (armed_gate 0)) spent_ledger) = Inr Admitted"
proof -
  let ?t = "TenantId ''acme''"
  let ?c1 = "snd (parse_plan_200 sample_bodies ?t ''full'' plan_cache_default)"
  have "cl_tenant_ceiling_vcpu_ms (invalidate_cache ?t ?c1) ?t = 0"
    by (simp add: cl_tenant_ceiling_vcpu_ms_def invalidate_cache_def)
  moreover have "fst (mem_try_admit spent_lease 4 spent_ledger) = Inr True"
    by (simp add: mem_try_admit_def mem_put_def spent_lease_def spent_ledger_def mem_new_def hm_values_def hm_contains_def Let_def)
  ultimately have "fst (mem_try_admit_with_compute spent_lease 4 (Some (armed_gate 0)) spent_ledger) = Inr Admitted"
    using raced_ceiling_admits [of sample_bodies ?t "''full''" plan_cache_default _ ?c1 "''negative''" _ _ 1 1000 0]
      epoch_gate [of "cl_tenant_ceiling_vcpu_ms (invalidate_cache ?t ?c1)" ?t]
    by (fastforce simp: sample_granted sample_refused)
  then show ?thesis using spent_month_refused by blast
qed

text \<open>C19: behind static authentication the armed wall has no hole. When the boot guards let a configuration
  with a box size through, every tenant that has a plan, onboarded at run time to any tier or bootstrapped,
  has a ceiling other than the disabled zero.\<close>

theorem static_mode_always_metered:
  assumes "compute_boot_guard (Some vcpu) backend StaticAuth knob plan = Inr tenant_max_vcpu_h"
    and "bootstrap_plans tenant_max_vcpu_h plan = Some sp"
    and "bootstrap_plan_of (reg, sp) t \<noteq> None"
  shows "bootstrap_ceiling_of (reg, sp) t \<noteq> 0"
proof (cases "live_plan_of reg t")
  case (Some p)
  then have "live_tenant_ceiling_vcpu_ms reg t \<noteq> 0" by (simp add: live_ceiling_iff)
  then show ?thesis by (simp add: bootstrap_ceiling_of_def composite_tenant_ceiling_vcpu_ms_def Let_def)
next
  case None
  then have "static_plan_of sp t \<noteq> None" using assms(3) by (simp add: bootstrap_plan_of_def composite_plan_of_def)
  moreover have shape: "sp_plans sp = [(tp_tenant plan, plan)]"
    using assms(2) by (auto simp: bootstrap_plans_def with_ceiling_vcpu_ms_def static_plans_new_def split: option.splits sum.splits)
  ultimately have t: "t = tp_tenant plan" by (simp add: static_plan_of_def split: if_splits)
  have "static_tenant_ceiling_vcpu_ms sp t \<noteq> 0"
  proof (cases tenant_max_vcpu_h)
    case None
    then have "sp = static_plans_new [plan]"
      using assms(2) by (simp add: bootstrap_plans_def with_ceiling_vcpu_ms_def static_plans_new_def)
    then show ?thesis using assms(1) None t
      by (auto simp: compute_boot_guard_def bootstrap_ceiling_def split: sum.splits if_splits)
  next
    case (Some h)
    then have "h \<noteq> 0" using assms(1)
      by (auto simp: compute_boot_guard_def ceiling_knob_def split: sum.splits if_splits option.splits)
    moreover obtain c where c: "ceiling_vcpu_ms h = Inr c" "sp_ceiling_vcpu_ms sp = c"
      using assms(2) Some by (auto simp: bootstrap_plans_def with_ceiling_vcpu_ms_def split: sum.splits)
    ultimately have "c \<noteq> 0" by (auto simp: ceiling_vcpu_ms_Inr_iff unat_eq_zero)
    then show ?thesis using shape t c by (simp add: static_tenant_ceiling_vcpu_ms_def)
  qed
  then show ?thesis by (simp add: bootstrap_ceiling_of_def composite_tenant_ceiling_vcpu_ms_def Let_def)
qed

definition bootstrap_sample :: tenant_plan where
  "bootstrap_sample = \<lparr>tp_tenant = TenantId ''acme'', tp_max_concurrency = 4, tp_rate_ceiling_per_min = 40, tp_repo_allowlist = []\<rparr>"

lemma static_mode_always_metered_witness:
  "compute_boot_guard (Some 2) PostgresBackend StaticAuth None bootstrap_sample = Inl BootstrapUnmetered \<and>
   (\<exists>sp. bootstrap_plans (Some 5) bootstrap_sample = Some sp \<and> bootstrap_ceiling_of (plan_registry_new, sp) (TenantId ''acme'') \<noteq> 0)"
proof -
  have five: "ceiling_vcpu_ms 5 = Inr 18000000"
    by (simp add: ceiling_vcpu_ms_def sat_mul_def MS_PER_VCPU_HOUR_def fits_ledger_def MAX_LEDGER_VCPU_MS_def)
  let ?sp = "with_ceiling_vcpu_ms 18000000 (static_plans_new [bootstrap_sample])"
  have sp: "bootstrap_plans (Some 5) bootstrap_sample = Some ?sp" using five by (simp add: bootstrap_plans_def)
  moreover have "bootstrap_plan_of (plan_registry_new, ?sp) (TenantId ''acme'') \<noteq> None"
    by (simp add: bootstrap_plan_of_def composite_plan_of_def static_plan_of_def with_ceiling_vcpu_ms_def static_plans_new_def
        bootstrap_sample_def split: option.split)
  moreover have "compute_boot_guard (Some 2) PostgresBackend StaticAuth (Some 5) bootstrap_sample = Inr (Some 5)"
    using five by (simp add: compute_boot_guard_def ceiling_knob_def bootstrap_ceiling_def)
  ultimately have "bootstrap_ceiling_of (plan_registry_new, ?sp) (TenantId ''acme'') \<noteq> 0"
    using static_mode_always_metered by blast
  moreover have "compute_boot_guard (Some 2) PostgresBackend StaticAuth None bootstrap_sample = Inl BootstrapUnmetered"
    by (simp add: compute_boot_guard_def ceiling_knob_def bootstrap_ceiling_def static_tenant_ceiling_vcpu_ms_def
        static_plans_new_def bootstrap_sample_def plan_tier_ALL_def)
  ultimately show ?thesis using sp by blast
qed

end
