(* ===== verification/Admin.thy ===== *)
theory Admin
  imports Plan_Store
begin

text \<open>
  The operator endpoint that onboards tenants, \<open>corelink-fabric-server/src/handlers/admin.rs\<close>: the parsing of a tier, and the handler over the live registry. The JSON
  decoding of the request body is the parameter \<open>from_slice\<close>.
\<close>

section \<open>Tiers\<close>

definition parse_tier :: "string \<Rightarrow> plan_tier option" where
  "parse_tier s =
     (let name = map ascii_lower (str_trim s) in
      if name = ''starter'' then Some Starter
      else if name = ''pro'' then Some Pro
      else if name = ''team'' then Some Team
      else if name = ''scale'' then Some Scale
      else if name = ''max'' then Some Max
      else None)"

text \<open>The lowercased \<open>Debug\<close> rendering of a tier.\<close>

fun tier_name :: "plan_tier \<Rightarrow> string" where
  "tier_name Starter = ''starter''"
| "tier_name Pro = ''pro''"
| "tier_name Team = ''team''"
| "tier_name Scale = ''scale''"
| "tier_name Max = ''max''"


section \<open>The handler\<close>

record onboard_request =
  or_tenant :: string
  or_plan :: string

record onboard_response =
  os_tenant :: string
  os_tier :: string
  os_max_concurrency :: u32
  os_rate_ceiling_per_min :: u32

datatype onboard_reply = NotFound | Unauthorized | BadRequest | Onboarded onboard_response

definition onboard_tenant ::
  "(string \<Rightarrow> onboard_request option) \<Rightarrow> string option \<Rightarrow> string option \<Rightarrow> string \<Rightarrow> plan_registry
     \<Rightarrow> onboard_reply \<times> plan_registry" where
  "onboard_tenant from_slice admin_key header body reg =
     (case admin_key of
        None \<Rightarrow> (NotFound, reg)
      | Some key \<Rightarrow>
          let presented = (case header of Some h \<Rightarrow> h | None \<Rightarrow> []) in
          if \<not> secret_matches key presented then (Unauthorized, reg)
          else (case from_slice body of
                  None \<Rightarrow> (BadRequest, reg)
                | Some req \<Rightarrow>
                    if length (or_tenant req) > 128 then (BadRequest, reg)
                    else (case tenant_new (or_tenant req) of
                            Inl e \<Rightarrow> (BadRequest, reg)
                          | Inr t \<Rightarrow>
                              (case parse_tier (or_plan req) of
                                 None \<Rightarrow> (BadRequest, reg)
                               | Some tier \<Rightarrow>
                                   (Onboarded \<lparr>os_tenant = tenant_str t, os_tier = tier_name tier,
                                               os_max_concurrency = fst (plan_for tier),
                                               os_rate_ceiling_per_min = snd (plan_for tier)\<rparr>,
                                    set_plan t tier reg)))))"

lemma parse_tier_name: "parse_tier (tier_name tier) = Some tier"
proof -
  have "str_trim (tier_name tier) = tier_name tier"
    by (rule trim_clean) (cases tier; simp add: is_ascii_ws_def)+
  then show ?thesis by (cases tier) (simp_all add: parse_tier_def ascii_lower_def)
qed


section \<open>Onboarding\<close>

lemma live_plan_set:
  "live_plan_of (set_plan t tier reg) t' =
     (if t' = t then Some \<lparr>tp_tenant = t, tp_max_concurrency = fst (plan_for tier), tp_rate_ceiling_per_min = snd (plan_for tier),
                           tp_repo_allowlist = []\<rparr>
      else live_plan_of reg t')"
  by (simp add: live_plan_iff set_plan_def tenant_plan_of_def case_prod_beta Let_def split: option.split)


end
