(* ===== verification/Shard.thy ===== *)
theory Shard
  imports Rust_Str
begin

text \<open>Lease-id routing over the instances of the control plane: the hash and the rejection sampling of
  \<open>shard.rs\<close>, and the hash of the proxy Worker in \<open>deploy/cloudflare-fabricd/src/shard.ts\<close>, which has to
  agree with it.\<close>

unbundle bit_operations_syntax

definition FNV_OFFSET_BASIS :: u32 where
  "FNV_OFFSET_BASIS = 2166136261"

definition FNV_PRIME :: u32 where
  "FNV_PRIME = 16777619"

fun fnv_loop :: "u32 \<Rightarrow> string \<Rightarrow> u32" where
  "fnv_loop hash [] = hash"
| "fnv_loop hash (b # bs) = fnv_loop ((hash XOR of_nat (byte b)) * FNV_PRIME) bs"

definition fnv1a_32 :: "string \<Rightarrow> u32" where
  "fnv1a_32 bytes = fnv_loop FNV_OFFSET_BASIS bytes"

definition shard_of :: "string \<Rightarrow> u32 \<Rightarrow> u32" where
  "shard_of lease_id num_shards = fnv1a_32 lease_id mod max num_shards 1"

text \<open>The sampling loop: at most the given number of further draws, the last one if none fits.\<close>

fun mint_loop :: "('w \<Rightarrow> string \<times> 'w) \<Rightarrow> u32 \<Rightarrow> u32 \<Rightarrow> nat \<Rightarrow> string \<Rightarrow> 'w \<Rightarrow> string \<times> 'w" where
  "mint_loop mint n target 0 prev w = (prev, w)"
| "mint_loop mint n target (Suc k) prev w =
     (case mint w of (lid, w') \<Rightarrow>
        if shard_of lid n = target then (lid, w') else mint_loop mint n target k lid w')"

definition mint_lease_id_for_shard ::
  "u32 \<Rightarrow> u32 \<Rightarrow> u32 \<Rightarrow> ('w \<Rightarrow> string \<times> 'w) \<Rightarrow> 'w \<Rightarrow> string \<times> 'w" where
  "mint_lease_id_for_shard target_shard num_shards max_tries mint w =
     (let n = max num_shards 1; target = target_shard mod n in
      case mint w of (lid, w') \<Rightarrow>
        if n = 1 \<or> shard_of lid n = target then (lid, w')
        else mint_loop mint n target (unat (max max_tries 1) - 1) lid w')"


section \<open>The Worker's side\<close>

text \<open>JavaScript numbers as integers: \<open>ToInt32\<close>, the bitwise operators on 32-bit integers,
  \<open>Math.imul\<close> and the unsigned shift by zero.\<close>

definition to_int32 :: "int \<Rightarrow> int" where
  "to_int32 x = (x + 2 ^ 31) mod 2 ^ 32 - 2 ^ 31"

definition js_xor :: "int \<Rightarrow> int \<Rightarrow> int" where
  "js_xor a b = to_int32 (to_int32 a XOR to_int32 b)"

definition js_imul :: "int \<Rightarrow> int \<Rightarrow> int" where
  "js_imul a b = to_int32 (a * b)"

definition js_ushr0 :: "int \<Rightarrow> int" where
  "js_ushr0 x = x mod 2 ^ 32"

fun fnv1a32_loop :: "int \<Rightarrow> string \<Rightarrow> int" where
  "fnv1a32_loop h [] = h"
| "fnv1a32_loop h (b # bs) = fnv1a32_loop (js_imul (js_xor h (int (byte b))) 16777619) bs"

definition fnv1a32 :: "string \<Rightarrow> int" where
  "fnv1a32 s = js_ushr0 (fnv1a32_loop (to_int32 2166136261) s)"

text \<open>\<open>Math.max(1, n || 1)\<close> for an integral \<open>n\<close>: zero is falsy.\<close>

definition shardOf :: "string \<Rightarrow> int \<Rightarrow> int" where
  "shardOf leaseId numShards = fnv1a32 leaseId mod max 1 (if numShards = 0 then 1 else numShards)"


section \<open>Agreement\<close>

lemma word_of_int_mod: "(word_of_int (x mod 2 ^ 32) :: u32) = word_of_int x"
  by (simp add: word_of_int_eq_iff take_bit_eq_mod)

lemma word_of_to_int32: "(word_of_int (to_int32 x) :: u32) = word_of_int x"
proof -
  have "(word_of_int (to_int32 x) :: u32) = word_of_int ((x + 2 ^ 31) mod 2 ^ 32) - word_of_int (2 ^ 31)"
    unfolding to_int32_def by (rule of_int_diff)
  then show ?thesis unfolding word_of_int_mod by simp
qed

lemma fnv_loops_agree: "word_of_int h = hash \<Longrightarrow> (word_of_int (fnv1a32_loop h s) :: u32) = fnv_loop hash s"
proof (induction s arbitrary: h hash)
  case (Cons b bs)
  have "(word_of_int (js_imul (js_xor h (int (byte b))) 16777619) :: u32)
      = word_of_int (js_xor h (int (byte b))) * FNV_PRIME"
    by (simp add: js_imul_def word_of_to_int32 FNV_PRIME_def)
  also have "(word_of_int (js_xor h (int (byte b))) :: u32) = hash XOR of_nat (byte b)"
    using Cons.prems by (simp add: js_xor_def word_of_to_int32 of_int_xor_eq)
  finally show ?case using Cons.IH by simp
qed simp

lemma fnv1a32_eq: "fnv1a32 s = int (unat (fnv1a_32 s))"
proof -
  have "(word_of_int (fnv1a32_loop (to_int32 2166136261) s) :: u32) = fnv1a_32 s"
    unfolding fnv1a_32_def by (rule fnv_loops_agree) (simp add: word_of_to_int32 FNV_OFFSET_BASIS_def)
  from arg_cong [OF this, of uint] have "uint (fnv1a_32 s) = fnv1a32_loop (to_int32 2166136261) s mod 2 ^ 32"
    by (simp add: uint_word_of_int)
  then show ?thesis by (simp add: fnv1a32_def js_ushr0_def)
qed

text \<open>C32: the Worker and the control plane route alike. For every lease id and every count of instances
  that fits 32 bits, the shard that the TypeScript proxy computes in JavaScript numbers is the one that the
  Rust server computes in wrapping 32-bit words, and it is a valid shard index.\<close>

theorem worker_routes_like_server:
  "shardOf lease_id (int (unat num_shards)) = int (unat (shard_of lease_id num_shards)) \<and>
   unat (shard_of lease_id num_shards) < max 1 (unat num_shards)"
proof -
  have n: "unat (max num_shards 1) = max 1 (unat num_shards)"
    by (simp add: max_def word_le_nat_alt)
  have "unat (shard_of lease_id num_shards) = unat (fnv1a_32 lease_id) mod max 1 (unat num_shards)"
    unfolding shard_of_def unat_mod n ..
  moreover have "max 1 (if int (unat num_shards) = 0 then 1 else int (unat num_shards)) = int (max 1 (unat num_shards))"
    by (simp del: of_nat_unat add: max_def)
  ultimately show ?thesis
    unfolding shardOf_def fnv1a32_eq by (simp only: zmod_int) (simp add: max_def)
qed


section \<open>Minting\<close>

text \<open>The first draws of a generator.\<close>

fun draws :: "('w \<Rightarrow> string \<times> 'w) \<Rightarrow> nat \<Rightarrow> 'w \<Rightarrow> string list" where
  "draws mint 0 w = []"
| "draws mint (Suc k) w = fst (mint w) # draws mint k (snd (mint w))"

lemma mint_loop_drawn:
  "fst (mint_loop mint n target (Suc k) prev w) \<in> set (draws mint (Suc k) w)"
proof (induction k arbitrary: prev w)
  case (Suc k)
  from Suc [of "fst (mint w)" "snd (mint w)"] show ?case
    by (cases "mint w") (simp del: mint_loop.simps(2) add: mint_loop.simps(2) [of _ _ _ "Suc k"])
qed (simp split: prod.split)

lemma mint_loop_routes:
  "shard_of (fst (mint_loop mint n target k prev w)) n = target \<or>
   (\<forall>lid \<in> set (draws mint k w). shard_of lid n \<noteq> target)"
proof (induction k arbitrary: prev w)
  case (Suc k)
  then show ?case by (cases "mint w") auto
qed simp

lemma mint_loop_result:
  "fst (mint_loop mint n target k prev w) \<in> insert prev (set (draws mint k w))"
  by (cases k) (use mint_loop_drawn [of mint n target "k - 1" prev w] in simp_all)

text \<open>C33: a lease comes home. The id minted for a shard is one of the first \<open>max_tries\<close> ids drawn, and it
  routes to that shard unless none of those ids does.\<close>

theorem minted_lease_routes_home:
  "let lid = fst (mint_lease_id_for_shard target_shard num_shards max_tries mint w);
           n = max num_shards 1;
       tried = draws mint (unat (max max_tries 1)) w in
   lid \<in> set tried \<and>
   (shard_of lid num_shards = target_shard mod n \<or>
    (\<forall>l \<in> set tried. shard_of l num_shards \<noteq> target_shard mod n))"
proof -
  define n where "n = max num_shards 1"
  obtain k where k: "unat (max max_tries 1) = Suc k"
    by (cases "unat (max max_tries 1)") (auto simp: max_def unat_eq_0 split: if_splits)
  have so: "shard_of l n = shard_of l num_shards" for l by (simp add: shard_of_def n_def)
  have one: "n = 1 \<Longrightarrow> shard_of l num_shards = target_shard mod n" for l by (simp add: shard_of_def n_def)
  let ?lid = "fst (mint_loop mint n (target_shard mod n) k (fst (mint w)) (snd (mint w)))"
  have "fst (mint_lease_id_for_shard target_shard num_shards max_tries mint w)
      = (if n = 1 \<or> shard_of (fst (mint w)) n = target_shard mod n then fst (mint w) else ?lid)"
    by (simp add: mint_lease_id_for_shard_def Let_def k flip: n_def split: prod.split)
  moreover have "?lid \<in> insert (fst (mint w)) (set (draws mint k (snd (mint w))))" by (rule mint_loop_result)
  moreover have "shard_of ?lid n = target_shard mod n \<or>
      (\<forall>lid \<in> set (draws mint k (snd (mint w))). shard_of lid n \<noteq> target_shard mod n)"
    by (rule mint_loop_routes)
  ultimately show ?thesis using one unfolding Let_def k so n_def [symmetric] by auto
qed

theorem minted_lease_routes_home_witness:
  "let lid = fst (mint_lease_id_for_shard 3 2 2 (\<lambda>n. (if n = (0 :: nat) then ''lease-abc'' else ''x'', Suc n)) 0) in
   lid = ''x'' \<and> shard_of lid 2 = 1 \<and> shard_of ''lease-abc'' 2 = 0"
proof -
  let ?mint = "\<lambda>n. (if n = (0 :: nat) then ''lease-abc'' else ''x'', Suc n)"
  have abc: "shard_of ''lease-abc'' 2 = 0" and x: "shard_of ''x'' 2 = 1"
    by (simp_all add: shard_of_def fnv1a_32_def FNV_OFFSET_BASIS_def FNV_PRIME_def)
  have "unat (max (2 :: u32) 1) = Suc (Suc 0)" by simp
  then have draws: "draws ?mint (unat (max (2 :: u32) 1)) 0 = [''lease-abc'', ''x'']"
    by (simp only: draws.simps) simp
  have "fst (mint_lease_id_for_shard 3 2 2 ?mint 0) = ''x''"
    using minted_lease_routes_home [of 3 2 2 ?mint 0] abc x unfolding draws Let_def by auto
  with abc x show ?thesis by simp
qed

end
