(* ===== verification/Box_Spec.thy ===== *)
theory Box_Spec
  imports Ledger
begin

text \<open>What may be started on a box: content-pinned images and their verification on the box
  (\<open>corelink-runner/src/pin.rs\<close>), the container specifications of the three kinds of lease
  (\<open>corelink-runner/src/lease.rs\<close>), and the environment injected into a box (\<open>envelope_inject.rs\<close>,
  \<open>runner_inject.rs\<close>).\<close>

section \<open>Pinned images\<close>

datatype spec_error =
    EmptyReference
  | NotPinned
  | EmptyRepository
  | IllegalRepository
  | NotSha256
  | MalformedDigest
  | UppercaseDigest
  | EmptyLeaseId
  | EmptyTmpRoot
  | TmpRootNotAbsolute
  | TmpRootTooShort
  | TmpRootIllegal
  | WrongNetPolicy string

record pinned_image_ref =
  pi_reference :: string
  pi_digest_hex :: string

definition is_ascii_hexdigit :: "char \<Rightarrow> bool" where
  "is_ascii_hexdigit c \<longleftrightarrow> is_digit c \<or> 65 \<le> byte c \<and> byte c \<le> 70 \<or> 97 \<le> byte c \<and> byte c \<le> 102"

definition is_ascii_uppercase :: "char \<Rightarrow> bool" where
  "is_ascii_uppercase c \<longleftrightarrow> 65 \<le> byte c \<and> byte c \<le> 90"

definition repository_char :: "char \<Rightarrow> bool" where
  "repository_char c \<longleftrightarrow> is_ascii_alnum c \<or> c \<in> set ''_.-/:''"

definition pin_parse :: "string \<Rightarrow> spec_error + pinned_image_ref" where
  "pin_parse reference =
     (let r = str_trim reference in
      if r = [] then Inl EmptyReference
      else case split_once (CHR ''@'') r of
        None \<Rightarrow> Inl NotPinned
      | Some (repository, digest) \<Rightarrow>
          if repository = [] then Inl EmptyRepository
          else if \<not> list_all repository_char repository then Inl IllegalRepository
          else case strip_prefix ''sha256:'' digest of
            None \<Rightarrow> Inl NotSha256
          | Some hex \<Rightarrow>
              if length hex \<noteq> 64 \<or> \<not> list_all is_ascii_hexdigit hex then Inl MalformedDigest
              else if list_ex is_ascii_uppercase hex then Inl UppercaseDigest
              else Inr \<lparr>pi_reference = r, pi_digest_hex = hex\<rparr>)"

definition is_pinned :: "string \<Rightarrow> bool" where
  "is_pinned reference = is_ok (pin_parse reference)"

definition require_pinned :: "string \<Rightarrow> spec_error + pinned_image_ref" where
  "require_pinned img = pin_parse img"

text \<open>The grammar of a pinned reference.\<close>

definition pinned_form :: "string \<Rightarrow> string \<Rightarrow> string \<Rightarrow> bool" where
  "pinned_form r repository hex \<longleftrightarrow>
     r = repository @ ''@sha256:'' @ hex \<and> repository \<noteq> [] \<and> list_all repository_char repository \<and>
     length hex = 64 \<and> list_all is_lower_hex hex"

lemma lower_hex_split: "is_lower_hex c \<longleftrightarrow> is_ascii_hexdigit c \<and> \<not> is_ascii_uppercase c"
  by (auto simp: is_lower_hex_def is_ascii_hexdigit_def is_ascii_uppercase_def is_digit_def)

lemma lower_hex_list:
  "list_all is_lower_hex hex \<longleftrightarrow> list_all is_ascii_hexdigit hex \<and> \<not> list_ex is_ascii_uppercase hex"
  by (induction hex) (auto simp: lower_hex_split)

lemma repository_no_at: "list_all repository_char r \<Longrightarrow> CHR ''@'' \<notin> set r"
  by (auto simp: list_all_iff repository_char_def is_ascii_alnum_def is_digit_def)

lemma pinned_form_split:
  "pinned_form r repository hex \<Longrightarrow> split_once (CHR ''@'') r = Some (repository, ''sha256:'' @ hex)"
  by (simp add: pinned_form_def split_once_Some repository_no_at)

lemma pin_parse_Inr:
  "pin_parse reference = Inr p \<longleftrightarrow>
   pi_reference p = str_trim reference \<and> (\<exists>repository. pinned_form (str_trim reference) repository (pi_digest_hex p))"
proof
  assume "pin_parse reference = Inr p"
  then obtain repository digest hex where
    s: "split_once (CHR ''@'') (str_trim reference) = Some (repository, digest)" and
    d: "strip_prefix ''sha256:'' digest = Some hex" and
    c: "repository \<noteq> []" "list_all repository_char repository" "length hex = 64" "list_all is_lower_hex hex" and
    p: "p = \<lparr>pi_reference = str_trim reference, pi_digest_hex = hex\<rparr>"
    by (auto simp: pin_parse_def Let_def lower_hex_list split: if_splits option.splits prod.splits)
  from s d c have "pinned_form (str_trim reference) repository hex"
    by (auto simp: split_once_Some strip_prefix_Some pinned_form_def)
  with p show "pi_reference p = str_trim reference \<and>
      (\<exists>repository. pinned_form (str_trim reference) repository (pi_digest_hex p))" by auto
next
  assume a: "pi_reference p = str_trim reference \<and>
    (\<exists>repository. pinned_form (str_trim reference) repository (pi_digest_hex p))"
  then obtain repository where f: "pinned_form (str_trim reference) repository (pi_digest_hex p)" by blast
  moreover have "str_trim reference \<noteq> []" using f by (auto simp: pinned_form_def)
  moreover have "strip_prefix ''sha256:'' (''sha256:'' @ pi_digest_hex p) = Some (pi_digest_hex p)"
    by (simp add: strip_prefix_Some)
  ultimately show "pin_parse reference = Inr p"
    using a by (auto simp: pin_parse_def Let_def pinned_form_split lower_hex_list pinned_form_def)
qed


section \<open>Verification on the box\<close>

text \<open>The transport to the box is a parameter: it runs a command and gives its captured output, or fails
  to reach the box.\<close>

record cmd_output =
  co_code :: "int option"
  co_stdout :: string
  co_stderr :: string

type_synonym 'w box_exec = "string list \<Rightarrow> 'w \<Rightarrow> (string + cmd_output) \<times> 'w"

definition cmd_ok :: "cmd_output \<Rightarrow> bool" where
  "cmd_ok out \<longleftrightarrow> co_code out = Some 0"

definition str_contains :: "string \<Rightarrow> string \<Rightarrow> bool" where
  "str_contains needle s \<longleftrightarrow> list_ex (\<lambda>i. take (length needle) (drop i s) = needle) [0..<Suc (length s)]"

lemma str_contains_iff: "str_contains needle s \<longleftrightarrow> (\<exists>a b. s = a @ needle @ b)"
proof
  assume "str_contains needle s"
  then obtain i where "take (length needle) (drop i s) = needle" by (auto simp: str_contains_def list_ex_iff)
  then have "s = take i s @ needle @ drop (length needle) (drop i s)" by (metis append_take_drop_id)
  then show "\<exists>a b. s = a @ needle @ b" by blast
next
  assume "\<exists>a b. s = a @ needle @ b"
  then obtain a b where "s = a @ needle @ b" by blast
  then show "str_contains needle s"
    by (auto simp: str_contains_def list_ex_iff intro!: bexI [where x = "length a"])
qed

definition is_permanent_pull_failure :: "string \<Rightarrow> bool" where
  "is_permanent_pull_failure stderr =
     list_ex (\<lambda>needle. str_contains needle (map ascii_lower stderr))
       [''manifest unknown'', ''manifest for'', ''no such manifest'', ''not found'', ''does not match'',
        ''unauthorized'', ''denied'', ''forbidden'', ''repository does not exist'', ''invalid reference'',
        ''unsupported'']"

definition PULL_MAX_ATTEMPTS :: nat where
  "PULL_MAX_ATTEMPTS = 4"

datatype verify_error =
    BoxUnreachable string
  | PullRefused string
  | PullExhausted string
  | InspectFailed string
  | DigestMismatch

text \<open>The attempts that are left, and the standard error of the last one.\<close>

fun pull_attempts :: "'w box_exec \<Rightarrow> string \<Rightarrow> nat \<Rightarrow> string \<Rightarrow> 'w \<Rightarrow> (verify_error + unit) \<times> 'w" where
  "pull_attempts box reference 0 prev w = (Inl (PullExhausted (str_trim prev)), w)"
| "pull_attempts box reference (Suc n) prev w =
     (case box [''docker'', ''pull'', reference] w of
        (Inl e, w') \<Rightarrow> (Inl (BoxUnreachable e), w')
      | (Inr pull, w') \<Rightarrow>
          if cmd_ok pull then (Inr (), w')
          else let stderr = str_trim (co_stderr pull) in
            if is_permanent_pull_failure stderr then (Inl (PullRefused stderr), w')
            else pull_attempts box reference n (co_stderr pull) w')"

definition pull_with_retry :: "'w box_exec \<Rightarrow> pinned_image_ref \<Rightarrow> 'w \<Rightarrow> (verify_error + unit) \<times> 'w" where
  "pull_with_retry box p w = pull_attempts box (pi_reference p) PULL_MAX_ATTEMPTS [] w"

definition inspect_argv :: "string \<Rightarrow> string list" where
  "inspect_argv reference =
     [''docker'', ''image'', ''inspect'', reference, ''--format'',
      ''{{range .RepoDigests}}{{.}}'' @ [newline] @ ''{{end}}'']"

definition verify_on_box :: "'w box_exec \<Rightarrow> pinned_image_ref \<Rightarrow> 'w \<Rightarrow> (verify_error + unit) \<times> 'w" where
  "verify_on_box box p w =
     (case pull_with_retry box p w of
        (Inl e, w') \<Rightarrow> (Inl e, w')
      | (Inr u, w') \<Rightarrow>
          (case box (inspect_argv (pi_reference p)) w' of
             (Inl e, w'') \<Rightarrow> (Inl (BoxUnreachable e), w'')
           | (Inr inspect, w'') \<Rightarrow>
               if \<not> cmd_ok inspect then (Inl (InspectFailed (str_trim (co_stderr inspect))), w'')
               else if \<not> str_contains (''sha256:'' @ pi_digest_hex p) (co_stdout inspect)
               then (Inl DigestMismatch, w'')
               else (Inr (), w'')))"


section \<open>Container specifications\<close>

record runner_lease =
  rl_lease_id :: string
  rl_principal_chain :: "string list"
  rl_path_set :: "string list"
  rl_expiry :: u64
  rl_net_policy :: string
  rl_tmp_root :: string
  rl_state :: runner_state

record container_spec =
  cs_name :: string
  cs_image :: string
  cs_tmp_root :: string
  cs_no_network :: bool
  cs_allow_egress :: bool
  cs_run_on_create :: bool
  cs_path_set :: "string list"
  cs_env :: "(string \<times> string) list"

definition requires_no_network :: "string \<Rightarrow> bool" where
  "requires_no_network net_policy \<longleftrightarrow> net_policy \<in> {''none'', ''isolated'', ''deny-all'', ''''}"

definition tmp_root_char :: "char \<Rightarrow> bool" where
  "tmp_root_char c \<longleftrightarrow> is_ascii_alnum c \<or> c \<in> set ''._/-''"

definition validate_tmp_root :: "string \<Rightarrow> spec_error + unit" where
  "validate_tmp_root tmp_root =
     (if strip_prefix ''/'' tmp_root = None then Inl TmpRootNotAbsolute
      else if length tmp_root < 2 then Inl TmpRootTooShort
      else if \<not> list_all tmp_root_char tmp_root then Inl TmpRootIllegal
      else Inr ())"

text \<open>A character outside the safe set becomes one underscore, whatever its length in UTF-8.\<close>

definition container_name :: "string \<Rightarrow> string" where
  "container_name lease_id =
     ''hugit-job-'' @ concat (map (\<lambda>c. if is_ascii_alnum c \<or> c \<in> set ''_.-'' then [c]
                                        else if utf8_cont c then [] else ''_'') lease_id)"

definition validate_lease_image :: "runner_lease \<Rightarrow> string \<Rightarrow> spec_error + unit" where
  "validate_lease_image lease img =
     (if str_trim (rl_lease_id lease) = [] then Inl EmptyLeaseId
      else if str_trim (rl_tmp_root lease) = [] then Inl EmptyTmpRoot
      else case validate_tmp_root (rl_tmp_root lease) of
             Inl e \<Rightarrow> Inl e
           | Inr u \<Rightarrow> (case require_pinned img of Inl e \<Rightarrow> Inl e | Inr p \<Rightarrow> Inr ()))"

definition from_lease :: "runner_lease \<Rightarrow> string \<Rightarrow> spec_error + container_spec" where
  "from_lease lease img =
     (case validate_lease_image lease img of
        Inl e \<Rightarrow> Inl e
      | Inr u \<Rightarrow>
          if \<not> requires_no_network (rl_net_policy lease) then Inl (WrongNetPolicy (rl_net_policy lease))
          else Inr \<lparr>cs_name = container_name (rl_lease_id lease), cs_image = img,
                    cs_tmp_root = rl_tmp_root lease, cs_no_network = True, cs_allow_egress = False,
                    cs_run_on_create = False, cs_path_set = rl_path_set lease, cs_env = []\<rparr>)"

definition from_runner_lease :: "runner_lease \<Rightarrow> string \<Rightarrow> spec_error + container_spec" where
  "from_runner_lease lease img =
     (case validate_lease_image lease img of
        Inl e \<Rightarrow> Inl e
      | Inr u \<Rightarrow>
          if rl_net_policy lease \<noteq> ''egress-runner'' then Inl (WrongNetPolicy (rl_net_policy lease))
          else Inr \<lparr>cs_name = container_name (rl_lease_id lease), cs_image = img,
                    cs_tmp_root = rl_tmp_root lease, cs_no_network = False, cs_allow_egress = True,
                    cs_run_on_create = True, cs_path_set = rl_path_set lease, cs_env = []\<rparr>)"

definition from_agent_lease :: "runner_lease \<Rightarrow> string \<Rightarrow> spec_error + container_spec" where
  "from_agent_lease lease img =
     (case validate_lease_image lease img of
        Inl e \<Rightarrow> Inl e
      | Inr u \<Rightarrow>
          if rl_net_policy lease \<noteq> ''egress-agent'' then Inl (WrongNetPolicy (rl_net_policy lease))
          else Inr \<lparr>cs_name = container_name (rl_lease_id lease), cs_image = img,
                    cs_tmp_root = rl_tmp_root lease, cs_no_network = False, cs_allow_egress = True,
                    cs_run_on_create = False, cs_path_set = rl_path_set lease, cs_env = []\<rparr>)"


section \<open>Injection\<close>

definition push_env :: "string \<Rightarrow> string \<Rightarrow> container_spec \<Rightarrow> container_spec" where
  "push_env k v spec = spec\<lparr>cs_env := cs_env spec @ [(k, v)]\<rparr>"

definition ENVELOPE_INGEST :: string where
  "ENVELOPE_INGEST = ''/v1/leases/{lease_id}/envelope/ingest''"

definition public_base :: "string option \<Rightarrow> string option" where
  "public_base base = (case base of Some b \<Rightarrow> if str_trim b = [] then None else Some b | None \<Rightarrow> None)"

definition inject_ingest_env_with :: "string option \<Rightarrow> string \<Rightarrow> string \<Rightarrow> container_spec \<Rightarrow> container_spec" where
  "inject_ingest_env_with base lease_id credential spec =
     (let path = str_replace ''{lease_id}'' lease_id ENVELOPE_INGEST;
          spec1 = (case public_base base of
             Some b \<Rightarrow> push_env ''CORELINK_ENVELOPE_INGEST_URL'' (trim_end_char (CHR ''/'') b @ path) spec
           | None \<Rightarrow> push_env ''CORELINK_ENVELOPE_INGEST_BASE_URL'' []
                       (push_env ''CORELINK_ENVELOPE_INGEST_URL'' path spec))
      in push_env ''CORELINK_ENVELOPE_INGEST_CREDENTIAL'' credential spec1)"

definition inject_runner_jitconfig :: "string \<Rightarrow> container_spec \<Rightarrow> container_spec" where
  "inject_runner_jitconfig jitconfig spec = push_env ''CORELINK_RUNNER_JITCONFIG'' jitconfig spec"

record minted_pat =
  mp_token :: string
  mp_pat_id :: string
  mp_expires_ms :: u64

definition inject_clw_env :: "minted_pat \<Rightarrow> string \<Rightarrow> string \<Rightarrow> container_spec \<Rightarrow> container_spec" where
  "inject_clw_env minted endpoint t spec =
     push_env ''CLW_REF_DOMAIN'' ''runner''
       (push_env ''CLW_TOKEN'' (mp_token minted)
         (push_env ''CLW_TENANT'' t (push_env ''CLW_ENDPOINT'' endpoint spec)))"

definition inject_cred_ticket_env_with ::
  "string option \<Rightarrow> string \<Rightarrow> string \<Rightarrow> string \<Rightarrow> string \<Rightarrow> container_spec \<Rightarrow> container_spec" where
  "inject_cred_ticket_env_with base ticket lease_id endpoint t spec =
     (let spec1 = push_env ''CLW_REF_DOMAIN'' ''runner''
            (push_env ''CLW_LEASE_ID'' lease_id
              (push_env ''CLW_CRED_TICKET'' ticket
                (push_env ''CLW_TENANT'' t (push_env ''CLW_ENDPOINT'' endpoint spec))))
      in case public_base base of
           Some b \<Rightarrow> push_env ''CLW_FABRIC_ENDPOINT'' (trim_end_char (CHR ''/'') b) spec1
         | None \<Rightarrow> spec1)"


section \<open>What a specification guarantees\<close>

lemmas spec_defs = from_lease_def from_runner_lease_def from_agent_lease_def

text \<open>The part of a specification that does not depend on the kind of lease.\<close>

definition spec_sound :: "runner_lease \<Rightarrow> string \<Rightarrow> container_spec \<Rightarrow> bool" where
  "spec_sound lease img spec \<longleftrightarrow>
     cs_image spec = img \<and> is_pinned img \<and> cs_name spec = container_name (rl_lease_id lease) \<and>
     cs_tmp_root spec = rl_tmp_root lease \<and> 2 \<le> length (rl_tmp_root lease) \<and> hd (rl_tmp_root lease) = CHR ''/'' \<and>
     list_all tmp_root_char (rl_tmp_root lease) \<and> cs_path_set spec = rl_path_set lease \<and>
     cs_no_network spec = (\<not> cs_allow_egress spec)"

lemma validate_lease_image_ok:
  assumes "validate_lease_image lease img = Inr u"
  shows "is_pinned img \<and> 2 \<le> length (rl_tmp_root lease) \<and> hd (rl_tmp_root lease) = CHR ''/'' \<and>
    list_all tmp_root_char (rl_tmp_root lease)"
  using assms
  by (auto simp: validate_lease_image_def validate_tmp_root_def require_pinned_def is_pinned_def strip_prefix_Some
      Suc_le_eq split: if_splits sum.splits)

lemma from_lease_sound:
  "from_lease lease img = Inr spec \<Longrightarrow> spec_sound lease img spec \<and> \<not> cs_allow_egress spec \<and> \<not> cs_run_on_create spec \<and> cs_env spec = []"
  "from_runner_lease lease img = Inr spec \<Longrightarrow> spec_sound lease img spec \<and> cs_allow_egress spec \<and> cs_run_on_create spec \<and> cs_env spec = []"
  "from_agent_lease lease img = Inr spec \<Longrightarrow> spec_sound lease img spec \<and> cs_allow_egress spec \<and> \<not> cs_run_on_create spec \<and> cs_env spec = []"
  by (auto simp: spec_defs spec_sound_def split: sum.splits if_splits dest: validate_lease_image_ok)

text \<open>Injection only appends to the environment.\<close>

definition env_grows :: "container_spec \<Rightarrow> container_spec \<Rightarrow> bool" where
  "env_grows spec spec' \<longleftrightarrow> (\<exists>kvs. spec' = spec\<lparr>cs_env := cs_env spec @ kvs\<rparr>)"

lemma env_grows_refl [simp]: "env_grows spec spec"
  unfolding env_grows_def by (rule exI [of _ "[]"]) simp

lemma env_grows_push: "env_grows spec spec' \<Longrightarrow> env_grows spec (push_env k v spec')"
  by (auto simp: env_grows_def push_env_def)

lemma env_grows_inject:
  "env_grows spec spec' \<Longrightarrow> env_grows spec (inject_ingest_env_with base lid cred spec')"
  "env_grows spec spec' \<Longrightarrow> env_grows spec (inject_runner_jitconfig jit spec')"
  "env_grows spec spec' \<Longrightarrow> env_grows spec (inject_clw_env minted endpoint t spec')"
  "env_grows spec spec' \<Longrightarrow> env_grows spec (inject_cred_ticket_env_with base ticket lid endpoint t spec')"
  by (auto simp: inject_ingest_env_with_def inject_runner_jitconfig_def inject_clw_env_def
      inject_cred_ticket_env_with_def Let_def intro!: env_grows_push split: option.splits)

lemma spec_sound_grows: "env_grows spec spec' \<Longrightarrow> spec_sound lease img spec' = spec_sound lease img spec"
  by (auto simp: env_grows_def spec_sound_def)

text \<open>C34: only pinned images. A reference is accepted exactly if, up to surrounding white space, it is a
  non-empty repository over the safe characters, \<open>@sha256:\<close>, and sixty-four lower-case hexadecimal digits;
  and the pin that is kept is that trimmed text with that digest.\<close>

theorem pin_grammar:
  "pin_parse reference = Inr p \<longleftrightarrow>
   (\<exists>repository hex. str_trim reference = repository @ ''@sha256:'' @ hex \<and>
      repository \<noteq> [] \<and> (\<forall>c \<in> set repository. is_ascii_alnum c \<or> c \<in> set ''_.-/:'') \<and>
      length hex = 64 \<and> (\<forall>c \<in> set hex. c \<in> set ''0123456789abcdef'') \<and>
      p = \<lparr>pi_reference = str_trim reference, pi_digest_hex = hex\<rparr>)"
proof -
  have hex: "is_lower_hex c \<longleftrightarrow> c \<in> set ''0123456789abcdef''" for c
  proof -
    have "is_lower_hex c \<longleftrightarrow> byte c \<in> {48, 49, 50, 51, 52, 53, 54, 55, 56, 57, 97, 98, 99, 100, 101, 102}"
      unfolding is_lower_hex_def is_digit_def insert_iff empty_iff by presburger
    also have "\<dots> \<longleftrightarrow> byte c \<in> byte ` set ''0123456789abcdef''" by simp
    also have "\<dots> \<longleftrightarrow> c \<in> set ''0123456789abcdef''" by (rule inj_image_mem_iff) (simp add: inj_def)
    finally show ?thesis .
  qed
  show ?thesis
    unfolding pin_parse_Inr pinned_form_def list_all_iff repository_char_def hex
    by (cases p) auto
qed

definition sample_ref :: string where
  "sample_ref = ''a@sha256:'' @ replicate 64 (CHR ''b'')"

definition sample_pin :: pinned_image_ref where
  "sample_pin = \<lparr>pi_reference = sample_ref, pi_digest_hex = replicate 64 (CHR ''b'')\<rparr>"

lemma sample_ref_trim: "str_trim sample_ref = sample_ref"
  by (rule trim_clean) (simp_all add: sample_ref_def is_ascii_ws_def list_all_iff)

theorem pin_grammar_witness: "pin_parse sample_ref = Inr sample_pin \<and> pin_parse ''alpine:3.20'' = Inl NotPinned"
proof -
  have "str_trim ''alpine:3.20'' = ''alpine:3.20''" by (rule trim_clean) (simp_all add: is_ascii_ws_def)
  then have "pin_parse ''alpine:3.20'' = Inl NotPinned" by (simp add: pin_parse_def split_once_def)
  moreover have "pin_parse sample_ref = Inr sample_pin"
    unfolding pin_grammar sample_ref_trim
    by (rule exI [of _ "''a''"], rule exI [of _ "replicate 64 (CHR ''b'')"])
      (simp add: sample_ref_def sample_pin_def is_ascii_alnum_def)
  ultimately show ?thesis by simp
qed

text \<open>The pin is checked on the trimmed text, but a specification keeps the text as it was given: a
  reference that is padded with white space, which is not of the documented form, reaches the engine.\<close>

lemma padded_image_accepted:
  assumes "from_lease lease img = Inr spec" and "str_trim padded = str_trim img"
  shows "from_lease lease padded = Inr (spec\<lparr>cs_image := padded\<rparr>)"
  using assms by (auto simp: from_lease_def validate_lease_image_def require_pinned_def pin_parse_def Let_def
      split: sum.splits if_splits)

end
