(* ===== verification/Box_Engine.thy ===== *)
theory Box_Engine
  imports Box_Spec
begin

text \<open>The container engine of a box (\<open>corelink-runner/src/isolation.rs\<close>): spawning behind the supply-chain gate,
  probing isolation, executing and liveness; the quoting of commands for the remote shell (\<open>shell_join\<close> of
  \<open>corelink-runner/src/lease.rs\<close>); and teardown with its forensic scan (\<open>corelink-runner/src/teardown.rs\<close>).
  The transport to the box is the parameter \<open>box\<close>.\<close>

section \<open>The container engine\<close>

record isolation_probe =
  ip_tmp_is_private :: bool
  ip_net_is_isolated :: bool

definition fully_isolated :: "isolation_probe \<Rightarrow> bool" where
  "fully_isolated p \<longleftrightarrow> ip_tmp_is_private p \<and> ip_net_is_isolated p"

record running_container =
  rc_name :: string

datatype engine_error =
    NetworkAllowed
  | RefusedUnpinned spec_error
  | RefusedUnverified verify_error
  | TransportError string
  | RunFailed string
  | RemoveFailed string

definition docker_run_argv :: "container_spec \<Rightarrow> string list" where
  "docker_run_argv spec =
     [''docker'', ''run'', ''-d'', ''--rm'', ''--name'', cs_name spec, ''--network'', ''none'',
      ''--cap-drop'', ''ALL'', ''--security-opt'', ''no-new-privileges'', ''--pids-limit'', ''4096'',
      ''--memory'', ''12g'', ''--memory-swap'', ''12g'', ''--tmpfs'', cs_tmp_root spec @ '':rw,size=64m'',
      ''--label'', ''hugit.job=1'', cs_image spec, ''sleep'', ''3600'']"

definition docker_spawn ::
  "'w box_exec \<Rightarrow> container_spec \<Rightarrow> 'w \<Rightarrow> (engine_error + running_container) \<times> 'w" where
  "docker_spawn box spec w =
     (if \<not> cs_no_network spec then (Inl NetworkAllowed, w)
      else case pin_parse (cs_image spec) of
        Inl e \<Rightarrow> (Inl (RefusedUnpinned e), w)
      | Inr pinned \<Rightarrow>
          (case verify_on_box box pinned w of
             (Inl e, w') \<Rightarrow> (Inl (RefusedUnverified e), w')
           | (Inr u, w') \<Rightarrow>
               (case box (docker_run_argv spec) w' of
                  (Inl e, w'') \<Rightarrow> (Inl (TransportError e), w'')
                | (Inr out, w'') \<Rightarrow>
                    if \<not> cmd_ok out then (Inl (RunFailed (str_trim (co_stderr out))), w'')
                    else (Inr \<lparr>rc_name = cs_name spec\<rparr>, w''))))"

text \<open>Reading a signed 64-bit number.\<close>

definition parse_i64 :: "string \<Rightarrow> int option" where
  "parse_i64 s =
     (let neg = (s \<noteq> [] \<and> hd s = CHR ''-'');
          ds = (if s \<noteq> [] \<and> (hd s = CHR ''-'' \<or> hd s = CHR ''+'') then tl s else s);
          v = (if neg then - int (read_digits ds) else int (read_digits ds))
      in if ds = [] \<or> \<not> list_all is_digit ds \<or> v < - (2 ^ 63) \<or> 2 ^ 63 \<le> v then None else Some v)"

definition tmp_probe_argv :: "running_container \<Rightarrow> container_spec \<Rightarrow> string \<Rightarrow> string list" where
  "tmp_probe_argv c spec marker =
     [''docker'', ''exec'', rc_name c, ''sh'', ''-c'',
      ''mount | grep -q '' @ [CHR 0x27] @ ''on '' @ cs_tmp_root spec @ '' type tmpfs'' @ [CHR 0x27] @ '' && echo '' @ marker
        @ '' > '' @ cs_tmp_root spec @ ''/'' @ marker @ '' && echo OK'']"

definition link_probe_argv :: "running_container \<Rightarrow> string list" where
  "link_probe_argv c =
     [''docker'', ''exec'', rc_name c, ''sh'', ''-c'',
      ''n=$(ip -o link show 2>/dev/null | grep -vc '' @ [CHR 0x27] @ '' lo:'' @ [CHR 0x27] @ ''); printf '' @ [CHR 0x27]
        @ ''%s'' @ [CHR 0x27] @ '' '' @ [CHR 0x22] @ ''$n'' @ [CHR 0x22]]"

definition connect_probe_argv :: "running_container \<Rightarrow> string list" where
  "connect_probe_argv c =
     [''docker'', ''exec'', rc_name c, ''sh'', ''-c'',
      ''timeout 4 sh -c '' @ [CHR 0x27] @ ''echo > /dev/tcp/1.1.1.1/53 && echo REACHED'' @ [CHR 0x27]
        @ '' 2>/dev/null || echo BLOCKED'']"

definition docker_probe ::
  "'w box_exec \<Rightarrow> running_container \<Rightarrow> container_spec \<Rightarrow> 'w \<Rightarrow> (engine_error + isolation_probe) \<times> 'w" where
  "docker_probe box c spec w =
     (let marker = ''hugit-isolation-'' @ rc_name c in
      case box (tmp_probe_argv c spec marker) w of
        (Inl e, w1) \<Rightarrow> (Inl (TransportError e), w1)
      | (Inr write, w1) \<Rightarrow>
          (case box [''sh'', ''-c'', ''find / -name '' @ marker @ '' 2>/dev/null | head -1''] w1 of
             (Inl e, w2) \<Rightarrow> (Inl (TransportError e), w2)
           | (Inr host_leak, w2) \<Rightarrow>
               (case box (link_probe_argv c) w2 of
                  (Inl e, w3) \<Rightarrow> (Inl (TransportError e), w3)
                | (Inr no_eth, w3) \<Rightarrow>
                    (case box (connect_probe_argv c) w3 of
                       (Inl e, w4) \<Rightarrow> (Inl (TransportError e), w4)
                     | (Inr connect, w4) \<Rightarrow>
                         (Inr \<lparr>ip_tmp_is_private = cmd_ok write \<and> str_contains ''OK'' (co_stdout write) \<and>
                                 str_trim (co_stdout host_leak) = [],
                               ip_net_is_isolated = parse_i64 (str_trim (co_stdout no_eth)) = Some 0 \<and>
                                 str_contains ''BLOCKED'' (co_stdout connect) \<and>
                                 \<not> str_contains ''REACHED'' (co_stdout connect)\<rparr>, w4)))))"

definition docker_exec ::
  "'w box_exec \<Rightarrow> running_container \<Rightarrow> string list \<Rightarrow> 'w \<Rightarrow> (engine_error + int option) \<times> 'w" where
  "docker_exec box c argv w =
     (case box ([''docker'', ''exec'', rc_name c] @ argv) w of
        (Inl e, w') \<Rightarrow> (Inl (TransportError e), w')
      | (Inr out, w') \<Rightarrow> (Inr (co_code out), w'))"

definition docker_exec_captured ::
  "'w box_exec \<Rightarrow> running_container \<Rightarrow> string list \<Rightarrow> 'w \<Rightarrow> (engine_error + cmd_output) \<times> 'w" where
  "docker_exec_captured box c argv w =
     (case box ([''docker'', ''exec'', rc_name c] @ argv) w of
        (Inl e, w') \<Rightarrow> (Inl (TransportError e), w')
      | (Inr out, w') \<Rightarrow> (Inr out, w'))"

definition docker_is_alive ::
  "'w box_exec \<Rightarrow> running_container \<Rightarrow> 'w \<Rightarrow> (engine_error + bool) \<times> 'w" where
  "docker_is_alive box c w =
     (case box [''docker'', ''ps'', ''--filter'', ''name='' @ rc_name c, ''--format'', ''{{.Names}}''] w of
        (Inl e, w') \<Rightarrow> (Inl (TransportError e), w')
      | (Inr out, w') \<Rightarrow> (Inr (list_ex (\<lambda>l. str_trim l = rc_name c) (str_lines (co_stdout out))), w'))"


section \<open>Teardown\<close>

record forensic_report =
  fr_containers :: "string list"
  fr_processes :: "string list"
  fr_mounts :: "string list"
  fr_network :: "string list"
  fr_scan_failures :: "(string \<times> int option \<times> string) list"

definition is_clean :: "forensic_report \<Rightarrow> bool" where
  "is_clean r \<longleftrightarrow> fr_containers r = [] \<and> fr_processes r = [] \<and> fr_mounts r = [] \<and> fr_network r = [] \<and>
     fr_scan_failures r = []"

definition nonempty_lines :: "string \<Rightarrow> string list" where
  "nonempty_lines s = filter (\<lambda>l. l \<noteq> []) (map str_trim (str_lines s))"

text \<open>A failed scan is reported with its surface, its exit code and what it wrote to standard error.\<close>

definition scan_failure :: "string \<Rightarrow> cmd_output \<Rightarrow> (string \<times> int option \<times> string) option" where
  "scan_failure surface out =
     (if \<not> cmd_ok out then Some (surface, co_code out, [])
      else if str_trim (co_stderr out) \<noteq> [] then Some (surface, co_code out, str_trim (co_stderr out))
      else None)"

definition grep_scan_failure :: "string \<Rightarrow> cmd_output \<Rightarrow> (string \<times> int option \<times> string) option" where
  "grep_scan_failure surface out =
     (if co_code out \<noteq> Some 0 \<and> co_code out \<noteq> Some 1 then Some (surface, co_code out, [])
      else if str_trim (co_stderr out) \<noteq> [] then Some (surface, co_code out, str_trim (co_stderr out))
      else None)"

definition containers_scan :: "string \<Rightarrow> string list" where
  "containers_scan name = [''docker'', ''ps'', ''-a'', ''--filter'', ''name='' @ name, ''--format'', ''{{.Names}}'']"

definition processes_scan :: "string \<Rightarrow> string list" where
  "processes_scan name = [''sh'', ''-c'', ''ps -eo args | grep -F '' @ name @ '' | grep -v grep'']"

definition mounts_scan :: "string \<Rightarrow> string list" where
  "mounts_scan name = [''sh'', ''-c'', ''mount | grep -F '' @ name]"

definition network_scan :: "string \<Rightarrow> string list" where
  "network_scan name =
     [''sh'', ''-c'', ''set -o pipefail; { ip -o link show; ip netns list; } | grep -F '' @ name]"

definition report_of :: "cmd_output \<Rightarrow> cmd_output \<Rightarrow> cmd_output \<Rightarrow> cmd_output \<Rightarrow> forensic_report" where
  "report_of containers processes mounts network =
     \<lparr>fr_containers = nonempty_lines (co_stdout containers),
      fr_processes = nonempty_lines (co_stdout processes),
      fr_mounts = nonempty_lines (co_stdout mounts),
      fr_network = nonempty_lines (co_stdout network),
      fr_scan_failures = List.map_filter (\<lambda>x. x)
        [scan_failure ''containers'' containers, grep_scan_failure ''processes'' processes,
         grep_scan_failure ''mounts'' mounts, grep_scan_failure ''network'' network]\<rparr>"

definition teardown ::
  "'w box_exec \<Rightarrow> running_container \<Rightarrow> 'w \<Rightarrow> (engine_error + forensic_report) \<times> 'w" where
  "teardown box c w =
     (let name = rc_name c in
      case box [''docker'', ''rm'', ''-f'', name] w of
        (Inl e, w0) \<Rightarrow> (Inl (TransportError e), w0)
      | (Inr rm, w0) \<Rightarrow>
          if \<not> cmd_ok rm \<and> \<not> str_contains ''No such container'' (co_stderr rm)
          then (Inl (RemoveFailed (str_trim (co_stderr rm))), w0)
          else case box (containers_scan name) w0 of
            (Inl e, w1) \<Rightarrow> (Inl (TransportError e), w1)
          | (Inr containers, w1) \<Rightarrow>
              (case box (processes_scan name) w1 of
                 (Inl e, w2) \<Rightarrow> (Inl (TransportError e), w2)
               | (Inr processes, w2) \<Rightarrow>
                   (case box (mounts_scan name) w2 of
                      (Inl e, w3) \<Rightarrow> (Inl (TransportError e), w3)
                    | (Inr mounts, w3) \<Rightarrow>
                        (case box (network_scan name) w3 of
                           (Inl e, w4) \<Rightarrow> (Inl (TransportError e), w4)
                         | (Inr network, w4) \<Rightarrow>
                             (Inr (report_of containers processes mounts network), w4)))))"


section \<open>Quoting\<close>

definition shell_quote :: "string \<Rightarrow> string" where
  "shell_quote a =
     (if a = [] then [CHR 0x27, CHR 0x27]
      else [CHR 0x27] @ str_replace [CHR 0x27] [CHR 0x27, CHR 0x5C, CHR 0x27, CHR 0x27] a @ [CHR 0x27])"

fun str_join :: "string \<Rightarrow> string list \<Rightarrow> string" where
  "str_join sep [] = []"
| "str_join sep [a] = a"
| "str_join sep (a # b # r) = a @ sep @ str_join sep (b # r)"

definition shell_join :: "string list \<Rightarrow> string" where
  "shell_join argv = str_join '' '' (map shell_quote argv)"

text \<open>What a POSIX shell makes of a command line that uses only single quotes, backslashes and blanks:
  the words it passes on, or \<open>None\<close> for an unterminated quote or any other unquoted character, whose meaning
  is outside this fragment. The second argument is the word being read, if one has begun.\<close>

abbreviation begun :: "string option \<Rightarrow> string" where
  "begun word \<equiv> (case word of None \<Rightarrow> [] | Some x \<Rightarrow> x)"

fun sh_words :: "bool \<Rightarrow> string option \<Rightarrow> string \<Rightarrow> string list option" where
  "sh_words True word [] = None"
| "sh_words True word (c # s) =
     (if c = CHR 0x27 then sh_words False (Some (begun word)) s else sh_words True (Some (begun word @ [c])) s)"
| "sh_words False word [] = Some (case word of None \<Rightarrow> [] | Some x \<Rightarrow> [x])"
| "sh_words False word (c # s) =
     (if c = CHR 0x27 then sh_words True (Some (begun word)) s
      else if c = CHR 0x5C then
        (case s of
           [] \<Rightarrow> None
         | d # r \<Rightarrow> if d = newline then sh_words False word r else sh_words False (Some (begun word @ [d])) r)
      else if c = CHR '' '' then
        (case word of None \<Rightarrow> sh_words False None s | Some x \<Rightarrow> map_option (Cons x) (sh_words False None s))
      else None)"

lemma str_replace_char: "str_replace [q] to a = concat (map (\<lambda>c. if c = q then to else [c]) a)"
proof (induction a)
  case Nil
  then show ?case by (subst str_replace.simps) (simp add: strip_prefix_def)
next
  case (Cons c a)
  then show ?case by (subst str_replace.simps) (auto simp: strip_prefix_def)
qed

lemma sh_words_quoted:
  "sh_words True (Some w) (str_replace [CHR 0x27] [CHR 0x27, CHR 0x5C, CHR 0x27, CHR 0x27] a @ CHR 0x27 # s)
     = sh_words False (Some (w @ a)) s"
  unfolding str_replace_char by (induction a arbitrary: w) auto

lemma sh_words_quote: "sh_words False None (shell_quote a @ s) = sh_words False (Some a) s"
  using sh_words_quoted [of "[]" a s] by (auto simp: shell_quote_def)

text \<open>C35: quoting is injection-free. Whatever bytes the arguments contain, the remote shell reads the
  joined command line as exactly those arguments and nothing else.\<close>

theorem shell_join_roundtrip: "sh_words False None (shell_join argv) = Some argv"
proof (induction argv)
  case (Cons a argv)
  show ?case
  proof (cases argv)
    case Nil
    have "shell_join [a] = shell_quote a @ []" by (simp add: shell_join_def)
    then show ?thesis unfolding Nil by (simp only: sh_words_quote) simp
  next
    case (Cons b r)
    have "shell_join (a # b # r) = shell_quote a @ CHR '' '' # shell_join (b # r)" by (simp add: shell_join_def)
    then show ?thesis using Cons.IH unfolding Cons by (simp only: sh_words_quote) simp
  qed
qed (simp add: shell_join_def)


section \<open>Nothing runs unverified\<close>

text \<open>The transport with a record of the commands it was given and of their results.\<close>

type_synonym box_log = "(string list \<times> (string + cmd_output)) list"

definition logged_box :: "'w box_exec \<Rightarrow> (box_log \<times> 'w) box_exec" where
  "logged_box box argv lw =
     (case box argv (snd lw) of (r, w') \<Rightarrow> (r, fst lw @ [(argv, r)], w'))"

lemma logged_box_run: "box argv w = (q, w1) \<Longrightarrow> logged_box box argv (log, w) = (q, log @ [(argv, q)], w1)"
  by (simp add: logged_box_def)

abbreviation pull_argv :: "string \<Rightarrow> string list" where
  "pull_argv reference \<equiv> [''docker'', ''pull'', reference]"

text \<open>A pull that failed in a way that is worth a retry.\<close>

definition transient_pull :: "string \<Rightarrow> string list \<times> (string + cmd_output) \<Rightarrow> bool" where
  "transient_pull reference e \<longleftrightarrow> fst e = pull_argv reference \<and>
     (case snd e of Inl x \<Rightarrow> False
      | Inr out \<Rightarrow> \<not> cmd_ok out \<and> \<not> is_permanent_pull_failure (str_trim (co_stderr out)))"

lemma pull_attempts_log:
  assumes "pull_attempts (logged_box box) reference n prev (log, w) = (r, log', w')"
  shows "\<exists>ts tail. log' = log @ ts @ tail \<and> list_all (transient_pull reference) ts \<and> length (ts @ tail) \<le> n \<and>
    (if r = Inr () then \<exists>out. cmd_ok out \<and> tail = [(pull_argv reference, Inr out)]
     else tail = [] \<or> (\<exists>q. tail = [(pull_argv reference, q)]))"
  using assms
proof (induction n arbitrary: prev log w)
  case 0
  then show ?case by auto
next
  case (Suc n)
  obtain q w1 where b: "box (pull_argv reference) w = (q, w1)" by (cases "box (pull_argv reference) w")
  let ?e = "(pull_argv reference, q)"
  show ?case
  proof (cases "transient_pull reference ?e")
    case True
    then obtain out where "q = Inr out" "\<not> cmd_ok out" "\<not> is_permanent_pull_failure (str_trim (co_stderr out))"
      by (auto simp: transient_pull_def split: sum.splits)
    with Suc.prems b have "pull_attempts (logged_box box) reference n (co_stderr out) (log @ [?e], w1) = (r, log', w')"
      by (simp add: logged_box_run Let_def)
    from Suc.IH [OF this] obtain ts tail where
      *: "log' = (log @ [?e]) @ ts @ tail" "list_all (transient_pull reference) ts" "length (ts @ tail) \<le> n"
      "if r = Inr () then \<exists>out. cmd_ok out \<and> tail = [(pull_argv reference, Inr out)]
       else tail = [] \<or> (\<exists>q. tail = [(pull_argv reference, q)])"
      by blast
    have "log' = log @ (?e # ts) @ tail" "list_all (transient_pull reference) (?e # ts)" "length ((?e # ts) @ tail) \<le> Suc n"
      using * True by simp_all
    with *(4) show ?thesis by blast
  next
    case False
    then have "log' = log @ [?e] \<and> (r = Inr () \<longrightarrow> (\<exists>out. cmd_ok out \<and> q = Inr out))"
      using Suc.prems b
      by (cases q) (auto simp: logged_box_run transient_pull_def Let_def split: if_splits)
    then show ?thesis by (rule_tac exI [of _ "[]"], rule_tac exI [of _ "[?e]"]) auto
  qed
qed

lemma verify_on_box_log:
  assumes "verify_on_box (logged_box box) p (log, w) = (r, log', w')"
  shows "\<exists>ts tail. log' = log @ ts @ tail \<and> list_all (transient_pull (pi_reference p)) ts \<and>
    fst ` set tail \<subseteq> {pull_argv (pi_reference p), inspect_argv (pi_reference p)} \<and>
    (if r = Inr ()
     then length ts < PULL_MAX_ATTEMPTS \<and>
       (\<exists>out ins. tail = [(pull_argv (pi_reference p), Inr out), (inspect_argv (pi_reference p), Inr ins)] \<and>
          cmd_ok out \<and> cmd_ok ins \<and> str_contains (''sha256:'' @ pi_digest_hex p) (co_stdout ins))
     else length ts \<le> PULL_MAX_ATTEMPTS)"
proof -
  obtain r1 log1 w1 where p: "pull_with_retry (logged_box box) p (log, w) = (r1, log1, w1)"
    by (metis prod_cases3)
  from pull_attempts_log [OF p [unfolded pull_with_retry_def]] obtain ts tail where
    *: "log1 = log @ ts @ tail" "list_all (transient_pull (pi_reference p)) ts" "length (ts @ tail) \<le> PULL_MAX_ATTEMPTS"
    "if r1 = Inr () then \<exists>out. cmd_ok out \<and> tail = [(pull_argv (pi_reference p), Inr out)]
     else tail = [] \<or> (\<exists>q. tail = [(pull_argv (pi_reference p), q)])"
    by blast
  show ?thesis
  proof (cases "r1 = Inr ()")
    case False
    with assms p have "log' = log1 \<and> r \<noteq> Inr ()"
      by (auto simp: verify_on_box_def split: sum.splits)
    with * False show ?thesis by (rule_tac exI [of _ ts], rule_tac exI [of _ tail]) auto
  next
    case True
    with * obtain out where t: "cmd_ok out" "tail = [(pull_argv (pi_reference p), Inr out)]" by auto
    obtain q w2 where b: "box (inspect_argv (pi_reference p)) w1 = (q, w2)"
      by (cases "box (inspect_argv (pi_reference p)) w1")
    from assms p True b have "log' = log1 @ [(inspect_argv (pi_reference p), q)] \<and>
        (r = Inr () \<longrightarrow> (\<exists>ins. q = Inr ins \<and> cmd_ok ins \<and> str_contains (''sha256:'' @ pi_digest_hex p) (co_stdout ins)))"
      by (cases q) (auto simp: verify_on_box_def logged_box_run split: if_splits)
    with * t show ?thesis 
      by (rule_tac exI [of _ ts], rule_tac exI [of _ "tail @ [(inspect_argv (pi_reference p), q)]"]) auto
  qed
qed


definition sample_spec :: container_spec where
  "sample_spec = \<lparr>cs_name = ''hugit-job-l1'', cs_image = sample_ref, cs_tmp_root = ''/tmp'', cs_no_network = True,
     cs_allow_egress = False, cs_run_on_create = False, cs_path_set = [], cs_env = []\<rparr>"

text \<open>A box on which every command succeeds and prints the digest.\<close>

definition good_output :: cmd_output where
  "good_output = \<lparr>co_code = Some 0, co_stdout = ''sha256:'' @ pi_digest_hex sample_pin, co_stderr = []\<rparr>"

definition good_box :: "unit box_exec" where
  "good_box argv w = (Inr good_output, w)"

lemma sample_pin_parse: "pin_parse sample_ref = Inr sample_pin"
proof -
  have "pinned_form sample_ref ''a'' (pi_digest_hex sample_pin)"
    by (simp add: pinned_form_def sample_ref_def sample_pin_def repository_char_def is_lower_hex_def is_ascii_alnum_def
        list_all_iff)
  then show ?thesis by (auto simp: pin_parse_Inr sample_ref_trim) (simp add: sample_pin_def)
qed



section \<open>The forensic verdict\<close>

definition scan_clean :: "int list \<Rightarrow> cmd_output \<Rightarrow> bool" where
  "scan_clean codes out \<longleftrightarrow> (\<exists>c \<in> set codes. co_code out = Some c) \<and> str_trim (co_stderr out) = [] \<and>
     nonempty_lines (co_stdout out) = []"

lemma scan_failure_None:
  "scan_failure surface out = None \<longleftrightarrow> co_code out = Some 0 \<and> str_trim (co_stderr out) = []"
  "grep_scan_failure surface out = None \<longleftrightarrow>
     (co_code out = Some 0 \<or> co_code out = Some 1) \<and> str_trim (co_stderr out) = []"
  by (auto simp: scan_failure_def grep_scan_failure_def cmd_ok_def)

lemma map_filter_Nil: "List.map_filter (\<lambda>x. x) xs = [] \<longleftrightarrow> (\<forall>x \<in> set xs. x = None)"
  by (auto simp: List.map_filter_def filter_empty_conv)

lemma report_of_clean:
  "is_clean (report_of containers processes mounts network) \<longleftrightarrow>
     scan_clean [0] containers \<and> scan_clean [0, 1] processes \<and> scan_clean [0, 1] mounts \<and> scan_clean [0, 1] network"
  unfolding is_clean_def report_of_def forensic_report.simps map_filter_Nil scan_clean_def list.set ball_simps
    bex_simps scan_failure_None by blast

text \<open>C37: a clean verdict rests on scans that ran. A teardown that reports has removed the container (or found
  none) and run the four scans in order; and it reports a clean box exactly if the container scan exited with 0,
  the three searches with 0 or 1, none wrote to standard error, and none printed a line that is not blank.\<close>

theorem clean_verdict_exact:
  assumes "teardown (logged_box box) c ([], w) = (Inr report, log, w')"
  shows "\<exists>rm containers processes mounts network.
    log = [([''docker'', ''rm'', ''-f'', rc_name c], Inr rm), (containers_scan (rc_name c), Inr containers),
           (processes_scan (rc_name c), Inr processes), (mounts_scan (rc_name c), Inr mounts),
           (network_scan (rc_name c), Inr network)] \<and>
    (cmd_ok rm \<or> str_contains ''No such container'' (co_stderr rm)) \<and>
    (is_clean report \<longleftrightarrow> scan_clean [0] containers \<and> scan_clean [0, 1] processes \<and> scan_clean [0, 1] mounts \<and>
       scan_clean [0, 1] network)"
proof -
  let ?n = "rc_name c"
  obtain r0 w0 where b0: "box [''docker'', ''rm'', ''-f'', ?n] w = (r0, w0)" by (cases "box [''docker'', ''rm'', ''-f'', ?n] w")
  obtain r1 w1 where b1: "box (containers_scan ?n) w0 = (r1, w1)" by (cases "box (containers_scan ?n) w0")
  obtain r2 w2 where b2: "box (processes_scan ?n) w1 = (r2, w2)" by (cases "box (processes_scan ?n) w1")
  obtain r3 w3 where b3: "box (mounts_scan ?n) w2 = (r3, w3)" by (cases "box (mounts_scan ?n) w2")
  obtain r4 w4 where b4: "box (network_scan ?n) w3 = (r4, w4)" by (cases "box (network_scan ?n) w3")
  note runs = logged_box_run [of box, OF b0] logged_box_run [of box, OF b1] logged_box_run [of box, OF b2] logged_box_run [of box, OF b3]
    logged_box_run [of box, OF b4]
  note t = assms [unfolded teardown_def Let_def runs]
  obtain rm where r0: "r0 = Inr rm" using t by (cases r0) simp_all
  note t = t [unfolded r0 prod.case sum.case]
  have rm: "cmd_ok rm \<or> str_contains ''No such container'' (co_stderr rm)" using t by (simp split: if_splits)
  then have go: "(\<not> cmd_ok rm \<and> \<not> str_contains ''No such container'' (co_stderr rm)) = False" by simp
  note t = t [unfolded go if_False runs]
  obtain containers where r1: "r1 = Inr containers" using t by (cases r1) simp_all
  note t = t [unfolded r1 prod.case sum.case runs]
  obtain processes where r2: "r2 = Inr processes" using t by (cases r2) simp_all
  note t = t [unfolded r2 prod.case sum.case runs]
  obtain mounts where r3: "r3 = Inr mounts" using t by (cases r3) simp_all
  note t = t [unfolded r3 prod.case sum.case runs]
  obtain network where r4: "r4 = Inr network" using t by (cases r4) simp_all
  note t = t [unfolded r4 prod.case sum.case]
  have report: "report = report_of containers processes mounts network" and
    log: "log = [([''docker'', ''rm'', ''-f'', ?n], Inr rm), (containers_scan ?n, Inr containers),
      (processes_scan ?n, Inr processes), (mounts_scan ?n, Inr mounts), (network_scan ?n, Inr network)]"
    using t by simp_all
  show ?thesis unfolding report report_of_clean by (intro exI conjI) (rule log, rule rm, rule refl)
qed

lemma rm_argv_differs:
  "[''docker'', ''rm'', ''-f'', n] \<noteq> processes_scan n" "[''docker'', ''rm'', ''-f'', n] \<noteq> mounts_scan n"
  "[''docker'', ''rm'', ''-f'', n] \<noteq> network_scan n"
  by (simp_all add: processes_scan_def mounts_scan_def network_scan_def)

lemma scan_argvs_differ:
  "processes_scan n \<noteq> mounts_scan n" "processes_scan n \<noteq> network_scan n" "mounts_scan n \<noteq> network_scan n"
  "containers_scan n \<noteq> processes_scan n" "containers_scan n \<noteq> mounts_scan n" "containers_scan n \<noteq> network_scan n"
  by (simp_all add: processes_scan_def mounts_scan_def network_scan_def containers_scan_def)

theorem clean_verdict_exact_witness:
  "\<exists>report log. teardown (logged_box (\<lambda>argv w. (Inr \<lparr>co_code = None, co_stdout = [], co_stderr = ''No such container''\<rparr>, w)))
     \<lparr>rc_name = ''j''\<rparr> ([], ()) = (Inr report, log, ()) \<and> length log = 5 \<and> \<not> is_clean report"
proof -
  let ?out = "\<lparr>co_code = None, co_stdout = [], co_stderr = ''No such container''\<rparr> :: cmd_output"
  let ?box = "\<lambda>argv (w :: unit). (Inr ?out, w)"
  have run: "logged_box ?box argv (log, ()) = (Inr ?out, log @ [(argv, Inr ?out)], ())" for argv log
    by (simp add: logged_box_def)
  have c: "str_contains ''No such container'' (co_stderr ?out)"
    unfolding str_contains_iff by (rule exI [of _ "[]"], rule exI [of _ "[]"]) simp
  obtain report log where t: "teardown (logged_box ?box) \<lparr>rc_name = ''j''\<rparr> ([], ()) = (Inr report, log, ())"
    using c by (simp add: teardown_def run Let_def)
  from clean_verdict_exact [OF t] obtain rm containers processes mounts network where
    log: "log = [([''docker'', ''rm'', ''-f'', ''j''], Inr rm), (containers_scan ''j'', Inr containers),
      (processes_scan ''j'', Inr processes), (mounts_scan ''j'', Inr mounts), (network_scan ''j'', Inr network)]" and
    verdict: "is_clean report \<longrightarrow> scan_clean [0] containers" by auto
  have "containers = ?out" using t c unfolding log by (auto simp: teardown_def run Let_def)
  with verdict log have "length log = 5 \<and> \<not> is_clean report" by (auto simp: scan_clean_def)
  with t show ?thesis by blast
qed

text \<open>The exit status of a shell pipeline, from those of its commands: that of the last one, or under
  \<open>pipefail\<close> that of the rightmost one that failed.\<close>

definition pipeline_status :: "bool \<Rightarrow> int list \<Rightarrow> int" where
  "pipeline_status pipefail codes =
     (case filter (\<lambda>c. pipefail \<and> c \<noteq> 0) codes of [] \<Rightarrow> last codes | fs \<Rightarrow> last fs)"

definition silent :: "int \<Rightarrow> cmd_output" where
  "silent code = \<lparr>co_code = Some code, co_stdout = [], co_stderr = []\<rparr>"

text \<open>A crashed scan can read as clean. On a box where the container is removed and not listed, and where
  \<open>ps\<close>, \<open>mount\<close> and \<open>ip\<close> all fail with any status and print nothing, so that the searches behind them match
  nothing and exit with 1, every pipeline exits with 1, with or without \<open>pipefail\<close>, and the verdict is a clean box.\<close>

theorem crashed_scans_read_clean:
  assumes "\<And>w. box [''docker'', ''rm'', ''-f'', rc_name c] w = (Inr (silent 0), w)"
    and "\<And>w. box (containers_scan (rc_name c)) w = (Inr (silent 0), w)"
    and "\<And>w. box (processes_scan (rc_name c)) w = (Inr (silent (pipeline_status False [ps, 1, 1])), w)"
    and "\<And>w. box (mounts_scan (rc_name c)) w = (Inr (silent (pipeline_status False [mount, 1])), w)"
    and "\<And>w. box (network_scan (rc_name c)) w = (Inr (silent (pipeline_status True [ip, 1])), w)"
  shows "\<exists>report. teardown box c w = (Inr report, w) \<and> is_clean report"
proof -
  have "pipeline_status True [ip, 1] = 1" by (simp add: pipeline_status_def)
  then show ?thesis
    by (simp add: teardown_def assms report_of_clean scan_clean_def silent_def cmd_ok_def nonempty_lines_def str_lines_def
        pipeline_status_def scan_failure_def grep_scan_failure_def map_filter_simps)
qed

text \<open>A box whose process table cannot be read: \<open>ps\<close> exits with 127 and the searches behind it find nothing.\<close>

definition broken_box :: "unit box_exec" where
  "broken_box argv w =
     (Inr (silent (if argv = processes_scan ''j'' then pipeline_status False [127, 1, 1]
                   else if argv = mounts_scan ''j'' then pipeline_status False [127, 1]
                   else if argv = network_scan ''j'' then pipeline_status True [127, 1] else 0)), w)"

lemmas broken_box_eval = broken_box_def scan_argvs_differ scan_argvs_differ [symmetric] rm_argv_differs

theorem crashed_scans_read_clean_witness:
  "\<exists>report. teardown broken_box \<lparr>rc_name = ''j''\<rparr> () = (Inr report, ()) \<and> is_clean report"
  by (rule crashed_scans_read_clean) (simp_all add: broken_box_eval)

end
