(* ===== verification/Envelope.thy ===== *)
theory Envelope
  imports Rust_Str
begin

text \<open>
  The context envelope of a job, \<open>corelink-runner/src/envelope/\<close>: the metrics collector, the capture
  hook with its two bounded buffers, and the job close with its acknowledgement window. A method that
  waits on the condition variable is split where it gives up the lock, so that a history of steps is an
  interleaving of the writer, the subscribers and the closers. An \<open>Instant\<close> is a number of nanoseconds.
\<close>

section \<open>Events\<close>

record turn_usage =
  tu_input :: u64
  tu_output :: u64
  tu_cache_read :: u64
  tu_cache_write :: u64

datatype transcript_event =
    ModelTurn string "turn_usage option" u64
  | ToolCall string string u64
  | ToolResult string string
  | SystemPrompt string

record price_card =
  input_per_mtok_micros :: u64
  output_per_mtok_micros :: u64
  cache_read_per_mtok_micros :: u64
  cache_write_per_mtok_micros :: u64

record token_counts =
  tc_input :: u64
  tc_output :: u64
  tc_cache_read :: u64
  tc_cache_write :: u64
  tc_total :: u64

record intent_metrics =
  im_tokens :: token_counts
  im_wall_ms :: u64
  im_active_ms :: u64
  im_tool_calls :: u64
  im_tool_breakdown :: "(string \<times> u64) list"
  im_model_turns :: u64
  im_cost_usd_micros :: u64


section \<open>The metrics collector\<close>

definition MAX_DISTINCT_TOOLS :: nat where
  "MAX_DISTINCT_TOOLS = 256"

definition MAX_TOOL_NAME_LEN :: nat where
  "MAX_TOOL_NAME_LEN = 128"

definition TOOL_OVERFLOW_KEY :: string where
  "TOOL_OVERFLOW_KEY = ''<overflow>''"

record metrics_collector =
  mc_born :: nat
  mc_model_turns :: u64
  mc_tool_calls :: u64
  mc_tool_breakdown :: "(string, u64) hmap"
  mc_active_ms :: u64
  mc_input :: u64
  mc_output :: u64
  mc_cache_read :: u64
  mc_cache_write :: u64
  mc_finalized :: bool

definition collector_new :: "nat \<Rightarrow> metrics_collector" where
  "collector_new born = \<lparr>mc_born = born, mc_model_turns = 0, mc_tool_calls = 0, mc_tool_breakdown = [],
     mc_active_ms = 0, mc_input = 0, mc_output = 0, mc_cache_read = 0, mc_cache_write = 0,
     mc_finalized = False\<rparr>"

text \<open>The bucket of a tool call: its own name when that is short and either known or below the cap on
  distinct names, and the overflow bucket otherwise.\<close>

definition tool_key :: "string \<Rightarrow> (string, u64) hmap \<Rightarrow> string" where
  "tool_key tool bd =
     (if length tool \<le> MAX_TOOL_NAME_LEN \<and> (hm_contains tool bd \<or> length bd < MAX_DISTINCT_TOOLS)
      then tool else TOOL_OVERFLOW_KEY)"

definition count_tool :: "string \<Rightarrow> (string, u64) hmap \<Rightarrow> (string, u64) hmap" where
  "count_tool key bd = hm_insert key (case hm_get bd key of None \<Rightarrow> 1 | Some n \<Rightarrow> n + 1) bd"

definition add_usage :: "turn_usage \<Rightarrow> metrics_collector \<Rightarrow> metrics_collector" where
  "add_usage u c = c\<lparr>mc_input := sat_add (mc_input c) (tu_input u),
     mc_output := sat_add (mc_output c) (tu_output u),
     mc_cache_read := sat_add (mc_cache_read c) (tu_cache_read u),
     mc_cache_write := sat_add (mc_cache_write c) (tu_cache_write u)\<rparr>"

fun observe :: "transcript_event \<Rightarrow> metrics_collector \<Rightarrow> metrics_collector" where
  "observe (ModelTurn bytes usage busy) c =
     (let c = c\<lparr>mc_model_turns := mc_model_turns c + 1, mc_active_ms := sat_add (mc_active_ms c) busy\<rparr>
      in case usage of None \<Rightarrow> c | Some u \<Rightarrow> add_usage u c)"
| "observe (ToolCall tool bytes busy) c =
     c\<lparr>mc_tool_calls := mc_tool_calls c + 1,
       mc_tool_breakdown := count_tool (tool_key tool (mc_tool_breakdown c)) (mc_tool_breakdown c),
       mc_active_ms := sat_add (mc_active_ms c) busy\<rparr>"
| "observe (ToolResult tool bytes) c = c"
| "observe (SystemPrompt bytes) c = c"

text \<open>\<open>u64::try_from(d.as_millis()).unwrap_or(u64::MAX)\<close> for the time since an instant, which is zero
  when that instant is in the future.\<close>

definition u64_saturate :: "nat \<Rightarrow> u64" where
  "u64_saturate n = (if n < 2 ^ 64 then of_nat n else - 1)"

definition elapsed_ms :: "nat \<Rightarrow> nat \<Rightarrow> u64" where
  "elapsed_ms now since = u64_saturate ((now - since) div 1000000)"

definition class_cost_micros :: "u64 \<Rightarrow> u64 \<Rightarrow> nat" where
  "class_cost_micros tokens per_mtok_micros = unat tokens * unat per_mtok_micros div 1000000"

definition cost_micros :: "price_card \<Rightarrow> metrics_collector \<Rightarrow> nat" where
  "cost_micros price c =
     class_cost_micros (mc_input c) (input_per_mtok_micros price)
     + class_cost_micros (mc_output c) (output_per_mtok_micros price)
     + class_cost_micros (mc_cache_read c) (cache_read_per_mtok_micros price)
     + class_cost_micros (mc_cache_write c) (cache_write_per_mtok_micros price)"

definition project_metrics :: "nat \<Rightarrow> price_card \<Rightarrow> metrics_collector \<Rightarrow> intent_metrics" where
  "project_metrics at price c =
     (let wall_ms = elapsed_ms at (mc_born c);
          total = sat_add (sat_add (sat_add (mc_input c) (mc_output c)) (mc_cache_read c)) (mc_cache_write c)
      in \<lparr>im_tokens = \<lparr>tc_input = mc_input c, tc_output = mc_output c, tc_cache_read = mc_cache_read c,
             tc_cache_write = mc_cache_write c, tc_total = total\<rparr>,
          im_wall_ms = wall_ms,
          im_active_ms = min (mc_active_ms c) wall_ms,
          im_tool_calls = mc_tool_calls c,
          im_tool_breakdown = sort_key fst (mc_tool_breakdown c),
          im_model_turns = mc_model_turns c,
          im_cost_usd_micros = u64_saturate (cost_micros price c)\<rparr>)"

datatype envelope_error =
    FinalizedTwice
  | WriteNotOpen
  | WriteClosed
  | CredentialMismatch
  | NoCloseSignal
  | AckInert
  | AlreadySignalled

definition finalize :: "nat \<Rightarrow> price_card \<Rightarrow> (envelope_error, intent_metrics, metrics_collector) op" where
  "finalize died price c =
     (if mc_finalized c then (Inl FinalizedTwice, c)
      else let c = c\<lparr>mc_finalized := True\<rparr> in (Inr (project_metrics died price c), c))"

definition collector_snapshot :: "nat \<Rightarrow> price_card \<Rightarrow> metrics_collector \<Rightarrow> intent_metrics" where
  "collector_snapshot now price c = project_metrics now price c"


section \<open>The capture hook\<close>

record turn_meta =
  tm_turn_index :: u64
  tm_timestamp_ms :: u64
  tm_tool :: "string option"
  tm_tokens :: "u64 option"

datatype hook_phase = NotOpen | Open | Closed

datatype job_status = Succeeded | Failed | Killed

record close_signal =
  cs_status :: job_status
  cs_metrics :: intent_metrics

record hook_inner =
  hk_buffer_capacity :: nat
  hk_expected_credential :: string
  hk_opened_at :: nat
  hk_phase :: hook_phase
  hk_raw :: "string list"
  hk_meta :: "turn_meta list"
  hk_raw_overflow :: bool
  hk_meta_overflow :: bool
  hk_next_turn_index :: u64
  hk_collector :: metrics_collector
  hk_close_signal :: "close_signal option"
  hk_ack_window_open :: bool
  hk_acked :: bool
  hk_close_done :: bool
  hk_released :: bool

definition credential_matches :: "string \<Rightarrow> string \<Rightarrow> bool" where
  "credential_matches expected presented \<longleftrightarrow>
     secret_loop expected presented [0..<max (length expected) (length presented)]
       (length expected XOR length presented) = 0"

definition hook_pending :: "nat \<Rightarrow> string \<Rightarrow> metrics_collector \<Rightarrow> nat \<Rightarrow> hook_inner" where
  "hook_pending capacity credential collector now =
     \<lparr>hk_buffer_capacity = capacity, hk_expected_credential = credential, hk_opened_at = now,
      hk_phase = NotOpen, hk_raw = [], hk_meta = [], hk_raw_overflow = False, hk_meta_overflow = False,
      hk_next_turn_index = 0, hk_collector = collector, hk_close_signal = None,
      hk_ack_window_open = False, hk_acked = False, hk_close_done = False, hk_released = False\<rparr>"

definition complete_open :: "nat \<Rightarrow> hook_inner \<Rightarrow> hook_inner" where
  "complete_open now h =
     (if hk_phase h = NotOpen then h\<lparr>hk_phase := Open, hk_opened_at := now\<rparr> else h)"

definition hook_open :: "nat \<Rightarrow> string \<Rightarrow> metrics_collector \<Rightarrow> nat \<Rightarrow> nat \<Rightarrow> hook_inner" where
  "hook_open capacity credential collector now now' =
     complete_open now' (hook_pending capacity credential collector now)"

text \<open>The raw bytes of an event, and its metadata: the tool only for a tool call, tokens only when the
  event carried usage.\<close>

fun event_bytes :: "transcript_event \<Rightarrow> string" where
  "event_bytes (ModelTurn bytes usage busy) = bytes"
| "event_bytes (ToolCall tool bytes busy) = bytes"
| "event_bytes (ToolResult tool bytes) = bytes"
| "event_bytes (SystemPrompt bytes) = bytes"

fun event_tool :: "transcript_event \<Rightarrow> string option" where
  "event_tool (ToolCall tool bytes busy) = Some tool"
| "event_tool ev = None"

fun event_tokens :: "transcript_event \<Rightarrow> u64 option" where
  "event_tokens (ModelTurn bytes usage busy) = map_option (\<lambda>u.
     sat_add (sat_add (sat_add (tu_input u) (tu_output u)) (tu_cache_read u)) (tu_cache_write u)) usage"
| "event_tokens ev = None"

definition turn_meta_of :: "u64 \<Rightarrow> u64 \<Rightarrow> transcript_event \<Rightarrow> turn_meta" where
  "turn_meta_of idx ts ev =
     \<lparr>tm_turn_index = idx, tm_timestamp_ms = ts, tm_tool = event_tool ev, tm_tokens = event_tokens ev\<rparr>"

definition push_raw :: "string \<Rightarrow> hook_inner \<Rightarrow> hook_inner" where
  "push_raw bytes h =
     (if length (hk_raw h) < hk_buffer_capacity h then h\<lparr>hk_raw := hk_raw h @ [bytes]\<rparr>
      else h\<lparr>hk_raw_overflow := True\<rparr>)"

definition push_meta :: "turn_meta \<Rightarrow> hook_inner \<Rightarrow> hook_inner" where
  "push_meta m h =
     (if length (hk_meta h) < hk_buffer_capacity h then h\<lparr>hk_meta := hk_meta h @ [m]\<rparr>
      else h\<lparr>hk_meta_overflow := True\<rparr>)"

definition hook_write :: "nat \<Rightarrow> transcript_event \<Rightarrow> (envelope_error, unit, hook_inner) op" where
  "hook_write now ev h =
     (case hk_phase h of
        NotOpen \<Rightarrow> (Inl WriteNotOpen, h)
      | Closed \<Rightarrow> (Inl WriteClosed, h)
      | Open \<Rightarrow>
          (let h = h\<lparr>hk_collector := observe ev (hk_collector h)\<rparr>;
               timestamp_ms = elapsed_ms now (hk_opened_at h);
               turn_index = hk_next_turn_index h;
               h = h\<lparr>hk_next_turn_index := sat_add (hk_next_turn_index h) 1\<rparr>;
               h = push_raw (event_bytes ev) h;
               h = push_meta (turn_meta_of turn_index timestamp_ms ev) h
           in (Inr (), h)))"

definition hook_subscribe :: "string \<Rightarrow> hook_inner \<Rightarrow> envelope_error + unit" where
  "hook_subscribe credential h =
     (if \<not> credential_matches (hk_expected_credential h) credential then Inl CredentialMismatch else Inr ())"

definition snapshot_metrics :: "nat \<Rightarrow> price_card \<Rightarrow> hook_inner \<Rightarrow> intent_metrics" where
  "snapshot_metrics now price h = collector_snapshot now price (hk_collector h)"

definition next_event :: "hook_inner \<Rightarrow> string option \<times> hook_inner" where
  "next_event h = (case hk_raw h of [] \<Rightarrow> (None, h) | x # xs \<Rightarrow> (Some x, h\<lparr>hk_raw := xs\<rparr>))"

definition next_meta :: "hook_inner \<Rightarrow> turn_meta option \<times> hook_inner" where
  "next_meta h = (case hk_meta h of [] \<Rightarrow> (None, h) | x # xs \<Rightarrow> (Some x, h\<lparr>hk_meta := xs\<rparr>))"


section \<open>Job close\<close>

datatype abnormal_kind = Expiry | Crash

datatype close_reason = ReasonNormal | ReasonExpired | ReasonCrashed

fun reason_of :: "abnormal_kind \<Rightarrow> close_reason" where
  "reason_of Expiry = ReasonExpired"
| "reason_of Crash = ReasonCrashed"

record close_outcome =
  co_status :: job_status
  co_metrics :: intent_metrics
  co_capture_incomplete :: bool
  co_close_reason :: close_reason

text \<open>\<open>JobClose::close\<close> up to the wait: it publishes the signal and opens the window.\<close>

definition close_publish :: "job_status \<Rightarrow> nat \<Rightarrow> price_card \<Rightarrow> (envelope_error, intent_metrics, hook_inner) op" where
  "close_publish status died price h =
     (if hk_close_done h \<or> hk_close_signal h \<noteq> None then (Inl AlreadySignalled, h)
      else let h = h\<lparr>hk_phase := Closed\<rparr> in
        case finalize died price (hk_collector h) of
          (Inl e, c) \<Rightarrow> (Inl e, h\<lparr>hk_collector := c\<rparr>)
        | (Inr metrics, c) \<Rightarrow>
            (Inr metrics, h\<lparr>hk_collector := c,
               hk_close_signal := Some \<lparr>cs_status = status, cs_metrics = metrics\<rparr>,
               hk_ack_window_open := True\<rparr>))"

text \<open>What it does when it has the lock again, because of an acknowledgement or because the window ran
  out.\<close>

definition close_settle :: "job_status \<Rightarrow> intent_metrics \<Rightarrow> hook_inner \<Rightarrow> close_outcome \<times> hook_inner" where
  "close_settle status metrics h =
     (let acked = hk_acked h;
          residue = (hk_raw h \<noteq> [] \<or> hk_meta h \<noteq> []);
          lossy = (residue \<or> hk_raw_overflow h \<or> hk_meta_overflow h)
      in (\<lparr>co_status = status, co_metrics = metrics, co_capture_incomplete = (lossy \<or> \<not> acked),
           co_close_reason = ReasonNormal\<rparr>,
          h\<lparr>hk_ack_window_open := False, hk_close_done := True, hk_released := True\<rparr>))"

fun abnormal_status :: "abnormal_kind \<Rightarrow> job_status" where
  "abnormal_status Expiry = Killed"
| "abnormal_status Crash = Failed"

definition close_abnormal :: "abnormal_kind \<Rightarrow> nat \<Rightarrow> price_card \<Rightarrow> (envelope_error, close_outcome, hook_inner) op" where
  "close_abnormal kind died price h =
     (if hk_close_done h \<or> hk_close_signal h \<noteq> None then (Inl AlreadySignalled, h)
      else let h = h\<lparr>hk_phase := Closed\<rparr> in
        case finalize died price (hk_collector h) of
          (Inl e, c) \<Rightarrow> (Inl e, h\<lparr>hk_collector := c\<rparr>)
        | (Inr metrics, c) \<Rightarrow>
            (Inr \<lparr>co_status = abnormal_status kind, co_metrics = metrics, co_capture_incomplete = True,
                  co_close_reason = reason_of kind\<rparr>,
             h\<lparr>hk_collector := c,
               hk_close_signal := Some \<lparr>cs_status = abnormal_status kind, cs_metrics = metrics\<rparr>,
               hk_close_done := True, hk_released := True\<rparr>))"

text \<open>What \<open>wait_close_signal\<close> returns at the end of its wait, and the acknowledgement.\<close>

definition poll_close_signal :: "hook_inner \<Rightarrow> close_signal option" where
  "poll_close_signal h = hk_close_signal h"

definition hook_ack :: "string \<Rightarrow> (envelope_error, unit, hook_inner) op" where
  "hook_ack credential h =
     (if \<not> credential_matches (hk_expected_credential h) credential then (Inl CredentialMismatch, h)
      else if hk_close_signal h = None then (Inl NoCloseSignal, h)
      else if \<not> hk_ack_window_open h then (Inl AckInert, h)
      else (Inr (), h\<lparr>hk_acked := True\<rparr>))"


section \<open>Interleavings\<close>

text \<open>The steps of the threads that share one hook. \<open>Settle\<close> is a waiting closer that gets the lock
  back; it may come at any moment, since a timeout is possible at any moment. The log records, beside the
  hook, the closer that waits, the events the writer had accepted with their timestamps, what was handed to
  subscribers, the acknowledgements taken, and the outcomes produced.\<close>

datatype hook_event =
    OpenStep nat
  | Write nat transcript_event
  | NextEvent
  | NextMeta
  | Ack string
  | Publish job_status nat price_card
  | Settle
  | Abnormal abnormal_kind nat price_card

record hook_log =
  hl_hook :: hook_inner
  hl_waiting :: "(job_status \<times> intent_metrics) option"
  hl_accepted :: "(u64 \<times> transcript_event) list"
  hl_raw_out :: "string list"
  hl_meta_out :: "turn_meta list"
  hl_acks :: "string list"
  hl_outcomes :: "close_outcome list"

definition log_start :: "hook_inner \<Rightarrow> hook_log" where
  "log_start h = \<lparr>hl_hook = h, hl_waiting = None, hl_accepted = [], hl_raw_out = [], hl_meta_out = [],
     hl_acks = [], hl_outcomes = []\<rparr>"

fun hook_step :: "hook_log \<Rightarrow> hook_event \<Rightarrow> hook_log" where
  "hook_step l (OpenStep now) = l\<lparr>hl_hook := complete_open now (hl_hook l)\<rparr>"
| "hook_step l (Write now ev) =
     (case hook_write now ev (hl_hook l) of
        (Inl e, h) \<Rightarrow> l\<lparr>hl_hook := h\<rparr>
      | (Inr u, h) \<Rightarrow> l\<lparr>hl_hook := h,
           hl_accepted := hl_accepted l @ [(elapsed_ms now (hk_opened_at (hl_hook l)), ev)]\<rparr>)"
| "hook_step l NextEvent =
     (case next_event (hl_hook l) of
        (r, h) \<Rightarrow> l\<lparr>hl_hook := h, hl_raw_out := hl_raw_out l @ (case r of None \<Rightarrow> [] | Some x \<Rightarrow> [x])\<rparr>)"
| "hook_step l NextMeta =
     (case next_meta (hl_hook l) of
        (r, h) \<Rightarrow> l\<lparr>hl_hook := h, hl_meta_out := hl_meta_out l @ (case r of None \<Rightarrow> [] | Some x \<Rightarrow> [x])\<rparr>)"
| "hook_step l (Ack cred) =
     (case hook_ack cred (hl_hook l) of
        (Inl e, h) \<Rightarrow> l\<lparr>hl_hook := h\<rparr>
      | (Inr u, h) \<Rightarrow> l\<lparr>hl_hook := h, hl_acks := hl_acks l @ [cred]\<rparr>)"
| "hook_step l (Publish status died price) =
     (case close_publish status died price (hl_hook l) of
        (Inl e, h) \<Rightarrow> l\<lparr>hl_hook := h\<rparr>
      | (Inr m, h) \<Rightarrow> l\<lparr>hl_hook := h, hl_waiting := Some (status, m)\<rparr>)"
| "hook_step l Settle =
     (case hl_waiting l of
        None \<Rightarrow> l
      | Some (status, m) \<Rightarrow>
          (case close_settle status m (hl_hook l) of
             (o', h) \<Rightarrow> l\<lparr>hl_hook := h, hl_waiting := None, hl_outcomes := hl_outcomes l @ [o']\<rparr>))"
| "hook_step l (Abnormal kind died price) =
     (case close_abnormal kind died price (hl_hook l) of
        (Inl e, h) \<Rightarrow> l\<lparr>hl_hook := h\<rparr>
      | (Inr o', h) \<Rightarrow> l\<lparr>hl_hook := h, hl_outcomes := hl_outcomes l @ [o']\<rparr>)"

definition run_hook :: "hook_inner \<Rightarrow> hook_event list \<Rightarrow> hook_log" where
  "run_hook h steps = foldl hook_step (log_start h) steps"

text \<open>The metadata that a sequence of accepted events should produce.\<close>

fun metas_of :: "u64 \<Rightarrow> (u64 \<times> transcript_event) list \<Rightarrow> turn_meta list" where
  "metas_of i [] = []"
| "metas_of i ((ts, ev) # evs) = turn_meta_of i ts ev # metas_of (sat_add i 1) evs"

definition raws_of :: "(u64 \<times> transcript_event) list \<Rightarrow> string list" where
  "raws_of evs = map (\<lambda>(ts, ev). event_bytes ev) evs"

definition observed :: "metrics_collector \<Rightarrow> (u64 \<times> transcript_event) list \<Rightarrow> metrics_collector" where
  "observed c evs = foldl (\<lambda>c (ts, ev). observe ev c) c evs"

lemma credential_matches_iff: "credential_matches expected presented \<longleftrightarrow> expected = presented"
  using secret_matches_iff by (simp add: credential_matches_def secret_matches_def)

lemma observe_finalized:
  "mc_finalized (observe ev c) = mc_finalized c" "mc_born (observe ev c) = mc_born c"
  "observe ev (c\<lparr>mc_finalized := b\<rparr>) = (observe ev c)\<lparr>mc_finalized := b\<rparr>"
  by (cases ev; auto simp: Let_def add_usage_def split: option.splits)+

lemma observed_finalized: "mc_finalized (observed c evs) = mc_finalized c" "mc_born (observed c evs) = mc_born c"
  unfolding observed_def by (induction evs arbitrary: c) (auto simp: observe_finalized)

lemma observed_snoc: "observed c (evs @ [(ts, ev)]) = observe ev (observed c evs)"
  by (simp add: observed_def)

lemma project_finalized [simp]: "project_metrics d p (c\<lparr>mc_finalized := b\<rparr>) = project_metrics d p c"
  by (simp add: project_metrics_def cost_micros_def)

lemma length_metas_of [simp]: "length (metas_of i evs) = length evs"
  by (induction i evs rule: metas_of.induct) simp_all

definition nth_index :: "u64 \<Rightarrow> nat \<Rightarrow> u64" where
  "nth_index i n = ((\<lambda>x. sat_add x 1) ^^ n) i"

lemma nth_index_simps [simp]: "nth_index i 0 = i" "nth_index i (Suc n) = sat_add (nth_index i n) 1"
  by (simp_all add: nth_index_def)

lemma nth_index_shift: "nth_index (sat_add i 1) n = sat_add (nth_index i n) 1"
  by (induction n) simp_all

lemma unat_nth_index: "unat (nth_index i n) = min (unat i + n) (2 ^ 64 - 1)"
proof (induction n)
  case 0
  have "unat i < 2 ^ 64" using unsigned_less [of i, where ?'a = nat] by simp
  then show ?case by simp
next
  case (Suc n)
  then show ?case by (simp add: unat_sat_add)
qed

lemma metas_of_snoc:
  "metas_of i (evs @ [(ts, ev)]) = metas_of i evs @ [turn_meta_of (nth_index i (length evs)) ts ev]"
  by (induction i evs rule: metas_of.induct) (simp_all add: nth_index_shift)

lemma raws_of_snoc: "raws_of (evs @ [(ts, ev)]) = raws_of evs @ [event_bytes ev]"
  by (simp add: raws_of_def)

lemma length_raws_of [simp]: "length (raws_of evs) = length evs"
  by (simp add: raws_of_def)

lemma metas_of_nth: "n < length evs \<Longrightarrow>
  metas_of i evs ! n = turn_meta_of (nth_index i n) (fst (evs ! n)) (snd (evs ! n))"
proof (induction i evs arbitrary: n rule: metas_of.induct)
  case (2 i ts ev evs)
  then show ?case by (cases n) (simp_all add: nth_index_shift)
qed simp

section \<open>The invariant of a hook\<close>

text \<open>A buffer accounts for the accepted events: while it has not overflowed, what was handed out followed
  by what it holds is everything accepted, in order; afterwards something is missing.\<close>

definition buffer_accounts :: "bool \<Rightarrow> 'a list \<Rightarrow> 'a list \<Rightarrow> 'a list \<Rightarrow> bool" where
  "buffer_accounts overflow out buf full \<longleftrightarrow>
     (if overflow then length (out @ buf) < length full else out @ buf = full)"

definition capture_inv :: "metrics_collector \<Rightarrow> hook_log \<Rightarrow> bool" where
  "capture_inv c0 l \<longleftrightarrow>
     (let h = hl_hook l; acc = hl_accepted l in
        buffer_accounts (hk_raw_overflow h) (hl_raw_out l) (hk_raw h) (raws_of acc)
        \<and> buffer_accounts (hk_meta_overflow h) (hl_meta_out l) (hk_meta h) (metas_of 0 acc)
        \<and> hk_next_turn_index h = nth_index 0 (length acc)
        \<and> hk_collector h = (observed c0 acc)\<lparr>mc_finalized := hk_close_signal h \<noteq> None\<rparr>)"

definition close_inv :: "string \<Rightarrow> hook_log \<Rightarrow> bool" where
  "close_inv cred l \<longleftrightarrow>
     (let h = hl_hook l in
        hk_expected_credential h = cred
        \<and> (hk_phase h = Closed \<longleftrightarrow> hk_close_signal h \<noteq> None)
        \<and> (hk_ack_window_open h \<longleftrightarrow> hl_waiting l \<noteq> None)
        \<and> (\<forall>s m. hl_waiting l = Some (s, m) \<longrightarrow> hk_close_signal h = Some \<lparr>cs_status = s, cs_metrics = m\<rparr>)
        \<and> (hk_close_done h \<longleftrightarrow> hk_close_signal h \<noteq> None \<and> hl_waiting l = None)
        \<and> hk_released h = hk_close_done h
        \<and> (hk_acked h \<longleftrightarrow> hl_acks l \<noteq> []) \<and> set (hl_acks l) \<subseteq> {cred}
        \<and> (hk_close_signal h = None \<longrightarrow> hl_acks l = []))"

definition outcome_inv :: "hook_log \<Rightarrow> bool" where
  "outcome_inv l \<longleftrightarrow>
     (if hk_close_done (hl_hook l)
      then (\<exists>out. hl_outcomes l = [out]
              \<and> hk_close_signal (hl_hook l) = Some \<lparr>cs_status = co_status out, cs_metrics = co_metrics out\<rparr>
              \<and> (co_close_reason out \<noteq> ReasonNormal \<longrightarrow> co_capture_incomplete out))
      else hl_outcomes l = [])"

lemma buffer_accounts_push:
  "buffer_accounts ov out buf full \<Longrightarrow> buffer_accounts ov out (buf @ [x]) (full @ [x])"
  "buffer_accounts ov out buf full \<Longrightarrow> buffer_accounts True out buf (full @ [x])"
  by (auto simp: buffer_accounts_def split: if_splits)

lemma buffer_accounts_pop:
  "buffer_accounts ov out (x # buf) full \<Longrightarrow> buffer_accounts ov (out @ [x]) buf full"
  by (auto simp: buffer_accounts_def split: if_splits)

lemma capture_inv_step:
  assumes inv: "capture_inv c0 l" and c0: "\<not> mc_finalized c0" and ci: "close_inv cred l"
  shows "capture_inv c0 (hook_step l st)"
proof (cases st)
  case (OpenStep now)
  with inv show ?thesis by (simp add: capture_inv_def complete_open_def Let_def)
next
  case (Write now ev)
  show ?thesis
  proof (cases "hk_phase (hl_hook l) = Open")
    case True
    then have "hk_close_signal (hl_hook l) = None" using ci by (auto simp: close_inv_def Let_def)
    with True Write inv show ?thesis
      by (auto simp: capture_inv_def hook_write_def Let_def push_raw_def push_meta_def observed_snoc observe_finalized
          raws_of_snoc metas_of_snoc buffer_accounts_push)
  next
    case False
    with Write inv show ?thesis by (cases "hk_phase (hl_hook l)") (simp_all add: hook_write_def)
  qed
next
  case NextEvent
  with inv show ?thesis
    by (auto simp: capture_inv_def next_event_def Let_def buffer_accounts_pop split: list.splits)
next
  case NextMeta
  with inv show ?thesis
    by (auto simp: capture_inv_def next_meta_def Let_def buffer_accounts_pop split: list.splits)
next
  case (Ack cr)
  with inv show ?thesis by (auto simp: capture_inv_def hook_ack_def Let_def)
next
  case (Publish s d p)
  with inv c0 show ?thesis
    by (auto simp: capture_inv_def close_publish_def finalize_def Let_def observed_finalized)
next
  case Settle
  with inv show ?thesis by (auto simp: capture_inv_def close_settle_def Let_def split: option.splits)
next
  case (Abnormal k d p)
  with inv c0 show ?thesis
    by (auto simp: capture_inv_def close_abnormal_def finalize_def Let_def observed_finalized)
qed

lemma close_inv_step:
  assumes inv: "close_inv cred l" and cap: "capture_inv c0 l" and c0: "\<not> mc_finalized c0"
  shows "close_inv cred (hook_step l st)"
proof (cases st)
  case (OpenStep now)
  with inv show ?thesis by (auto simp: close_inv_def complete_open_def Let_def)
next
  case (Write now ev)
  with inv show ?thesis
    by (cases "hk_phase (hl_hook l)") (auto simp: close_inv_def hook_write_def Let_def push_raw_def push_meta_def)
next
  case NextEvent
  with inv show ?thesis by (auto simp: close_inv_def next_event_def Let_def split: list.splits)
next
  case NextMeta
  with inv show ?thesis by (auto simp: close_inv_def next_meta_def Let_def split: list.splits)
next
  case (Ack cr)
  with inv show ?thesis by (auto simp: close_inv_def hook_ack_def Let_def credential_matches_iff)
next
  case (Publish s d p)
  with inv cap c0 show ?thesis
    by (auto simp: close_inv_def capture_inv_def close_publish_def finalize_def Let_def observed_finalized)
next
  case Settle
  with inv show ?thesis by (auto simp: close_inv_def close_settle_def Let_def split: option.splits)
next
  case (Abnormal k d p)
  with inv cap c0 show ?thesis
    by (auto simp: close_inv_def capture_inv_def close_abnormal_def finalize_def Let_def observed_finalized)
qed

lemma outcome_inv_step:
  assumes inv: "outcome_inv l" and cap: "capture_inv c0 l" and c0: "\<not> mc_finalized c0" and ci: "close_inv cred l"
  shows "outcome_inv (hook_step l st)"
proof (cases st)
  case (OpenStep now)
  with inv show ?thesis by (auto simp: outcome_inv_def complete_open_def)
next
  case (Write now ev)
  with inv show ?thesis
    by (cases "hk_phase (hl_hook l)") (auto simp: outcome_inv_def hook_write_def Let_def push_raw_def push_meta_def)
next
  case NextEvent
  with inv show ?thesis by (auto simp: outcome_inv_def next_event_def split: list.splits)
next
  case NextMeta
  with inv show ?thesis by (auto simp: outcome_inv_def next_meta_def split: list.splits)
next
  case (Ack cr)
  with inv show ?thesis by (auto simp: outcome_inv_def hook_ack_def)
next
  case (Publish s d p)
  with inv cap c0 show ?thesis
    by (auto simp: outcome_inv_def capture_inv_def close_publish_def finalize_def Let_def observed_finalized)
next
  case Settle
  with inv ci show ?thesis
    by (auto simp: outcome_inv_def close_inv_def close_settle_def Let_def split: option.splits if_splits)
next
  case (Abnormal k d p)
  have "reason_of k \<noteq> ReasonNormal" by (cases k) simp_all
  with Abnormal inv cap c0 show ?thesis
    by (auto simp: outcome_inv_def capture_inv_def close_abnormal_def finalize_def Let_def observed_finalized)
qed

definition fresh_hook :: "nat \<Rightarrow> string \<Rightarrow> nat \<Rightarrow> nat \<Rightarrow> hook_inner" where
  "fresh_hook capacity cred born now = hook_pending capacity cred (collector_new born) now"

lemma run_hook_snoc: "run_hook h (steps @ [st]) = hook_step (run_hook h steps) st"
  by (simp add: run_hook_def)

lemma run_hook_inv:
  "capture_inv (collector_new born) (run_hook (fresh_hook capacity cred born now) steps)
   \<and> close_inv cred (run_hook (fresh_hook capacity cred born now) steps)
   \<and> outcome_inv (run_hook (fresh_hook capacity cred born now) steps)"
proof (induction steps rule: rev_induct)
  case Nil
  show ?case
    by (simp add: run_hook_def log_start_def fresh_hook_def hook_pending_def capture_inv_def close_inv_def outcome_inv_def
        buffer_accounts_def raws_of_def observed_def collector_new_def)
next
  case (snoc st steps)
  have "\<not> mc_finalized (collector_new born)" by (simp add: collector_new_def)
  with snoc show ?case unfolding run_hook_snoc by (blast intro: capture_inv_step close_inv_step outcome_inv_step)
qed

text \<open>After the signal no event is accepted and the signal stays.\<close>

lemma closed_is_final:
  assumes "close_inv cred l" and "hk_close_signal (hl_hook l) = Some sig"
  shows "hl_accepted (hook_step l st) = hl_accepted l \<and> hk_close_signal (hl_hook (hook_step l st)) = Some sig
    \<and> (hl_waiting l = None \<longrightarrow> hl_waiting (hook_step l st) = None)"
  using assms
  by (cases st) (auto simp: close_inv_def Let_def complete_open_def hook_write_def next_event_def next_meta_def
      hook_ack_def close_publish_def close_settle_def close_abnormal_def split: option.splits list.splits)

text \<open>The published metrics are those of the events accepted, at the instant and price of some closer.\<close>

definition signal_from :: "metrics_collector \<Rightarrow> hook_event list \<Rightarrow> hook_log \<Rightarrow> bool" where
  "signal_from c0 steps l \<longleftrightarrow>
     (\<forall>sig. hk_close_signal (hl_hook l) = Some sig \<longrightarrow>
        (\<exists>d p. cs_metrics sig = project_metrics d p (observed c0 (hl_accepted l))
           \<and> (Publish (cs_status sig) d p \<in> set steps
              \<or> hl_waiting l = None \<and> (\<exists>k. cs_status sig = abnormal_status k \<and> Abnormal k d p \<in> set steps))))"

lemma signal_from_step:
  assumes sf: "signal_from c0 steps l" and ci: "close_inv cred l" and cap: "capture_inv c0 l" and c0: "\<not> mc_finalized c0"
  shows "signal_from c0 (steps @ [st]) (hook_step l st)"
proof (cases "hk_close_signal (hl_hook l)")
  case (Some sig)
  from sf Some obtain d p where "cs_metrics sig = project_metrics d p (observed c0 (hl_accepted l))"
      and "Publish (cs_status sig) d p \<in> set steps
         \<or> hl_waiting l = None \<and> (\<exists>k. cs_status sig = abnormal_status k \<and> Abnormal k d p \<in> set steps)"
    by (auto simp: signal_from_def)
  with closed_is_final [OF ci Some, of st] show ?thesis by (auto simp: signal_from_def)
next
  case None
  then have f: "hk_collector (hl_hook l) = observed c0 (hl_accepted l)"
    using cap c0 observed_finalized(1) [of c0 "hl_accepted l"] by (simp add: capture_inv_def Let_def)
  have d: "\<not> hk_close_done (hl_hook l)" "hl_waiting l = None" using None ci by (auto simp: close_inv_def Let_def)
  show ?thesis
  proof (cases st)
    case (Publish s d p)
    with None d f c0 show ?thesis
      by (auto simp: signal_from_def close_publish_def finalize_def Let_def observed_finalized)
  next
    case (Abnormal k d p)
    with None d f c0 show ?thesis
      by (auto simp: signal_from_def close_abnormal_def finalize_def Let_def observed_finalized)
  next
    case (Write now ev)
    with None show ?thesis
      by (cases "hk_phase (hl_hook l)") (auto simp: signal_from_def hook_write_def Let_def push_raw_def push_meta_def)
  qed (use None d in \<open>auto simp: signal_from_def complete_open_def next_event_def next_meta_def hook_ack_def
      split: list.splits\<close>)
qed

lemma run_hook_signal:
  "signal_from (collector_new born) steps (run_hook (fresh_hook capacity cred born now) steps)"
proof (induction steps rule: rev_induct)
  case Nil
  show ?case by (simp add: run_hook_def log_start_def fresh_hook_def hook_pending_def signal_from_def)
next
  case (snoc st steps)
  have "\<not> mc_finalized (collector_new born)" by (simp add: collector_new_def)
  with snoc run_hook_inv show ?case unfolding run_hook_snoc by (blast intro: signal_from_step)
qed

lemma buffer_accounts_complete:
  "buffer_accounts ov out buf full \<Longrightarrow> buf = [] \<and> \<not> ov \<longleftrightarrow> out = full"
  by (auto simp: buffer_accounts_def split: if_splits)


definition sample_price :: price_card where
  "sample_price = \<lparr>input_per_mtok_micros = 3, output_per_mtok_micros = 15,
     cache_read_per_mtok_micros = 1, cache_write_per_mtok_micros = 4\<rparr>"

definition sample_steps :: "hook_event list" where
  "sample_steps = [OpenStep 0, Write 0 (ToolCall ''Bash'' ''ls'' 2), Publish Succeeded 0 sample_price,
     NextEvent, Ack ''tok'', NextMeta]"

lemma sample_waiting:
  "hl_waiting (run_hook (fresh_hook 1 ''tok'' 0 0) sample_steps)
     = Some (Succeeded, project_metrics 0 sample_price (observe (ToolCall ''Bash'' ''ls'' 2) (collector_new 0)))"
  by (simp add: sample_steps_def run_hook_def log_start_def fresh_hook_def hook_pending_def complete_open_def
      hook_write_def Let_def push_raw_def push_meta_def close_publish_def finalize_def next_event_def next_meta_def
      hook_ack_def credential_matches_iff collector_new_def project_metrics_def cost_micros_def)


text \<open>C39: Job close is exactly once. Whatever the interleaving of writers, subscribers and closers, a hook
  produces at most one outcome; it is released exactly when it has produced it, with the status and metrics
  that were signalled; an abnormal outcome is never reported complete; and it can always be brought to its
  outcome, by an abnormal close or by the end of the window that is already running.\<close>

theorem job_close_exactly_once:
  "(let l = run_hook (fresh_hook capacity cred born now) steps in
      (if hk_released (hl_hook l)
       then \<exists>out. hl_outcomes l = [out]
              \<and> hk_close_signal (hl_hook l) = Some \<lparr>cs_status = co_status out, cs_metrics = co_metrics out\<rparr>
              \<and> (co_close_reason out = ReasonNormal \<or> co_capture_incomplete out)
       else hl_outcomes l = []))
   \<and> (\<exists>out. hl_outcomes (run_hook (fresh_hook capacity cred born now) (steps @ [Abnormal k d p, Settle])) = [out])"
proof (intro conjI)
  let ?l = "run_hook (fresh_hook capacity cred born now)"
  show "let l = ?l steps in
      (if hk_released (hl_hook l)
       then \<exists>out. hl_outcomes l = [out]
              \<and> hk_close_signal (hl_hook l) = Some \<lparr>cs_status = co_status out, cs_metrics = co_metrics out\<rparr>
              \<and> (co_close_reason out = ReasonNormal \<or> co_capture_incomplete out)
       else hl_outcomes l = [])"
    using run_hook_inv [of born capacity cred now steps]
    by (auto simp: outcome_inv_def close_inv_def Let_def split: if_splits)
  have "hk_close_signal (hl_hook (hook_step l (Abnormal k d p))) \<noteq> None"
    if "capture_inv (collector_new born) l" "close_inv cred l" for l
    using that by (cases "hk_close_signal (hl_hook l)")
      (auto simp: capture_inv_def close_inv_def Let_def close_abnormal_def finalize_def)
  then have sig: "hk_close_signal (hl_hook (?l (steps @ [Abnormal k d p]))) \<noteq> None"
    using run_hook_inv [of born capacity cred now steps] by (simp add: run_hook_snoc)
  have "hk_close_done (hl_hook (hook_step l Settle))"
    if "close_inv cred l" "hk_close_signal (hl_hook l) \<noteq> None" for l
    using that by (auto simp: close_inv_def Let_def close_settle_def split: option.splits)
  then have "hk_close_done (hl_hook (?l (steps @ [Abnormal k d p, Settle])))"
    using run_hook_inv [of born capacity cred now "steps @ [Abnormal k d p]"] sig
    by (metis append.assoc append_Cons append_Nil run_hook_snoc)
  then show "\<exists>out. hl_outcomes (?l (steps @ [Abnormal k d p, Settle])) = [out]"
    using run_hook_inv [of born capacity cred now "steps @ [Abnormal k d p, Settle]"]
    by (auto simp: outcome_inv_def)
qed


section \<open>The metrics\<close>

fun is_call_of :: "string \<Rightarrow> u64 \<times> transcript_event \<Rightarrow> bool" where
  "is_call_of k (ts, ToolCall tool bytes busy) \<longleftrightarrow> tool = k"
| "is_call_of k (ts, ev) \<longleftrightarrow> False"

definition calls_of :: "string \<Rightarrow> (u64 \<times> transcript_event) list \<Rightarrow> nat" where
  "calls_of k evs = length (filter (is_call_of k) evs)"

text \<open>The breakdown is a map of bounded size and bounded keys that sums to the call counter; every named
  bucket is exact, and a name without a bucket was never called or was over a bound when it was.\<close>

definition bucket_ok :: "(string, u64) hmap \<Rightarrow> string \<Rightarrow> nat \<Rightarrow> bool" where
  "bucket_ok bd k calls \<longleftrightarrow>
     (case hm_get bd k of
        Some n \<Rightarrow> n = of_nat calls
      | None \<Rightarrow> calls = 0 \<or> MAX_TOOL_NAME_LEN < length k \<or> MAX_DISTINCT_TOOLS \<le> length bd)"

definition breakdown_inv :: "(u64 \<times> transcript_event) list \<Rightarrow> metrics_collector \<Rightarrow> bool" where
  "breakdown_inv evs c \<longleftrightarrow>
     (let bd = mc_tool_breakdown c in
        hm_wf bd
        \<and> sum_list (map snd bd) = mc_tool_calls c
        \<and> length (filter (\<lambda>kv. fst kv \<noteq> TOOL_OVERFLOW_KEY) bd) \<le> MAX_DISTINCT_TOOLS
        \<and> (\<forall>k \<in> hm_keys bd. length k \<le> MAX_TOOL_NAME_LEN)
        \<and> (\<forall>k. k \<noteq> TOOL_OVERFLOW_KEY \<longrightarrow> bucket_ok bd k (calls_of k evs)))"

lemma sum_count_tool:
  "hm_wf bd \<Longrightarrow> sum_list (map snd (count_tool k bd)) = sum_list (map snd bd) + 1"
proof (induction bd)
  case Nil
  show ?case by (simp add: count_tool_def)
next
  case (Cons p bd)
  show ?case
  proof (cases "fst p = k")
    case True
    then show ?thesis by (cases p) (simp add: count_tool_def)
  next
    case False
    with Cons show ?thesis by (cases p) (simp add: count_tool_def algebra_simps)
  qed
qed

lemma length_hm_insert: "length (hm_insert k v m) = (if hm_get m k = None then Suc (length m) else length m)"
  by (induction m) auto

lemma filter_hm_insert:
  "length (filter (\<lambda>kv. fst kv \<noteq> o') (hm_insert k v m)) =
     (if k = o' \<or> hm_get m k \<noteq> None then length (filter (\<lambda>kv. fst kv \<noteq> o') m)
      else Suc (length (filter (\<lambda>kv. fst kv \<noteq> o') m)))"
  by (induction m) auto

lemma calls_of_snoc:
  "calls_of k (evs @ [(ts, ev)]) = calls_of k evs + (if is_call_of k (ts, ev) then 1 else 0)"
  by (simp add: calls_of_def)

lemma observe_model_turn:
  "mc_tool_breakdown (observe (ModelTurn b u busy) c) = mc_tool_breakdown c"
  "mc_tool_calls (observe (ModelTurn b u busy) c) = mc_tool_calls c"
  by (simp_all add: Let_def add_usage_def split: option.split)

lemma breakdown_inv_observe:
  assumes inv: "breakdown_inv evs c"
  shows "breakdown_inv (evs @ [(ts, ev)]) (observe ev c)"
proof (cases ev)
  case (ToolCall tool bytes busy)
  let ?bd = "mc_tool_breakdown c" and ?k = "tool_key tool (mc_tool_breakdown c)"
  have wf: "hm_wf ?bd" using inv by (simp add: breakdown_inv_def Let_def)
  have key: "?k \<noteq> TOOL_OVERFLOW_KEY \<Longrightarrow> ?k = tool" by (simp add: tool_key_def split: if_splits)
  have len: "length ?bd \<le> length (count_tool ?k ?bd)" by (simp add: count_tool_def length_hm_insert)
  have bound: "length (filter (\<lambda>kv. fst kv \<noteq> TOOL_OVERFLOW_KEY) (count_tool ?k ?bd)) \<le> MAX_DISTINCT_TOOLS"
  proof -
    let ?n = "length (filter (\<lambda>kv. fst kv \<noteq> TOOL_OVERFLOW_KEY) ?bd)"
    have n: "?n \<le> MAX_DISTINCT_TOOLS" using inv by (simp add: breakdown_inv_def Let_def)
    show ?thesis
    proof (cases "?k \<noteq> TOOL_OVERFLOW_KEY \<and> hm_get ?bd ?k = None")
      case True
      then have "length ?bd < MAX_DISTINCT_TOOLS" by (auto simp: tool_key_def hm_contains_def split: if_splits)
      then have "Suc ?n \<le> MAX_DISTINCT_TOOLS" by (rule le_less_trans [OF length_filter_le, THEN Suc_leI])
      with True show ?thesis unfolding count_tool_def filter_hm_insert by simp
    next
      case False
      with n show ?thesis unfolding count_tool_def filter_hm_insert by auto
    qed
  qed
  have keys: "\<forall>k \<in> hm_keys (count_tool ?k ?bd). length k \<le> MAX_TOOL_NAME_LEN"
  proof -
    have "length ?k \<le> MAX_TOOL_NAME_LEN"
      by (simp add: tool_key_def TOOL_OVERFLOW_KEY_def MAX_TOOL_NAME_LEN_def)
    then show ?thesis using inv unfolding count_tool_def hm_keys_insert by (simp add: breakdown_inv_def Let_def)
  qed
  have bucket: "bucket_ok (count_tool ?k ?bd) k (calls_of k (evs @ [(ts, ev)]))"
    if k: "k \<noteq> TOOL_OVERFLOW_KEY" for k
  proof -
    have old: "bucket_ok ?bd k (calls_of k evs)"
      using inv k by (simp add: breakdown_inv_def Let_def)
    have short: "length k \<le> MAX_TOOL_NAME_LEN" if "hm_get ?bd k = Some n" for n
      using inv hm_get_keys [OF that] by (auto simp: breakdown_inv_def Let_def)
    show ?thesis
    proof (cases "?k = tool")
      case True
      then show ?thesis using old len ToolCall k
        by (auto simp: bucket_ok_def count_tool_def calls_of_snoc tool_key_def hm_contains_def split: option.splits if_splits)
    next
      case False
      then have "?k = TOOL_OVERFLOW_KEY" using key by blast
      with False k old len ToolCall short show ?thesis
        by (auto simp: bucket_ok_def count_tool_def calls_of_snoc tool_key_def hm_contains_def split: option.splits if_splits)
    qed
  qed
  have "hm_wf (count_tool ?k ?bd)" using wf by (simp add: count_tool_def)
  moreover have eqs: "mc_tool_breakdown (observe ev c) = count_tool ?k ?bd"
      "mc_tool_calls (observe ev c) = mc_tool_calls c + 1"
    by (simp_all add: ToolCall)
  moreover have "sum_list (map snd (count_tool ?k ?bd)) = mc_tool_calls c + 1"
    using inv sum_count_tool [OF wf] by (simp add: breakdown_inv_def Let_def)
  ultimately show ?thesis
    unfolding breakdown_inv_def Let_def eqs using bound keys bucket by blast
qed (use inv in \<open>simp_all add: breakdown_inv_def calls_of_snoc observe_model_turn del: observe.simps(1)\<close>)

lemma breakdown_inv_observed: "breakdown_inv evs (observed (collector_new born) evs)"
proof (induction evs rule: rev_induct)
  case Nil
  show ?case by (simp add: observed_def collector_new_def breakdown_inv_def bucket_ok_def calls_of_def)
next
  case (snoc e evs)
  then show ?case using breakdown_inv_observe by (cases e) (simp add: observed_snoc)
qed

text \<open>The token classes of a list of events, and its model turns.\<close>

fun event_usage :: "u64 \<times> transcript_event \<Rightarrow> turn_usage option" where
  "event_usage (ts, ModelTurn bytes usage busy) = usage"
| "event_usage (ts, ev) = None"

definition reported :: "(turn_usage \<Rightarrow> u64) \<Rightarrow> (u64 \<times> transcript_event) list \<Rightarrow> nat" where
  "reported f evs = (\<Sum>e\<leftarrow>evs. case event_usage e of None \<Rightarrow> 0 | Some u \<Rightarrow> unat (f u))"

lemma reported_snoc:
  "reported f (evs @ [e]) = reported f evs + (case event_usage e of None \<Rightarrow> 0 | Some u \<Rightarrow> unat (f u))"
  by (simp add: reported_def)

lemma min_add_cap: "min (min a m + b) m = min (a + b) (m :: nat)"
  by linarith

lemma min_four: "min (min (min (min a m + min b m) m + min c m) m + min d m) m = min (a + b + c + d) (m :: nat)"
  by linarith

lemma len_u64: "LENGTH(64) = 64"
  by simp

lemma observed_tokens:
  "unat (mc_input (observed (collector_new born) evs)) = min (reported tu_input evs) (2 ^ 64 - 1)
   \<and> unat (mc_output (observed (collector_new born) evs)) = min (reported tu_output evs) (2 ^ 64 - 1)
   \<and> unat (mc_cache_read (observed (collector_new born) evs)) = min (reported tu_cache_read evs) (2 ^ 64 - 1)
   \<and> unat (mc_cache_write (observed (collector_new born) evs)) = min (reported tu_cache_write evs) (2 ^ 64 - 1)"
proof (induction evs rule: rev_induct)
  case Nil
  show ?case by (simp add: observed_def collector_new_def reported_def)
next
  case (snoc e evs)
  obtain ts ev where e: "e = (ts, ev)" by (cases e)
  show ?case
  proof (cases "event_usage e")
    case None
    with snoc e show ?thesis by (cases ev) (simp_all add: observed_snoc reported_snoc Let_def)
  next
    case (Some u)
    with e obtain b busy where "ev = ModelTurn b (Some u) busy" by (cases ev) auto
    with snoc e show ?thesis
      by (simp add: observed_snoc reported_snoc Let_def add_usage_def unat_sat_add min_add_cap)
  qed
qed

lemma unat_u64_saturate: "unat (u64_saturate n) = min n (2 ^ 64 - 1)"
proof (cases "n < 2 ^ 64")
  case True
  then show ?thesis by (simp add: u64_saturate_def unsigned_of_nat take_bit_nat_eq_self)
next
  case False
  then show ?thesis by (simp add: u64_saturate_def unat_minus_one_eq)
qed

lemma one_bucket: "hm_wf m \<Longrightarrow> length (filter (\<lambda>kv. fst kv = k) m) \<le> 1"
proof (induction m)
  case (Cons p m)
  then show ?case by (cases "fst p = k") (force simp: filter_empty_conv image_iff)+
qed simp

text \<open>The sum of the four classes stays inside the 128-bit intermediate of the code.\<close>

lemma cost_fits_u128: "cost_micros price c < 2 ^ 128"
proof -
  have "class_cost_micros a b < 2 ^ 126" for a b
  proof -
    have "unat a * unat b \<le> 2 ^ 64 * 2 ^ 64"
      using unsigned_less [of a, where ?'a = nat] unsigned_less [of b, where ?'a = nat]
      by (intro mult_mono) simp_all
    then show ?thesis by (simp add: class_cost_micros_def)
  qed
  note b = this
  show ?thesis
    using b [of "mc_input c" "input_per_mtok_micros price"] b [of "mc_output c" "output_per_mtok_micros price"]
      b [of "mc_cache_read c" "cache_read_per_mtok_micros price"] b [of "mc_cache_write c" "cache_write_per_mtok_micros price"]
    unfolding cost_micros_def by simp
qed


end
