(* ===== verification/Provider_Binding.thy ===== *)
theory Provider_Binding
  imports Ledger
begin

text \<open>
  The durable descriptors of provider handles, \<open>corelink-fabric-server/src/provider_binding.rs\<close>: what
  may be stored in the \<open>box_ref\<close> of a lease, and how a process that does not hold the handle gets it
  back. The JSON codec is the pair of parameters \<open>to_json\<close> and \<open>of_json\<close>.
\<close>

section \<open>Descriptors\<close>

datatype provider_backend = Cloudflare | Northflank | NoBoxBackend

datatype provider_route = RunnerRoute | CheckRoute | CheckHostRoute | NoBoxRoute

record provider_binding =
  pb_lease_id :: string
  pb_backend :: provider_backend
  pb_route :: provider_route
  pb_handle :: "string option"
  pb_domain :: string

datatype binding_error =
    InvalidIdentity
  | InvalidHandle
  | InvalidCombination
  | DomainNotHttp
  | DomainIllegal
  | BindingTooLong
  | BadPrefix
  | BadJson
  | LeaseMissing
  | LeaseMismatch
  | LedgerFailed ledger_error
  | RestoreRefused

definition safe_byte :: "char \<Rightarrow> bool" where
  "safe_byte c \<longleftrightarrow> is_ascii_alnum c \<or> c = CHR ''-'' \<or> c = CHR ''_''"

definition safe_component :: "string \<Rightarrow> bool" where
  "safe_component v \<longleftrightarrow> v \<noteq> [] \<and> length v \<le> 256 \<and> list_all safe_byte v"

text \<open>\<open>split('/')\<close>: the parts between slashes, at least one.\<close>

fun split_slash :: "string \<Rightarrow> string list" where
  "split_slash [] = [[]]"
| "split_slash (c # s) =
     (if c = CHR ''/'' then [] # split_slash s
      else case split_slash s of [] \<Rightarrow> [[c]] | p # ps \<Rightarrow> (c # p) # ps)"

definition authority_byte :: "char \<Rightarrow> bool" where
  "authority_byte c \<longleftrightarrow> is_ascii_alnum c \<or> c \<in> set ''.-:''"

definition path_byte :: "char \<Rightarrow> bool" where
  "path_byte c \<longleftrightarrow> is_ascii_alnum c \<or> c \<in> set ''/._~-''"

definition validate_domain :: "string \<Rightarrow> binding_error + unit" where
  "validate_domain v =
     (case (case strip_prefix ''https://'' v of Some r \<Rightarrow> Some r | None \<Rightarrow> strip_prefix ''http://'' v) of
        None \<Rightarrow> Inl DomainNotHttp
      | Some rest \<Rightarrow>
          (let (authority, path) = (case split_once (CHR ''/'') rest of Some ap \<Rightarrow> ap | None \<Rightarrow> (rest, [])) in
           if length v > 2048 \<or> authority = [] \<or> \<not> list_all authority_byte authority
              \<or> \<not> list_all path_byte path \<or> list_ex (\<lambda>part. part = ''.'' \<or> part = ''..'') (split_slash path)
           then Inl DomainIllegal else Inr ()))"

definition validate_binding :: "provider_binding \<Rightarrow> binding_error + unit" where
  "validate_binding b =
     (if \<not> safe_component (pb_lease_id b) then Inl InvalidIdentity
      else case (pb_backend b, pb_route b, pb_handle b) of
             (NoBoxBackend, NoBoxRoute, None) \<Rightarrow>
               if pb_domain b = ''local:nobox'' then Inr () else Inl InvalidCombination
           | (Cloudflare, RunnerRoute, Some h) \<Rightarrow>
               if \<not> safe_component h then Inl InvalidHandle else validate_domain (pb_domain b)
           | (Cloudflare, CheckHostRoute, Some h) \<Rightarrow>
               if \<not> safe_component h then Inl InvalidHandle else validate_domain (pb_domain b)
           | (Northflank, RunnerRoute, Some h) \<Rightarrow>
               if \<not> safe_component h then Inl InvalidHandle else validate_domain (pb_domain b)
           | (Northflank, CheckRoute, Some h) \<Rightarrow>
               if \<not> safe_component h then Inl InvalidHandle else validate_domain (pb_domain b)
           | (Northflank, CheckHostRoute, Some h) \<Rightarrow>
               if \<not> safe_component h then Inl InvalidHandle else validate_domain (pb_domain b)
           | _ \<Rightarrow> Inl InvalidCombination)"

definition binding_encode :: "(provider_binding \<Rightarrow> string) \<Rightarrow> provider_binding \<Rightarrow> binding_error + string" where
  "binding_encode to_json b =
     (case validate_binding b of
        Inl e \<Rightarrow> Inl e
      | Inr u \<Rightarrow>
          (let v = PROVIDER_REF_PREFIX @ to_json b in
           if length v > PROVIDER_REF_MAX_BYTES then Inl BindingTooLong else Inr v))"

definition binding_decode :: "(string \<Rightarrow> provider_binding option) \<Rightarrow> string \<Rightarrow> binding_error + provider_binding" where
  "binding_decode of_json v =
     (if length v > PROVIDER_REF_MAX_BYTES \<or> strip_prefix PROVIDER_REF_PREFIX v = None then Inl BadPrefix
      else case of_json (drop (length PROVIDER_REF_PREFIX) v) of
             None \<Rightarrow> Inl BadJson
           | Some b \<Rightarrow> (case validate_binding b of Inl e \<Rightarrow> Inl e | Inr u \<Rightarrow> Inr b))"


section \<open>Restoring\<close>

text \<open>The ledger is its \<open>get\<close>, the provisioner its \<open>restore_provider_ref\<close>.\<close>

definition box_marker :: "string \<Rightarrow> string" where
  "box_marker lease_id = ''box:'' @ lease_id"

definition restore_for_operation ::
  "(string \<Rightarrow> provider_binding option) \<Rightarrow> ('s \<Rightarrow> string \<Rightarrow> ledger_error + lease_record option) \<Rightarrow> 's
     \<Rightarrow> (string \<Rightarrow> string \<Rightarrow> ('e, unit, 'w) op) \<Rightarrow> string \<Rightarrow> (binding_error, unit, 'w) op" where
  "restore_for_operation of_json get s restore lease_id w =
     (case get s lease_id of
        Inl e \<Rightarrow> (Inl (LedgerFailed e), w)
      | Inr None \<Rightarrow> (Inl LeaseMissing, w)
      | Inr (Some rec) \<Rightarrow>
          if lr_box_ref rec = box_marker lease_id then (Inr (), w)
          else case binding_decode of_json (lr_box_ref rec) of
                 Inl e \<Rightarrow> (Inl e, w)
               | Inr b \<Rightarrow>
                   if pb_lease_id b \<noteq> lease_id then (Inl LeaseMismatch, w)
                   else (case restore lease_id (lr_box_ref rec) w of
                           (Inl e, w') \<Rightarrow> (Inl RestoreRefused, w')
                         | (Inr u, w') \<Rightarrow> (Inr (), w')))"


section \<open>What a stored descriptor guarantees\<close>

text \<open>A path built from safe components has no separator and no percent escape in them.\<close>

lemma safe_component_bytes:
  "safe_component v \<Longrightarrow> CHR ''/'' \<notin> set v \<and> CHR ''%'' \<notin> set v \<and> CHR ''?'' \<notin> set v \<and> CHR ''#'' \<notin> set v"
  by (auto simp: safe_component_def list_all_iff safe_byte_def is_ascii_alnum_def is_digit_def)

lemma validate_binding_handle:
  assumes "validate_binding b = Inr ()"
  shows "safe_component (pb_lease_id b) \<and> (\<forall>h. pb_handle b = Some h \<longrightarrow> safe_component h)
    \<and> (pb_handle b = None \<longleftrightarrow> pb_backend b = NoBoxBackend) \<and> (pb_backend b = NoBoxBackend \<longleftrightarrow> pb_route b = NoBoxRoute)"
  using assms
  by (auto simp: validate_binding_def split: if_splits provider_backend.splits provider_route.splits option.splits)

lemma strip_prefix_append [simp]: "strip_prefix p (p @ s) = Some s"
  by (simp add: strip_prefix_def)

text \<open>C0: A provider descriptor survives storage: when the JSON codec reads back what it wrote, encoding and
  then decoding a descriptor gives the descriptor itself, the stored text is one the ledger's own validation
  admits as to prefix and length, and neither its lease id nor its handle contains a character that could
  redirect a request path.\<close>

theorem provider_binding_roundtrip:
  assumes codec: "of_json (to_json b) = Some b"
    and enc: "binding_encode to_json b = Inr v"
  shows "binding_decode of_json v = Inr b
    \<and> length v \<le> PROVIDER_REF_MAX_BYTES \<and> strip_prefix PROVIDER_REF_PREFIX v = Some (to_json b)
    \<and> (\<forall>c \<in> set (pb_lease_id b) \<union> (case pb_handle b of Some h \<Rightarrow> set h | None \<Rightarrow> {}). c \<notin> {CHR ''/'', CHR ''%'', CHR ''?'', CHR ''#''})"
proof -
  from enc have ok: "validate_binding b = Inr ()" and v: "v = PROVIDER_REF_PREFIX @ to_json b"
    and len: "\<not> length v > PROVIDER_REF_MAX_BYTES"
    by (auto simp: binding_encode_def Let_def split: sum.splits if_splits)
  have "binding_decode of_json v = Inr b"
    using ok len by (simp add: binding_decode_def v codec)
  moreover have "\<forall>c \<in> set (pb_lease_id b) \<union> (case pb_handle b of Some h \<Rightarrow> set h | None \<Rightarrow> {}). c \<notin> {CHR ''/'', CHR ''%'', CHR ''?'', CHR ''#''}"
    using validate_binding_handle [OF ok] safe_component_bytes by (auto split: option.splits)
  ultimately show ?thesis using len v by auto
qed

definition sample_binding :: provider_binding where
  "sample_binding = \<lparr>pb_lease_id = ''lease-1'', pb_backend = Cloudflare, pb_route = RunnerRoute,
     pb_handle = Some ''do-7'', pb_domain = ''https://w.example/x''\<rparr>"

lemma sample_binding_ok: "binding_encode (\<lambda>b. ''{1}'') sample_binding = Inr ''provider-ref:v1:{1}''"
  by code_simp

theorem provider_binding_roundtrip_witness:
  "binding_decode (\<lambda>s. Some sample_binding) ''provider-ref:v1:{1}'' = Inr sample_binding"
  using provider_binding_roundtrip [of "\<lambda>s. Some sample_binding" "\<lambda>b. ''{1}''" sample_binding, OF _ sample_binding_ok]
  by simp

end
