(* ===== verification/Boxes.thy ===== *)
theory Boxes
  imports Box_Engine Provider_Binding
begin

text \<open>
  The box provisioners of \<open>corelink-fabric-server/src/cloud_exec.rs\<close> and
  \<open>cloud_exec/provider_refs.rs\<close>: the registry of box handles, the no-box, Northflank, Cloudflare and
  hybrid provisioners, and the descriptors they store and restore. The HTTP engines of the two clouds are
  records of functions on their own state \<open>'e\<close>. The locale \<open>handle_book\<close> is what the clean-up of
  unfinished leases relies on: destruction is confirmed only for a handle that was recorded.
\<close>

section \<open>The provisioner interface\<close>

datatype cleanup_teardown = ConfirmedDestroyed | Retryable | Unconfirmed

datatype probe_status = Alive | Dead | Unbound

datatype box_error =
    CapacityExhausted
  | EngineFailed string
  | BindingFailed binding_error
  | ConflictingBinding
  | RealBindingExists
  | RouteMissing
  | InvalidRoute
  | NoHandle
  | TeardownUnconfirmed
  | NotOurBinding

definition is_capacity_error :: "box_error \<Rightarrow> bool" where
  "is_capacity_error e \<longleftrightarrow> e = CapacityExhausted"

record 'w provisioner =
  pv_provision :: "string \<Rightarrow> container_spec \<Rightarrow> (box_error, unit, 'w) op"
  pv_provider_ref :: "string \<Rightarrow> 'w \<Rightarrow> box_error + string"
  pv_restore_provider_ref :: "string \<Rightarrow> string \<Rightarrow> (box_error, unit, 'w) op"
  pv_teardown :: "string \<Rightarrow> (box_error, unit, 'w) op"
  pv_teardown_pending :: "string \<Rightarrow> 'w \<Rightarrow> cleanup_teardown \<times> 'w"
  pv_forget_pending_cleanup :: "string \<Rightarrow> 'w \<Rightarrow> 'w"
  pv_probe :: "string \<Rightarrow> (box_error, probe_status, 'w) op"
  pv_binds_boxes :: bool

text \<open>The JSON codec of descriptors.\<close>

record binding_codec =
  bc_to_json :: "provider_binding \<Rightarrow> string"
  bc_of_json :: "string \<Rightarrow> provider_binding option"

definition encode_ref :: "binding_codec \<Rightarrow> provider_binding \<Rightarrow> box_error + string" where
  "encode_ref codec b = (case binding_encode (bc_to_json codec) b of Inl e \<Rightarrow> Inl (BindingFailed e) | Inr v \<Rightarrow> Inr v)"

definition decode_ref :: "binding_codec \<Rightarrow> string \<Rightarrow> box_error + provider_binding" where
  "decode_ref codec v = (case binding_decode (bc_of_json codec) v of Inl e \<Rightarrow> Inl (BindingFailed e) | Inr b \<Rightarrow> Inr b)"


section \<open>The registry\<close>

record registry_evidence =
  re_boxes :: "(string, running_container) hmap"
  re_no_box :: "string set"
  re_modes :: "(string, provider_route) hmap"

definition registry_new :: registry_evidence where
  "registry_new = \<lparr>re_boxes = [], re_no_box = {}, re_modes = []\<rparr>"

definition reg_bind :: "string \<Rightarrow> running_container \<Rightarrow> registry_evidence \<Rightarrow> registry_evidence" where
  "reg_bind lid c r =
     (let r = r\<lparr>re_no_box := re_no_box r - {lid}\<rparr>;
          r = (if (case hm_get (re_boxes r) lid of None \<Rightarrow> True | Some old \<Rightarrow> rc_name old \<noteq> rc_name c)
               then r\<lparr>re_modes := hm_remove lid (re_modes r)\<rparr> else r)
      in r\<lparr>re_boxes := hm_insert lid c (re_boxes r)\<rparr>)"

definition reg_resolve :: "registry_evidence \<Rightarrow> string \<Rightarrow> running_container option" where
  "reg_resolve r lid = hm_get (re_boxes r) lid"

definition reg_unbind :: "string \<Rightarrow> registry_evidence \<Rightarrow> registry_evidence" where
  "reg_unbind lid r = r\<lparr>re_boxes := hm_remove lid (re_boxes r), re_modes := hm_remove lid (re_modes r)\<rparr>"

definition reg_mark_no_box :: "string \<Rightarrow> (box_error, unit, registry_evidence) op" where
  "reg_mark_no_box lid r =
     (if hm_contains lid (re_boxes r) then (Inl RealBindingExists, r)
      else (Inr (), r\<lparr>re_no_box := insert lid (re_no_box r)\<rparr>))"

definition reg_has_no_box :: "registry_evidence \<Rightarrow> string \<Rightarrow> bool" where
  "reg_has_no_box r lid \<longleftrightarrow> lid \<in> re_no_box r"

definition reg_forget_no_box :: "string \<Rightarrow> registry_evidence \<Rightarrow> registry_evidence" where
  "reg_forget_no_box lid r = r\<lparr>re_no_box := re_no_box r - {lid}\<rparr>"

definition bind_with_route ::
  "string \<Rightarrow> running_container \<Rightarrow> provider_route \<Rightarrow> (box_error, unit, registry_evidence) op" where
  "bind_with_route lid c route r =
     (if lid \<in> re_no_box r
         \<or> (case hm_get (re_boxes r) lid of None \<Rightarrow> False | Some old \<Rightarrow> rc_name old \<noteq> rc_name c)
         \<or> (case hm_get (re_modes r) lid of None \<Rightarrow> False | Some old \<Rightarrow> old \<noteq> route)
      then (Inl ConflictingBinding, r)
      else (Inr (), r\<lparr>re_boxes := hm_insert lid c (re_boxes r), re_modes := hm_insert lid route (re_modes r)\<rparr>))"

definition reg_route :: "registry_evidence \<Rightarrow> string \<Rightarrow> box_error + provider_route" where
  "reg_route r lid = (case hm_get (re_modes r) lid of None \<Rightarrow> Inl RouteMissing | Some m \<Rightarrow> Inr m)"

definition check_mode :: "registry_evidence \<Rightarrow> string \<Rightarrow> box_error + bool" where
  "check_mode r lid =
     (case reg_route r lid of
        Inl e \<Rightarrow> Inl e
      | Inr RunnerRoute \<Rightarrow> Inr False
      | Inr CheckHostRoute \<Rightarrow> Inr True
      | Inr m \<Rightarrow> Inl InvalidRoute)"

definition TOOLCHAIN_DIGEST_ENV :: string where
  "TOOLCHAIN_DIGEST_ENV = ''TOOLCHAIN_DIGEST''"

definition is_check_host_spec :: "container_spec \<Rightarrow> bool" where
  "is_check_host_spec spec \<longleftrightarrow> \<not> cs_allow_egress spec \<and> list_ex (\<lambda>(k, v). k = TOOLCHAIN_DIGEST_ENV) (cs_env spec)"


section \<open>No box\<close>

record 'e no_box_world =
  nb_leases :: "string set"
  nb_rest :: 'e

definition no_box_binding :: "string \<Rightarrow> provider_binding" where
  "no_box_binding lid = \<lparr>pb_lease_id = lid, pb_backend = NoBoxBackend, pb_route = NoBoxRoute,
     pb_handle = None, pb_domain = ''local:nobox''\<rparr>"

definition no_box_binding_ref :: "binding_codec \<Rightarrow> string \<Rightarrow> 'e no_box_world \<Rightarrow> box_error + string" where
  "no_box_binding_ref codec lid w =
     (if lid \<notin> nb_leases w then Inl NoHandle else encode_ref codec (no_box_binding lid))"

definition no_box_restore :: "binding_codec \<Rightarrow> string \<Rightarrow> string \<Rightarrow> (box_error, unit, 'e no_box_world) op" where
  "no_box_restore codec lid ref w =
     (case decode_ref codec ref of
        Inl e \<Rightarrow> (Inl e, w)
      | Inr b \<Rightarrow>
          if pb_lease_id b \<noteq> lid \<or> pb_backend b \<noteq> NoBoxBackend \<or> pb_route b \<noteq> NoBoxRoute \<or> pb_domain b \<noteq> ''local:nobox''
          then (Inl NotOurBinding, w)
          else (Inr (), w\<lparr>nb_leases := insert lid (nb_leases w)\<rparr>))"

definition no_box_provisioner :: "binding_codec \<Rightarrow> 'e no_box_world provisioner" where
  "no_box_provisioner codec =
     \<lparr>pv_provision = (\<lambda>lid spec w. (Inr (), w\<lparr>nb_leases := insert lid (nb_leases w)\<rparr>)),
      pv_provider_ref = no_box_binding_ref codec,
      pv_restore_provider_ref = no_box_restore codec,
      pv_teardown = (\<lambda>lid w. if lid \<in> nb_leases w then (Inr (), w) else (Inl TeardownUnconfirmed, w)),
      pv_teardown_pending = (\<lambda>lid w. if lid \<in> nb_leases w then (ConfirmedDestroyed, w) else (Unconfirmed, w)),
      pv_forget_pending_cleanup = (\<lambda>lid w. w\<lparr>nb_leases := nb_leases w - {lid}\<rparr>),
      pv_probe = (\<lambda>lid w. (Inr Unbound, w)),
      pv_binds_boxes = False\<rparr>"


section \<open>Northflank\<close>

record 'e box_world =
  bw_registry :: registry_evidence
  bw_engine :: 'e

record 'e northflank_engine =
  ne_provider_domain :: "box_error + string"
  ne_spawn :: "container_spec \<Rightarrow> (box_error, running_container, 'e) op"
  ne_delete_job :: "running_container \<Rightarrow> (box_error, unit, 'e) op"
  ne_is_alive :: "running_container \<Rightarrow> (box_error, bool, 'e) op"

definition northflank_route :: "container_spec \<Rightarrow> provider_route" where
  "northflank_route spec =
     (if cs_allow_egress spec then RunnerRoute
      else if is_check_host_spec spec then CheckHostRoute else CheckRoute)"

text \<open>Spawn and record: a failed spawn binds nothing.\<close>

definition spawn_and_bind ::
  "(container_spec \<Rightarrow> (box_error, running_container, 'e) op) \<Rightarrow> provider_route \<Rightarrow> string \<Rightarrow> container_spec
     \<Rightarrow> (box_error, unit, 'e box_world) op" where
  "spawn_and_bind spawn route lid spec w =
     (case spawn spec (bw_engine w) of
        (Inl e, en) \<Rightarrow> (Inl e, w\<lparr>bw_engine := en\<rparr>)
      | (Inr c, en) \<Rightarrow>
          (case bind_with_route lid c route (bw_registry w) of
             (Inl e, r) \<Rightarrow> (Inl e, w\<lparr>bw_engine := en, bw_registry := r\<rparr>)
           | (Inr u, r) \<Rightarrow> (Inr (), w\<lparr>bw_engine := en, bw_registry := r\<rparr>)))"

definition northflank_provision ::
  "'e northflank_engine \<Rightarrow> string \<Rightarrow> container_spec \<Rightarrow> (box_error, unit, 'e box_world) op" where
  "northflank_provision en lid spec w =
     (case ne_provider_domain en of
        Inl e \<Rightarrow> (Inl e, w)
      | Inr domain \<Rightarrow>
          (case validate_domain domain of
             Inl e \<Rightarrow> (Inl (BindingFailed e), w)
           | Inr u \<Rightarrow> spawn_and_bind (ne_spawn en) (northflank_route spec) lid spec w))"

definition northflank_binding_ref ::
  "'e northflank_engine \<Rightarrow> binding_codec \<Rightarrow> string \<Rightarrow> 'e box_world \<Rightarrow> box_error + string" where
  "northflank_binding_ref en codec lid w =
     (case reg_resolve (bw_registry w) lid of
        None \<Rightarrow> Inl NoHandle
      | Some c \<Rightarrow>
          (case reg_route (bw_registry w) lid of
             Inl e \<Rightarrow> Inl e
           | Inr route \<Rightarrow>
               (case ne_provider_domain en of
                  Inl e \<Rightarrow> Inl e
                | Inr domain \<Rightarrow>
                    encode_ref codec \<lparr>pb_lease_id = lid, pb_backend = Northflank, pb_route = route,
                      pb_handle = Some (rc_name c), pb_domain = domain\<rparr>)))"

definition northflank_restore ::
  "'e northflank_engine \<Rightarrow> binding_codec \<Rightarrow> string \<Rightarrow> string \<Rightarrow> (box_error, unit, 'e box_world) op" where
  "northflank_restore en codec lid ref w =
     (case decode_ref codec ref of
        Inl e \<Rightarrow> (Inl e, w)
      | Inr b \<Rightarrow>
          if pb_lease_id b \<noteq> lid \<or> pb_backend b \<noteq> Northflank then (Inl NotOurBinding, w)
          else (case ne_provider_domain en of
                  Inl e \<Rightarrow> (Inl e, w)
                | Inr domain \<Rightarrow>
                    if pb_domain b \<noteq> domain then (Inl NotOurBinding, w)
                    else (case pb_handle b of
                            None \<Rightarrow> (Inl NotOurBinding, w)
                          | Some h \<Rightarrow>
                              (case bind_with_route lid \<lparr>rc_name = h\<rparr> (pb_route b) (bw_registry w) of
                                 (x, r) \<Rightarrow> (x, w\<lparr>bw_registry := r\<rparr>)))))"

definition northflank_teardown ::
  "'e northflank_engine \<Rightarrow> string \<Rightarrow> (box_error, unit, 'e box_world) op" where
  "northflank_teardown en lid w =
     (case reg_resolve (bw_registry w) lid of
        None \<Rightarrow> (Inl TeardownUnconfirmed, w)
      | Some c \<Rightarrow> (case ne_delete_job en c (bw_engine w) of (x, e) \<Rightarrow> (x, w\<lparr>bw_engine := e\<rparr>)))"

definition northflank_teardown_pending ::
  "'e northflank_engine \<Rightarrow> string \<Rightarrow> 'e box_world \<Rightarrow> cleanup_teardown \<times> 'e box_world" where
  "northflank_teardown_pending en lid w =
     (case reg_resolve (bw_registry w) lid of
        None \<Rightarrow> (Unconfirmed, w)
      | Some c \<Rightarrow>
          (case ne_delete_job en c (bw_engine w) of
             (Inr u, e) \<Rightarrow> (ConfirmedDestroyed, w\<lparr>bw_engine := e\<rparr>)
           | (Inl x, e) \<Rightarrow> (Retryable, w\<lparr>bw_engine := e\<rparr>)))"

definition northflank_probe ::
  "'e northflank_engine \<Rightarrow> string \<Rightarrow> (box_error, probe_status, 'e box_world) op" where
  "northflank_probe en lid w =
     (case reg_resolve (bw_registry w) lid of
        None \<Rightarrow> (Inr Unbound, w)
      | Some c \<Rightarrow>
          (case ne_is_alive en c (bw_engine w) of
             (Inr alive, e) \<Rightarrow> (Inr (if alive then Alive else Dead), w\<lparr>bw_engine := e\<rparr>)
           | (Inl x, e) \<Rightarrow> (Inl x, w\<lparr>bw_engine := e\<rparr>)))"

definition northflank_provisioner :: "'e northflank_engine \<Rightarrow> binding_codec \<Rightarrow> 'e box_world provisioner" where
  "northflank_provisioner en codec =
     \<lparr>pv_provision = northflank_provision en,
      pv_provider_ref = northflank_binding_ref en codec,
      pv_restore_provider_ref = northflank_restore en codec,
      pv_teardown = northflank_teardown en,
      pv_teardown_pending = northflank_teardown_pending en,
      pv_forget_pending_cleanup = (\<lambda>lid w. w\<lparr>bw_registry := reg_unbind lid (bw_registry w)\<rparr>),
      pv_probe = northflank_probe en,
      pv_binds_boxes = True\<rparr>"


section \<open>Cloudflare\<close>

record 'e cloudflare_engine =
  ce_provider_domain :: string
  ce_spawn :: "container_spec \<Rightarrow> (box_error, running_container, 'e) op"
  ce_teardown_with_mode :: "running_container \<Rightarrow> bool \<Rightarrow> (box_error, unit, 'e) op"
  ce_is_alive_with_mode :: "running_container \<Rightarrow> bool \<Rightarrow> (box_error, bool, 'e) op"

definition cloudflare_provision ::
  "'e cloudflare_engine \<Rightarrow> string \<Rightarrow> container_spec \<Rightarrow> (box_error, unit, 'e box_world) op" where
  "cloudflare_provision en lid spec w =
     (if \<not> cs_allow_egress spec \<and> \<not> is_check_host_spec spec
      then (case reg_mark_no_box lid (bw_registry w) of
              (Inl e, r) \<Rightarrow> (Inl e, w\<lparr>bw_registry := r\<rparr>)
            | (Inr u, r) \<Rightarrow> (Inr (), w\<lparr>bw_registry := r\<rparr>))
      else case validate_domain (ce_provider_domain en) of
             Inl e \<Rightarrow> (Inl (BindingFailed e), w)
           | Inr u \<Rightarrow>
               spawn_and_bind (ce_spawn en) (if is_check_host_spec spec then CheckHostRoute else RunnerRoute) lid spec w)"

definition cloudflare_binding_ref ::
  "'e cloudflare_engine \<Rightarrow> binding_codec \<Rightarrow> string \<Rightarrow> 'e box_world \<Rightarrow> box_error + string" where
  "cloudflare_binding_ref en codec lid w =
     (case reg_resolve (bw_registry w) lid of
        Some c \<Rightarrow>
          (case reg_route (bw_registry w) lid of
             Inl e \<Rightarrow> Inl e
           | Inr route \<Rightarrow>
               (let backend = (if route = NoBoxRoute then NoBoxBackend else Cloudflare) in
                encode_ref codec \<lparr>pb_lease_id = lid, pb_backend = backend, pb_route = route,
                  pb_handle = Some (rc_name c),
                  pb_domain = (if backend = NoBoxBackend then ''local:nobox'' else ce_provider_domain en)\<rparr>))
      | None \<Rightarrow>
          if reg_has_no_box (bw_registry w) lid then encode_ref codec (no_box_binding lid) else Inl NoHandle)"

definition cloudflare_restore ::
  "'e cloudflare_engine \<Rightarrow> binding_codec \<Rightarrow> string \<Rightarrow> string \<Rightarrow> (box_error, unit, 'e box_world) op" where
  "cloudflare_restore en codec lid ref w =
     (case decode_ref codec ref of
        Inl e \<Rightarrow> (Inl e, w)
      | Inr b \<Rightarrow>
          if pb_lease_id b \<noteq> lid then (Inl NotOurBinding, w)
          else if pb_backend b = NoBoxBackend \<and> pb_domain b = ''local:nobox'' \<and> pb_route b = NoBoxRoute
          then (case reg_mark_no_box lid (bw_registry w) of (x, r) \<Rightarrow> (x, w\<lparr>bw_registry := r\<rparr>))
          else if pb_backend b \<noteq> Cloudflare \<or> pb_domain b \<noteq> ce_provider_domain en then (Inl NotOurBinding, w)
          else case pb_handle b of
                 Some h \<Rightarrow>
                   if pb_route b = RunnerRoute \<or> pb_route b = CheckHostRoute
                   then (case bind_with_route lid \<lparr>rc_name = h\<rparr> (pb_route b) (bw_registry w) of
                           (x, r) \<Rightarrow> (x, w\<lparr>bw_registry := r\<rparr>))
                   else (Inl InvalidRoute, w)
               | None \<Rightarrow> (Inl InvalidRoute, w))"

definition cloudflare_teardown ::
  "'e cloudflare_engine \<Rightarrow> string \<Rightarrow> (box_error, unit, 'e box_world) op" where
  "cloudflare_teardown en lid w =
     (case reg_resolve (bw_registry w) lid of
        Some c \<Rightarrow>
          (case check_mode (bw_registry w) lid of
             Inl e \<Rightarrow> (Inl e, w)
           | Inr mode \<Rightarrow> (case ce_teardown_with_mode en c mode (bw_engine w) of (x, e) \<Rightarrow> (x, w\<lparr>bw_engine := e\<rparr>)))
      | None \<Rightarrow> if reg_has_no_box (bw_registry w) lid then (Inr (), w) else (Inl TeardownUnconfirmed, w))"

definition cloudflare_teardown_pending ::
  "'e cloudflare_engine \<Rightarrow> string \<Rightarrow> 'e box_world \<Rightarrow> cleanup_teardown \<times> 'e box_world" where
  "cloudflare_teardown_pending en lid w =
     (case reg_resolve (bw_registry w) lid of
        None \<Rightarrow> (if reg_has_no_box (bw_registry w) lid then ConfirmedDestroyed else Unconfirmed, w)
      | Some c \<Rightarrow>
          (case check_mode (bw_registry w) lid of
             Inl e \<Rightarrow> (Unconfirmed, w)
           | Inr mode \<Rightarrow>
               (case ce_teardown_with_mode en c mode (bw_engine w) of
                  (Inr u, e) \<Rightarrow> (ConfirmedDestroyed, w\<lparr>bw_engine := e\<rparr>)
                | (Inl x, e) \<Rightarrow> (Retryable, w\<lparr>bw_engine := e\<rparr>))))"

definition cloudflare_probe ::
  "'e cloudflare_engine \<Rightarrow> string \<Rightarrow> (box_error, probe_status, 'e box_world) op" where
  "cloudflare_probe en lid w =
     (case reg_resolve (bw_registry w) lid of
        None \<Rightarrow> (Inr Unbound, w)
      | Some c \<Rightarrow>
          (case check_mode (bw_registry w) lid of
             Inl e \<Rightarrow> (Inl e, w)
           | Inr mode \<Rightarrow>
               (case ce_is_alive_with_mode en c mode (bw_engine w) of
                  (Inr alive, e) \<Rightarrow> (Inr (if alive then Alive else Dead), w\<lparr>bw_engine := e\<rparr>)
                | (Inl x, e) \<Rightarrow> (Inl x, w\<lparr>bw_engine := e\<rparr>))))"

definition cloudflare_provisioner :: "'e cloudflare_engine \<Rightarrow> binding_codec \<Rightarrow> 'e box_world provisioner" where
  "cloudflare_provisioner en codec =
     \<lparr>pv_provision = cloudflare_provision en,
      pv_provider_ref = cloudflare_binding_ref en codec,
      pv_restore_provider_ref = cloudflare_restore en codec,
      pv_teardown = cloudflare_teardown en,
      pv_teardown_pending = cloudflare_teardown_pending en,
      pv_forget_pending_cleanup =
        (\<lambda>lid w. w\<lparr>bw_registry := reg_forget_no_box lid (reg_unbind lid (bw_registry w))\<rparr>),
      pv_probe = cloudflare_probe en,
      pv_binds_boxes = True\<rparr>"


section \<open>Hybrid\<close>

text \<open>Runner and check-host boxes go to one provisioner, plain checks to the other; the route is recorded
  before the delegation. Both work on one state, since they share the registry.\<close>

datatype hybrid_route = HybridRunner | HybridCheck | HybridCheckHost

record 'w hybrid_world =
  hw_routes :: "(string, hybrid_route) hmap"
  hw_sub :: 'w

definition hybrid_sub :: "'w provisioner \<Rightarrow> 'w provisioner \<Rightarrow> hybrid_route \<Rightarrow> 'w provisioner" where
  "hybrid_sub runner check route =
     (case route of HybridRunner \<Rightarrow> runner | HybridCheckHost \<Rightarrow> runner | HybridCheck \<Rightarrow> check)"

definition hybrid_route_for :: "container_spec \<Rightarrow> hybrid_route" where
  "hybrid_route_for spec =
     (if cs_allow_egress spec then HybridRunner
      else if is_check_host_spec spec then HybridCheckHost else HybridCheck)"

fun to_provider_route :: "hybrid_route \<Rightarrow> provider_route" where
  "to_provider_route HybridRunner = RunnerRoute"
| "to_provider_route HybridCheckHost = CheckHostRoute"
| "to_provider_route HybridCheck = CheckRoute"

fun of_provider_route :: "provider_route \<Rightarrow> hybrid_route option" where
  "of_provider_route RunnerRoute = Some HybridRunner"
| "of_provider_route CheckHostRoute = Some HybridCheckHost"
| "of_provider_route CheckRoute = Some HybridCheck"
| "of_provider_route NoBoxRoute = None"

definition lift_sub :: "('x \<times> 'w) \<Rightarrow> 'w hybrid_world \<Rightarrow> 'x \<times> 'w hybrid_world" where
  "lift_sub xw h = (fst xw, h\<lparr>hw_sub := snd xw\<rparr>)"

definition hybrid_provision ::
  "'w provisioner \<Rightarrow> 'w provisioner \<Rightarrow> string \<Rightarrow> container_spec \<Rightarrow> (box_error, unit, 'w hybrid_world) op" where
  "hybrid_provision runner check lid spec h =
     (let route = hybrid_route_for spec;
          h = h\<lparr>hw_routes := hm_insert lid route (hw_routes h)\<rparr>
      in lift_sub (pv_provision (hybrid_sub runner check route) lid spec (hw_sub h)) h)"

definition hybrid_binding_ref ::
  "'w provisioner \<Rightarrow> 'w provisioner \<Rightarrow> binding_codec \<Rightarrow> string \<Rightarrow> 'w hybrid_world \<Rightarrow> box_error + string" where
  "hybrid_binding_ref runner check codec lid h =
     (case hm_get (hw_routes h) lid of
        None \<Rightarrow> Inl RouteMissing
      | Some route \<Rightarrow>
          (case pv_provider_ref (hybrid_sub runner check route) lid (hw_sub h) of
             Inl e \<Rightarrow> Inl e
           | Inr ref \<Rightarrow>
               (case decode_ref codec ref of
                  Inl e \<Rightarrow> Inl e
                | Inr b \<Rightarrow> encode_ref codec (b\<lparr>pb_route := to_provider_route route\<rparr>))))"

definition hybrid_restore ::
  "'w provisioner \<Rightarrow> 'w provisioner \<Rightarrow> binding_codec \<Rightarrow> string \<Rightarrow> string \<Rightarrow> (box_error, unit, 'w hybrid_world) op" where
  "hybrid_restore runner check codec lid ref h =
     (case decode_ref codec ref of
        Inl e \<Rightarrow> (Inl e, h)
      | Inr b \<Rightarrow>
          if pb_lease_id b \<noteq> lid then (Inl NotOurBinding, h)
          else case of_provider_route (pb_route b) of
                 None \<Rightarrow> (Inl NotOurBinding, h)
               | Some route \<Rightarrow>
                   if (case hm_get (hw_routes h) lid of None \<Rightarrow> False | Some old \<Rightarrow> old \<noteq> route)
                   then (Inl ConflictingBinding, h)
                   else (case pv_restore_provider_ref (hybrid_sub runner check route) lid ref (hw_sub h) of
                           (Inl e, w) \<Rightarrow> (Inl e, h\<lparr>hw_sub := w\<rparr>)
                         | (Inr u, w) \<Rightarrow> (Inr (), h\<lparr>hw_sub := w, hw_routes := hm_insert lid route (hw_routes h)\<rparr>)))"

definition hybrid_provisioner ::
  "'w provisioner \<Rightarrow> 'w provisioner \<Rightarrow> binding_codec \<Rightarrow> 'w hybrid_world provisioner" where
  "hybrid_provisioner runner check codec =
     \<lparr>pv_provision = hybrid_provision runner check,
      pv_provider_ref = hybrid_binding_ref runner check codec,
      pv_restore_provider_ref = hybrid_restore runner check codec,
      pv_teardown = (\<lambda>lid h. case hm_get (hw_routes h) lid of
          None \<Rightarrow> (Inl TeardownUnconfirmed, h)
        | Some route \<Rightarrow> lift_sub (pv_teardown (hybrid_sub runner check route) lid (hw_sub h)) h),
      pv_teardown_pending = (\<lambda>lid h. case hm_get (hw_routes h) lid of
          None \<Rightarrow> (Unconfirmed, h)
        | Some route \<Rightarrow> lift_sub (pv_teardown_pending (hybrid_sub runner check route) lid (hw_sub h)) h),
      pv_forget_pending_cleanup = (\<lambda>lid h. case hm_get (hw_routes h) lid of
          None \<Rightarrow> h
        | Some route \<Rightarrow> h\<lparr>hw_sub := pv_forget_pending_cleanup (hybrid_sub runner check route) lid (hw_sub h),
            hw_routes := hm_remove lid (hw_routes h)\<rparr>),
      pv_probe = (\<lambda>lid h. case hm_get (hw_routes h) lid of
          None \<Rightarrow> (Inr Unbound, h)
        | Some route \<Rightarrow> lift_sub (pv_probe (hybrid_sub runner check route) lid (hw_sub h)) h),
      pv_binds_boxes = True\<rparr>"


section \<open>The contract of a provisioner\<close>

locale handle_book =
  fixes pv :: "'w provisioner" and known :: "'w \<Rightarrow> string \<Rightarrow> bool"
  assumes confirmed_known: "pv_teardown_pending pv lid w = (ConfirmedDestroyed, w') \<Longrightarrow> known w lid"
    and torn_known: "pv_teardown pv lid w = (Inr (), w') \<Longrightarrow> known w lid"
    and provision_known: "pv_provision pv lid spec w = (r, w') \<Longrightarrow> known w' l \<Longrightarrow> known w l \<or> l = lid"
    and restore_known: "pv_restore_provider_ref pv lid ref w = (r', w') \<Longrightarrow> known w' l \<Longrightarrow> known w l \<or> l = lid"
    and teardown_known: "pv_teardown pv lid w = (r, w') \<Longrightarrow> known w' l \<Longrightarrow> known w l"
    and pending_known: "pv_teardown_pending pv lid w = (v, w') \<Longrightarrow> known w' l \<Longrightarrow> known w l"
    and forget_known: "known (pv_forget_pending_cleanup pv lid w) l \<Longrightarrow> known w l"
    and probe_known: "pv_probe pv lid w = (p, w') \<Longrightarrow> known w' l \<Longrightarrow> known w l"

definition no_box_known :: "'e no_box_world \<Rightarrow> string \<Rightarrow> bool" where
  "no_box_known w lid \<longleftrightarrow> lid \<in> nb_leases w"

definition registry_knows :: "registry_evidence \<Rightarrow> string \<Rightarrow> bool" where
  "registry_knows r lid \<longleftrightarrow> reg_resolve r lid \<noteq> None \<or> reg_has_no_box r lid"

definition box_known :: "'e box_world \<Rightarrow> string \<Rightarrow> bool" where
  "box_known w lid \<longleftrightarrow> registry_knows (bw_registry w) lid"

lemmas registry_defs = registry_knows_def reg_resolve_def reg_has_no_box_def reg_unbind_def reg_forget_no_box_def
  reg_mark_no_box_def bind_with_route_def

lemma registry_knows_bind:
  "bind_with_route lid c route r = (x, r') \<Longrightarrow> registry_knows r' l \<Longrightarrow> registry_knows r l \<or> l = lid"
  by (auto simp: registry_defs split: if_splits)

lemma registry_knows_mark:
  "reg_mark_no_box lid r = (x, r') \<Longrightarrow> registry_knows r' l \<Longrightarrow> registry_knows r l \<or> l = lid"
  by (auto simp: registry_defs split: if_splits)

lemma registry_knows_unbind: "registry_knows (reg_unbind lid r) l \<Longrightarrow> registry_knows r l"
  by (auto simp: registry_defs split: if_splits)

lemma registry_knows_forget: "registry_knows (reg_forget_no_box lid r) l \<Longrightarrow> registry_knows r l"
  by (auto simp: registry_defs split: if_splits)

lemma spawn_and_bind_known:
  "spawn_and_bind spawn route lid spec w = (r, w') \<Longrightarrow> box_known w' l \<Longrightarrow> box_known w l \<or> l = lid"
  by (auto simp: spawn_and_bind_def box_known_def dest: registry_knows_bind split: prod.splits sum.splits)

interpretation no_box: handle_book "no_box_provisioner codec" no_box_known for codec
  by unfold_locales
    (auto simp: no_box_provisioner_def no_box_known_def no_box_restore_def split: if_splits sum.splits)

interpretation northflank: handle_book "northflank_provisioner en codec" box_known for en codec
proof unfold_locales
  show "box_known w lid" if "pv_teardown_pending (northflank_provisioner en codec) lid w = (ConfirmedDestroyed, w')" for lid w w'
    using that by (auto simp: northflank_provisioner_def northflank_teardown_pending_def box_known_def registry_knows_def
        split: option.splits)
  show "box_known w lid" if "pv_teardown (northflank_provisioner en codec) lid w = (Inr (), w')" for lid w w'
    using that by (auto simp: northflank_provisioner_def northflank_teardown_def box_known_def registry_knows_def
        split: option.splits)
qed (auto simp: northflank_provisioner_def northflank_provision_def northflank_restore_def northflank_teardown_def
    northflank_teardown_pending_def northflank_probe_def box_known_def
    dest: registry_knows_bind registry_knows_unbind spawn_and_bind_known [unfolded box_known_def]
    split: option.splits sum.splits prod.splits if_splits)

interpretation cloudflare: handle_book "cloudflare_provisioner en codec" box_known for en codec
proof unfold_locales
  show "box_known w lid" if "pv_teardown_pending (cloudflare_provisioner en codec) lid w = (ConfirmedDestroyed, w')" for lid w w'
    using that by (auto simp: cloudflare_provisioner_def cloudflare_teardown_pending_def box_known_def registry_knows_def
        split: option.splits if_splits)
  show "box_known w lid" if "pv_teardown (cloudflare_provisioner en codec) lid w = (Inr (), w')" for lid w w'
    using that by (auto simp: cloudflare_provisioner_def cloudflare_teardown_def box_known_def registry_knows_def
        split: option.splits if_splits)
qed (auto simp: cloudflare_provisioner_def cloudflare_provision_def cloudflare_restore_def cloudflare_teardown_def
    cloudflare_teardown_pending_def cloudflare_probe_def box_known_def
    dest: registry_knows_bind registry_knows_mark registry_knows_unbind registry_knows_forget
      spawn_and_bind_known [unfolded box_known_def]
    split: option.splits sum.splits prod.splits if_splits)

text \<open>Two provisioners that share one book of handles make a hybrid that keeps it.\<close>

locale hybrid_pair = runner: handle_book runner known + check: handle_book check known
  for runner :: "'w provisioner" and check :: "'w provisioner" and known :: "'w \<Rightarrow> string \<Rightarrow> bool"
begin

lemma sub_book: "handle_book (hybrid_sub runner check route) known"
  using runner.handle_book_axioms check.handle_book_axioms by (cases route) (simp_all add: hybrid_sub_def)

end

sublocale hybrid_pair \<subseteq> hybrid: handle_book "hybrid_provisioner runner check codec" "\<lambda>h. known (hw_sub h)"
proof
  note sub = handle_book.confirmed_known [OF sub_book] handle_book.torn_known [OF sub_book]
    handle_book.provision_known [OF sub_book] handle_book.restore_known [OF sub_book]
    handle_book.teardown_known [OF sub_book] handle_book.pending_known [OF sub_book]
    handle_book.forget_known [OF sub_book] handle_book.probe_known [OF sub_book]
  show "known (hw_sub w) lid" if "pv_teardown_pending (hybrid_provisioner runner check codec) lid w = (ConfirmedDestroyed, w')" for lid w w'
    using that sub(1) [of _ lid "hw_sub w"]
    by (auto simp: hybrid_provisioner_def lift_sub_def split: option.splits) (metis prod.collapse)
  show "known (hw_sub w) lid" if "pv_teardown (hybrid_provisioner runner check codec) lid w = (Inr (), w')" for lid w w'
    using that sub(2) [of _ lid "hw_sub w"]
    by (auto simp: hybrid_provisioner_def lift_sub_def split: option.splits) (metis prod.collapse)
  show "known (hw_sub w) l \<or> l = lid" if "pv_provision (hybrid_provisioner runner check codec) lid spec w = (r, w')" "known (hw_sub w') l"
    for lid spec w r w' l
    using that sub(3) [of _ lid spec "hw_sub w" _ _ l]
    by (auto simp: hybrid_provisioner_def hybrid_provision_def Let_def lift_sub_def) (metis prod.collapse)
  show "known (hw_sub w) l \<or> l = lid" if "pv_restore_provider_ref (hybrid_provisioner runner check codec) lid ref w = (r, w')" "known (hw_sub w') l"
    for lid ref w r w' l
    using that sub(4) [of _ lid ref "hw_sub w" _ _ l]
    by (auto simp: hybrid_provisioner_def hybrid_restore_def split: sum.splits if_splits option.splits prod.splits)
  show "known (hw_sub w) l" if "pv_teardown (hybrid_provisioner runner check codec) lid w = (r, w')" "known (hw_sub w') l" for lid w r w' l
    using that sub(5) [of _ lid "hw_sub w" _ _ l]
    by (auto simp: hybrid_provisioner_def lift_sub_def split: option.splits) (metis prod.collapse)
  show "known (hw_sub w) l" if "pv_teardown_pending (hybrid_provisioner runner check codec) lid w = (r, w')" "known (hw_sub w') l" for lid w r w' l
    using that sub(6) [of _ lid "hw_sub w" _ _ l]
    by (auto simp: hybrid_provisioner_def lift_sub_def split: option.splits) (metis prod.collapse)
  show "known (hw_sub w) l" if "known (hw_sub (pv_forget_pending_cleanup (hybrid_provisioner runner check codec) lid w)) l" for lid w l
    using that sub(7) by (auto simp: hybrid_provisioner_def split: option.splits)
  show "known (hw_sub w) l" if "pv_probe (hybrid_provisioner runner check codec) lid w = (r, w')" "known (hw_sub w') l" for lid w r w' l
    using that sub(8) [of _ lid "hw_sub w" _ _ l]
    by (auto simp: hybrid_provisioner_def lift_sub_def split: option.splits) (metis prod.collapse)
qed

interpretation rota: hybrid_pair "cloudflare_provisioner cf codec" "northflank_provisioner nf codec" box_known for cf nf codec
  by (rule hybrid_pair.intro) unfold_locales


section \<open>Execution follows the box\<close>

text \<open>The execution half resolves the box from the same registry, and the hybrid one the engine from the
  same routes.\<close>

definition engine_leased_exec ::
  "(running_container \<Rightarrow> string list \<Rightarrow> (box_error, cmd_output, 'e) op) \<Rightarrow> string \<Rightarrow> string list
     \<Rightarrow> (box_error, cmd_output, 'e box_world) op" where
  "engine_leased_exec exec_captured lid argv w =
     (case reg_resolve (bw_registry w) lid of
        None \<Rightarrow> (Inl NoHandle, w)
      | Some c \<Rightarrow> (case exec_captured c argv (bw_engine w) of (x, e) \<Rightarrow> (x, w\<lparr>bw_engine := e\<rparr>)))"

definition hybrid_leased_exec ::
  "(string \<Rightarrow> string list \<Rightarrow> (box_error, cmd_output, 'w) op) \<Rightarrow> (string \<Rightarrow> string list \<Rightarrow> (box_error, cmd_output, 'w) op)
     \<Rightarrow> string \<Rightarrow> string list \<Rightarrow> (box_error, cmd_output, 'w hybrid_world) op" where
  "hybrid_leased_exec check_host check lid argv h =
     (case hm_get (hw_routes h) lid of
        Some HybridCheckHost \<Rightarrow> lift_sub (check_host lid argv (hw_sub h)) h
      | Some HybridCheck \<Rightarrow> lift_sub (check lid argv (hw_sub h)) h
      | Some HybridRunner \<Rightarrow> (Inl InvalidRoute, h)
      | None \<Rightarrow> (Inl RouteMissing, h))"

datatype selected_backend = SelectHybrid | SelectCloudflare | SelectNorthflank | SelectOff

fun select_backend :: "bool \<Rightarrow> bool \<Rightarrow> selected_backend" where
  "select_backend True True = SelectHybrid"
| "select_backend True False = SelectCloudflare"
| "select_backend False True = SelectNorthflank"
| "select_backend False False = SelectOff"


section \<open>A restarted process finds the box again\<close>

lemma encode_decode_ref:
  assumes "bc_of_json codec (bc_to_json codec b) = Some b" and "encode_ref codec b = Inr v"
  shows "decode_ref codec v = Inr b \<and> validate_binding b = Inr ()"
proof -
  from assms(2) have enc: "binding_encode (bc_to_json codec) b = Inr v" by (simp add: encode_ref_def split: sum.splits)
  then have "validate_binding b = Inr ()" by (auto simp: binding_encode_def Let_def split: sum.splits)
  moreover from enc have "binding_decode (bc_of_json codec) v = Inr b"
    by (auto simp: binding_encode_def binding_decode_def Let_def assms(1) split: sum.splits if_splits)
  ultimately show ?thesis by (simp add: decode_ref_def)
qed

lemma bind_fresh:
  "bind_with_route lid c route registry_new = (Inr (), \<lparr>re_boxes = [(lid, c)], re_no_box = {}, re_modes = [(lid, route)]\<rparr>)"
  by (simp add: bind_with_route_def registry_new_def)

lemma northflank_restore_fresh:
  assumes codec: "\<And>b. bc_of_json codec (bc_to_json codec b) = Some b"
    and ref: "northflank_binding_ref en codec lid w = Inr ref"
  shows "\<exists>c route. reg_resolve (bw_registry w) lid = Some c \<and> reg_route (bw_registry w) lid = Inr route
    \<and> northflank_restore en codec lid ref \<lparr>bw_registry = registry_new, bw_engine = e\<rparr>
        = (Inr (), \<lparr>bw_registry = \<lparr>re_boxes = [(lid, c)], re_no_box = {}, re_modes = [(lid, route)]\<rparr>, bw_engine = e\<rparr>)"
proof -
  from ref obtain c route domain where
    c: "reg_resolve (bw_registry w) lid = Some c" "reg_route (bw_registry w) lid = Inr route" "ne_provider_domain en = Inr domain"
    and enc: "encode_ref codec \<lparr>pb_lease_id = lid, pb_backend = Northflank, pb_route = route,
      pb_handle = Some (rc_name c), pb_domain = domain\<rparr> = Inr ref"
    by (auto simp: northflank_binding_ref_def split: option.splits sum.splits)
  from encode_decode_ref [OF codec enc] c show ?thesis
    by (auto simp: northflank_restore_def bind_fresh)
qed

lemma cloudflare_restore_fresh:
  assumes codec: "\<And>b. bc_of_json codec (bc_to_json codec b) = Some b"
    and ref: "cloudflare_binding_ref en codec lid w = Inr ref"
    and c: "reg_resolve (bw_registry w) lid = Some c" and route: "reg_route (bw_registry w) lid = Inr route"
    and r: "route = RunnerRoute \<or> route = CheckHostRoute"
  shows "cloudflare_restore en codec lid ref \<lparr>bw_registry = registry_new, bw_engine = e\<rparr>
      = (Inr (), \<lparr>bw_registry = \<lparr>re_boxes = [(lid, c)], re_no_box = {}, re_modes = [(lid, route)]\<rparr>, bw_engine = e\<rparr>)"
proof -
  have enc: "encode_ref codec \<lparr>pb_lease_id = lid, pb_backend = Cloudflare, pb_route = route,
      pb_handle = Some (rc_name c), pb_domain = ce_provider_domain en\<rparr> = Inr ref"
    using ref c route r by (auto simp: cloudflare_binding_ref_def Let_def)
  from encode_decode_ref [OF codec enc] c r show ?thesis by (auto simp: cloudflare_restore_def bind_fresh)
qed

text \<open>A successful spawn leaves the handle and its route in the registry.\<close>

lemma spawn_and_bind_bound:
  assumes "spawn_and_bind spawn route lid spec w = (Inr (), w')"
  shows "reg_route (bw_registry w') lid = Inr route \<and> (\<exists>c. reg_resolve (bw_registry w') lid = Some c)"
  using assms
  by (auto simp: spawn_and_bind_def bind_with_route_def reg_route_def reg_resolve_def split: prod.splits sum.splits if_splits)

lemma cloudflare_provision_bound:
  assumes "cloudflare_provision en lid spec w = (Inr (), w')" and "cs_allow_egress spec \<or> is_check_host_spec spec"
  shows "\<exists>c. reg_resolve (bw_registry w') lid = Some c
    \<and> reg_route (bw_registry w') lid = Inr (if is_check_host_spec spec then CheckHostRoute else RunnerRoute)"
  using assms by (auto simp: cloudflare_provision_def dest!: spawn_and_bind_bound split: sum.splits if_splits)

lemma northflank_provision_bound:
  assumes "northflank_provision en lid spec w = (Inr (), w')"
  shows "\<exists>c. reg_resolve (bw_registry w') lid = Some c \<and> reg_route (bw_registry w') lid = Inr (northflank_route spec)"
  using assms by (auto simp: northflank_provision_def dest!: spawn_and_bind_bound split: sum.splits)

text \<open>The descriptor of the hybrid is that of the sub-provisioner, whose route already agrees.\<close>

lemma hybrid_ref_is_sub_ref:
  assumes codec: "\<And>b. bc_of_json codec (bc_to_json codec b) = Some b"
    and route: "hm_get (hw_routes h) lid = Some route"
    and sub: "pv_provider_ref (hybrid_sub runner check route) lid (hw_sub h) = Inr ref0"
    and enc: "encode_ref codec b = Inr ref0" "pb_route b = to_provider_route route"
    and ref: "hybrid_binding_ref runner check codec lid h = Inr ref"
  shows "ref = ref0"
proof -
  have "b\<lparr>pb_route := to_provider_route route\<rparr> = b" using enc(2) by simp
  then show ?thesis
    using ref route sub encode_decode_ref [OF codec enc(1)] enc(1) by (simp add: hybrid_binding_ref_def)
qed

lemma hybrid_restore_fresh:
  assumes "decode_ref codec ref = Inr b" and "pb_lease_id b = lid" and "of_provider_route (pb_route b) = Some route"
    and "pv_restore_provider_ref (hybrid_sub runner check route) lid ref w0 = (Inr (), w2)"
  shows "hybrid_restore runner check codec lid ref \<lparr>hw_routes = [], hw_sub = w0\<rparr>
    = (Inr (), \<lparr>hw_routes = [(lid, route)], hw_sub = w2\<rparr>)"
  using assms by (simp add: hybrid_restore_def)

definition rota_provisioner ::
  "'e cloudflare_engine \<Rightarrow> 'e northflank_engine \<Rightarrow> binding_codec \<Rightarrow> 'e box_world hybrid_world provisioner" where
  "rota_provisioner cf nf codec =
     hybrid_provisioner (cloudflare_provisioner cf codec) (northflank_provisioner nf codec) codec"

text \<open>What the provisioning left behind: a recorded route, and under it a bound handle whose registered mode is
  the one of that route.\<close>

lemma rota_provision_bound:
  assumes "pv_provision (rota_provisioner cf nf codec) lid spec h = (Inr (), h1)"
  shows "\<exists>route c. hm_get (hw_routes h1) lid = Some route \<and> reg_resolve (bw_registry (hw_sub h1)) lid = Some c
    \<and> reg_route (bw_registry (hw_sub h1)) lid = Inr (to_provider_route route)"
proof -
  let ?route = "hybrid_route_for spec"
  let ?pair = "pv_provision (hybrid_sub (cloudflare_provisioner cf codec) (northflank_provisioner nf codec) ?route) lid spec (hw_sub h)"
  obtain r w1 where pair: "?pair = (r, w1)" by (cases ?pair)
  then have h1: "h1 = h\<lparr>hw_routes := hm_insert lid ?route (hw_routes h), hw_sub := w1\<rparr>" and r: "r = Inr ()"
    using assms by (auto simp: rota_provisioner_def hybrid_provisioner_def hybrid_provision_def Let_def lift_sub_def)
  consider (cf) "cs_allow_egress spec \<or> is_check_host_spec spec" | (nf) "\<not> cs_allow_egress spec" "\<not> is_check_host_spec spec"
    by blast
  then show ?thesis
  proof cases
    case cf
    then have "?route = (if is_check_host_spec spec then HybridCheckHost else HybridRunner)"
      by (auto simp: hybrid_route_for_def is_check_host_spec_def)
    moreover from this pair r have "cloudflare_provision cf lid spec (hw_sub h) = (Inr (), w1)"
      by (auto simp: hybrid_sub_def cloudflare_provisioner_def split: if_splits)
    from cloudflare_provision_bound [OF this cf] obtain c where "reg_resolve (bw_registry w1) lid = Some c"
      "reg_route (bw_registry w1) lid = Inr (if is_check_host_spec spec then CheckHostRoute else RunnerRoute)" by blast
    ultimately show ?thesis unfolding h1 by (auto split: if_splits)
  next
    case nf
    then have route: "?route = HybridCheck" "northflank_route spec = CheckRoute"
      by (simp_all add: hybrid_route_for_def northflank_route_def)
    with pair r have "northflank_provision nf lid spec (hw_sub h) = (Inr (), w1)"
      by (simp add: hybrid_sub_def northflank_provisioner_def)
    from northflank_provision_bound [OF this] route show ?thesis unfolding h1 by auto
  qed
qed

lemma sub_descriptor:
  assumes href: "hybrid_binding_ref (cloudflare_provisioner cf codec) (northflank_provisioner nf codec) codec lid h1 = Inr ref"
    and b: "hm_get (hw_routes h1) lid = Some route" "reg_resolve (bw_registry (hw_sub h1)) lid = Some c"
      "reg_route (bw_registry (hw_sub h1)) lid = Inr (to_provider_route route)"
  shows "\<exists>bd ref0. encode_ref codec bd = Inr ref0 \<and> pb_route bd = to_provider_route route \<and> pb_lease_id bd = lid
    \<and> pv_provider_ref (hybrid_sub (cloudflare_provisioner cf codec) (northflank_provisioner nf codec) route) lid (hw_sub h1) = Inr ref0"
proof (cases route)
  case HybridCheck
  with b href show ?thesis
    by (auto simp: hybrid_binding_ref_def hybrid_sub_def northflank_provisioner_def northflank_binding_ref_def
        split: sum.splits)
next
  case HybridRunner
  with b href show ?thesis
    by (auto simp: hybrid_binding_ref_def hybrid_sub_def cloudflare_provisioner_def cloudflare_binding_ref_def Let_def
        split: sum.splits)
next
  case HybridCheckHost
  with b href show ?thesis
    by (auto simp: hybrid_binding_ref_def hybrid_sub_def cloudflare_provisioner_def cloudflare_binding_ref_def Let_def
        split: sum.splits)
qed

lemma sub_restore:
  assumes codec: "\<And>b. bc_of_json codec (bc_to_json codec b) = Some b"
    and sub: "pv_provider_ref (hybrid_sub (cloudflare_provisioner cf codec) (northflank_provisioner nf codec) route) lid w = Inr ref"
    and b: "reg_resolve (bw_registry w) lid = Some c" "reg_route (bw_registry w) lid = Inr (to_provider_route route)"
  shows "pv_restore_provider_ref (hybrid_sub (cloudflare_provisioner cf codec) (northflank_provisioner nf codec) route) lid ref
      \<lparr>bw_registry = registry_new, bw_engine = e\<rparr>
    = (Inr (), \<lparr>bw_registry = \<lparr>re_boxes = [(lid, c)], re_no_box = {}, re_modes = [(lid, to_provider_route route)]\<rparr>, bw_engine = e\<rparr>)"
proof (cases route)
  case HybridCheck
  with sub have "northflank_binding_ref nf codec lid w = Inr ref" by (simp add: hybrid_sub_def northflank_provisioner_def)
  from northflank_restore_fresh [OF codec this, of e] b HybridCheck show ?thesis
    by (simp add: hybrid_sub_def northflank_provisioner_def)
next
  case HybridRunner
  with sub have "cloudflare_binding_ref cf codec lid w = Inr ref" by (simp add: hybrid_sub_def cloudflare_provisioner_def)
  from cloudflare_restore_fresh [OF codec this b, of e] HybridRunner show ?thesis
    by (simp add: hybrid_sub_def cloudflare_provisioner_def)
next
  case HybridCheckHost
  with sub have "cloudflare_binding_ref cf codec lid w = Inr ref" by (simp add: hybrid_sub_def cloudflare_provisioner_def)
  from cloudflare_restore_fresh [OF codec this b, of e] HybridCheckHost show ?thesis
    by (simp add: hybrid_sub_def cloudflare_provisioner_def)
qed

text \<open>C0: A restart does not lose a box. Whatever kind of lease the hybrid provisioner provisioned, the
  descriptor it gives for the ledger lets a process with an empty registry restore the same handle under the
  same route, so that its tear-down sends the same request to the same cloud as the one of the process that
  spawned the box.\<close>

theorem restart_finds_box:
  assumes codec: "\<And>b. bc_of_json codec (bc_to_json codec b) = Some b"
    and prov: "pv_provision (rota_provisioner cf nf codec) lid spec h = (Inr (), h1)"
    and ref: "pv_provider_ref (rota_provisioner cf nf codec) lid h1 = Inr ref"
  shows "\<exists>h2. pv_restore_provider_ref (rota_provisioner cf nf codec) lid ref
        \<lparr>hw_routes = [], hw_sub = \<lparr>bw_registry = registry_new, bw_engine = e\<rparr>\<rparr> = (Inr (), h2)
    \<and> hm_get (hw_routes h2) lid = hm_get (hw_routes h1) lid
    \<and> reg_resolve (bw_registry (hw_sub h2)) lid = reg_resolve (bw_registry (hw_sub h1)) lid
    \<and> fst (pv_teardown (rota_provisioner cf nf codec) lid h2)
        = fst (pv_teardown (rota_provisioner cf nf codec) lid (h1\<lparr>hw_sub := (hw_sub h1)\<lparr>bw_engine := e\<rparr>\<rparr>))"
proof -
  let ?cf = "cloudflare_provisioner cf codec" and ?nf = "northflank_provisioner nf codec"
  from rota_provision_bound [OF prov] obtain route c where b:
    "hm_get (hw_routes h1) lid = Some route" "reg_resolve (bw_registry (hw_sub h1)) lid = Some c"
    "reg_route (bw_registry (hw_sub h1)) lid = Inr (to_provider_route route)" by blast
  let ?w2 = "\<lparr>bw_registry = \<lparr>re_boxes = [(lid, c)], re_no_box = {}, re_modes = [(lid, to_provider_route route)]\<rparr>, bw_engine = e\<rparr>"
  have href: "hybrid_binding_ref ?cf ?nf codec lid h1 = Inr ref"
    using ref by (simp add: rota_provisioner_def hybrid_provisioner_def)
  obtain bd ref0 where bd: "encode_ref codec bd = Inr ref0" "pb_route bd = to_provider_route route" "pb_lease_id bd = lid"
    and sub: "pv_provider_ref (hybrid_sub ?cf ?nf route) lid (hw_sub h1) = Inr ref0"
    using sub_descriptor [OF href b] by blast
  have eq: "ref = ref0" by (rule hybrid_ref_is_sub_ref [OF codec b(1) sub bd(1,2) href])
  have "pv_restore_provider_ref (hybrid_sub ?cf ?nf route) lid ref \<lparr>bw_registry = registry_new, bw_engine = e\<rparr> = (Inr (), ?w2)"
    using sub_restore [OF codec sub b(2,3)] eq by simp
  moreover have "of_provider_route (pb_route bd) = Some route" using bd(2) by (cases route) simp_all
  ultimately have "hybrid_restore ?cf ?nf codec lid ref \<lparr>hw_routes = [], hw_sub = \<lparr>bw_registry = registry_new, bw_engine = e\<rparr>\<rparr>
      = (Inr (), \<lparr>hw_routes = [(lid, route)], hw_sub = ?w2\<rparr>)"
    using encode_decode_ref [OF codec bd(1)] bd(3) eq by (intro hybrid_restore_fresh) auto
  then show ?thesis using b
    by (cases route) (auto simp: rota_provisioner_def hybrid_provisioner_def reg_resolve_def hybrid_sub_def lift_sub_def
        cloudflare_provisioner_def cloudflare_teardown_def northflank_provisioner_def northflank_teardown_def
        check_mode_def reg_route_def split: prod.split)
qed

text \<open>A codec that reads back what it writes, and engines that always succeed.\<close>

fun enc_field :: "string \<Rightarrow> string" where
  "enc_field [] = ''.''"
| "enc_field (c # s) = CHR '' '' # c # enc_field s"

fun dec_field :: "string \<Rightarrow> (string \<times> string) option" where
  "dec_field [] = None"
| "dec_field (x # r) =
     (if x = CHR ''.'' then Some ([], r)
      else case r of [] \<Rightarrow> None
           | c # r2 \<Rightarrow> (case dec_field r2 of None \<Rightarrow> None | Some (s, t) \<Rightarrow> Some (c # s, t)))"

lemma dec_enc_field: "dec_field (enc_field s @ t) = Some (s, t)"
  by (induction s) simp_all

definition sample_to_json :: "provider_binding \<Rightarrow> string" where
  "sample_to_json b = enc_field (pb_lease_id b)
     @ enc_field (case pb_backend b of Cloudflare \<Rightarrow> ''c'' | Northflank \<Rightarrow> ''n'' | NoBoxBackend \<Rightarrow> ''o'')
     @ enc_field (case pb_route b of RunnerRoute \<Rightarrow> ''r'' | CheckRoute \<Rightarrow> ''c'' | CheckHostRoute \<Rightarrow> ''h'' | NoBoxRoute \<Rightarrow> ''o'')
     @ enc_field (case pb_handle b of None \<Rightarrow> [] | Some h \<Rightarrow> CHR ''x'' # h) @ enc_field (pb_domain b)"

definition sample_of_json :: "string \<Rightarrow> provider_binding option" where
  "sample_of_json v =
     (case dec_field v of None \<Rightarrow> None | Some (lid, v) \<Rightarrow>
     (case dec_field v of None \<Rightarrow> None | Some (be, v) \<Rightarrow>
     (case dec_field v of None \<Rightarrow> None | Some (ro, v) \<Rightarrow>
     (case dec_field v of None \<Rightarrow> None | Some (ha, v) \<Rightarrow>
     (case dec_field v of None \<Rightarrow> None | Some (domn, v) \<Rightarrow>
        Some \<lparr>pb_lease_id = lid,
              pb_backend = (if be = ''c'' then Cloudflare else if be = ''n'' then Northflank else NoBoxBackend),
              pb_route = (if ro = ''r'' then RunnerRoute else if ro = ''c'' then CheckRoute
                          else if ro = ''h'' then CheckHostRoute else NoBoxRoute),
              pb_handle = (case ha of [] \<Rightarrow> None | x # h \<Rightarrow> Some h), pb_domain = domn\<rparr>)))))"

definition sample_codec :: binding_codec where
  "sample_codec = \<lparr>bc_to_json = sample_to_json, bc_of_json = sample_of_json\<rparr>"

lemma sample_codec_roundtrip: "bc_of_json sample_codec (bc_to_json sample_codec b) = Some b"
  by (cases b) (auto simp: sample_codec_def sample_to_json_def sample_of_json_def dec_enc_field dec_enc_field [of _ "[]", simplified]
      split: provider_backend.splits provider_route.splits option.splits)

definition sample_cf :: "unit cloudflare_engine" where
  "sample_cf = \<lparr>ce_provider_domain = ''https://w.example'', ce_spawn = (\<lambda>spec e. (Inr \<lparr>rc_name = ''do-1''\<rparr>, e)),
     ce_teardown_with_mode = (\<lambda>c m e. (Inr (), e)), ce_is_alive_with_mode = (\<lambda>c m e. (Inr True, e))\<rparr>"

definition sample_nf :: "unit northflank_engine" where
  "sample_nf = \<lparr>ne_provider_domain = Inr ''https://n.example'', ne_spawn = (\<lambda>spec e. (Inr \<lparr>rc_name = ''job-1''\<rparr>, e)),
     ne_delete_job = (\<lambda>c e. (Inr (), e)), ne_is_alive = (\<lambda>c e. (Inr True, e))\<rparr>"

definition sample_spec :: container_spec where
  "sample_spec = \<lparr>cs_name = ''hugit-job-lease-1'', cs_image = sample_ref, cs_tmp_root = ''/t'', cs_no_network = False,
     cs_allow_egress = True, cs_run_on_create = True, cs_path_set = [], cs_env = []\<rparr>"

definition empty_world :: "unit box_world hybrid_world" where
  "empty_world = \<lparr>hw_routes = [], hw_sub = \<lparr>bw_registry = registry_new, bw_engine = ()\<rparr>\<rparr>"

definition sample_world :: "unit box_world hybrid_world" where
  "sample_world = \<lparr>hw_routes = [(''lease-1'', HybridRunner)],
     hw_sub = \<lparr>bw_registry = \<lparr>re_boxes = [(''lease-1'', \<lparr>rc_name = ''do-1''\<rparr>)], re_no_box = {},
       re_modes = [(''lease-1'', RunnerRoute)]\<rparr>, bw_engine = ()\<rparr>\<rparr>"

lemma sample_provisioned:
  "pv_provision (rota_provisioner sample_cf sample_nf sample_codec) ''lease-1'' sample_spec empty_world = (Inr (), sample_world)"
  by code_simp

lemma sample_described:
  "pv_provider_ref (rota_provisioner sample_cf sample_nf sample_codec) ''lease-1'' sample_world =
     Inr ''provider-ref:v1: l e a s e - 1. c. r. x d o - 1. h t t p s : / / w . e x a m p l e.''"
  by code_simp

theorem restart_finds_box_witness:
  "\<exists>h2. pv_restore_provider_ref (rota_provisioner sample_cf sample_nf sample_codec) ''lease-1''
        ''provider-ref:v1: l e a s e - 1. c. r. x d o - 1. h t t p s : / / w . e x a m p l e.'' empty_world = (Inr (), h2)
     \<and> reg_resolve (bw_registry (hw_sub h2)) ''lease-1'' = Some \<lparr>rc_name = ''do-1''\<rparr>"
  using restart_finds_box [OF sample_codec_roundtrip sample_provisioned sample_described, of "()"]
  by (auto simp: empty_world_def sample_world_def reg_resolve_def)

end
