(* ===== verification/Settings.thy ===== *)
theory Settings
  imports Rust_Str
begin

text \<open>
  The settings that are read as bounded numbers: the intervals of the background sweeps
  (\<open>corelink-fabric-server/src/reaper.rs\<close>, \<open>pending_cleanup.rs\<close>) and the shard headers of the
  proxy (\<open>handlers/leases.rs\<close>). The environment and the headers are functions from names to values.
\<close>

section \<open>Numbers\<close>

text \<open>\<open>str::parse::<u32>\<close>: an optional plus sign, then at least one digit, without overflow.\<close>

definition parse_u32 :: "string \<Rightarrow> u32 option" where
  "parse_u32 s =
     (let ds = (case strip_prefix ''+'' s of Some r \<Rightarrow> r | None \<Rightarrow> s) in
      if ds = [] \<or> \<not> list_all is_digit ds then None
      else if read_digits ds < 2 ^ 32 then Some (of_nat (read_digits ds)) else None)"

lemma show_nat_no_plus: "strip_prefix ''+'' (show_nat n) = None"
proof -
  have "is_digit (hd (show_nat n))" using show_nat_digits [of n] show_nat_nonempty [of n] by (cases "show_nat n") simp_all
  then show ?thesis using show_nat_nonempty [of n]
    by (cases "show_nat n") (auto simp: strip_prefix_def is_digit_def)
qed

lemma parse_u32_show: "n < 2 ^ 32 \<Longrightarrow> parse_u32 (show_nat n) = Some (of_nat n)"
  by (simp add: parse_u32_def show_nat_no_plus show_nat_nonempty show_nat_digits read_show_nat)

lemma parse_u32_overflow: "2 ^ 32 \<le> n \<Longrightarrow> parse_u32 (show_nat n) = None"
  by (simp add: parse_u32_def show_nat_no_plus show_nat_nonempty show_nat_digits read_show_nat)


section \<open>Intervals\<close>

datatype setting_error = NotU32 string | ZeroNotAllowed

definition positive_u32 :: "string \<Rightarrow> setting_error + u32" where
  "positive_u32 v =
     (case parse_u32 (str_trim v) of
        None \<Rightarrow> Inl (NotU32 (str_trim v))
      | Some n \<Rightarrow> if n = 0 then Inl ZeroNotAllowed else Inr n)"

definition nonempty_setting :: "(string \<Rightarrow> string option) \<Rightarrow> string \<Rightarrow> string option" where
  "nonempty_setting get k = (case get k of Some v \<Rightarrow> if v = [] then None else Some v | None \<Rightarrow> None)"

text \<open>Durations in seconds.\<close>

definition reaper_config_from_env :: "(string \<Rightarrow> string option) \<Rightarrow> setting_error + u64" where
  "reaper_config_from_env get =
     (case nonempty_setting get ''FABRIC_REAP_INTERVAL_SECS'' of
        None \<Rightarrow> Inr 30
      | Some v \<Rightarrow> (case positive_u32 v of Inl e \<Rightarrow> Inl e | Inr n \<Rightarrow> Inr (ucast n)))"

definition crash_probe_config_from_env :: "(string \<Rightarrow> string option) \<Rightarrow> setting_error + u64 option" where
  "crash_probe_config_from_env get =
     (case nonempty_setting get ''FABRIC_CRASH_PROBE_INTERVAL_SECS'' of
        None \<Rightarrow> Inr None
      | Some v \<Rightarrow> (case positive_u32 v of Inl e \<Rightarrow> Inl e | Inr n \<Rightarrow> Inr (Some (ucast n))))"

definition DEFAULT_PENDING_MAX_AGE :: u64 where
  "DEFAULT_PENDING_MAX_AGE = 300"

definition pending_max_age_from_env :: "(string \<Rightarrow> string option) \<Rightarrow> setting_error + u64" where
  "pending_max_age_from_env get =
     (case nonempty_setting get ''FABRIC_PENDING_MAX_AGE_SECS'' of
        None \<Rightarrow> Inr DEFAULT_PENDING_MAX_AGE
      | Some v \<Rightarrow> (case positive_u32 v of Inl e \<Rightarrow> Inl e | Inr n \<Rightarrow> Inr (ucast n)))"

lemma positive_u32_show: "0 < n \<Longrightarrow> n < 2 ^ 32 \<Longrightarrow> str_trim v = show_nat n \<Longrightarrow> positive_u32 v = Inr (of_nat n)"
  by (auto simp: positive_u32_def parse_u32_show word_of_nat_eq_0_iff dest: dvd_imp_le)

lemma positive_u32_sound:
  assumes "positive_u32 v = Inr n"
  shows "0 < unat n \<and> unat n = read_digits (case strip_prefix ''+'' (str_trim v) of Some r \<Rightarrow> r | None \<Rightarrow> str_trim v)"
proof -
  let ?ds = "case strip_prefix ''+'' (str_trim v) of Some r \<Rightarrow> r | None \<Rightarrow> str_trim v"
  from assms have n: "n \<noteq> 0" "n = of_nat (read_digits ?ds)" "read_digits ?ds < 2 ^ 32"
    by (auto simp: positive_u32_def parse_u32_def Let_def split: option.splits if_splits)
  then have "unat n = read_digits ?ds" by (simp add: unat_of_nat_u32)
  moreover have "0 < unat n" using n(1) by (simp add: unat_gt_0)
  ultimately show ?thesis by simp
qed

text \<open>No sweep is ever configured to spin: an accepted interval is at least one second.\<close>

lemma interval_at_least_one:
  assumes "reaper_config_from_env get = Inr secs" shows "1 \<le> secs"
proof (cases "nonempty_setting get ''FABRIC_REAP_INTERVAL_SECS''")
  case None
  with assms show ?thesis by (simp add: reaper_config_from_env_def)
next
  case (Some v)
  with assms obtain n where "positive_u32 v = Inr n" "secs = ucast n"
    by (auto simp: reaper_config_from_env_def split: sum.splits)
  moreover from this positive_u32_sound have "n \<noteq> 0" by (metis less_irrefl unat_0)
  moreover have "unat (ucast n :: u64) = unat n"
    using unsigned_less [of n, where ?'a = nat] by (simp add: unsigned_ucast_eq take_bit_nat_eq_self)
  ultimately have "0 < unat secs" by (simp add: unat_gt_0)
  then show ?thesis by (simp add: word_le_nat_alt Suc_leI)
qed


section \<open>Shard headers\<close>

text \<open>\<open>HeaderValue::to_str\<close> accepts visible ASCII and the tab.\<close>

definition header_text :: "string \<Rightarrow> string option" where
  "header_text v = (if list_all (\<lambda>c. 32 \<le> byte c \<and> byte c \<le> 126 \<or> byte c = 9) v then Some v else None)"

definition header_u32 :: "(string \<Rightarrow> string option) \<Rightarrow> string \<Rightarrow> u32 option" where
  "header_u32 headers name =
     (case headers name of
        None \<Rightarrow> None
      | Some v \<Rightarrow> (case header_text v of None \<Rightarrow> None | Some s \<Rightarrow> parse_u32 (str_trim s)))"

definition HDR_NUM_SHARDS :: string where "HDR_NUM_SHARDS = ''x-fabricd-num-shards''"

definition HDR_SHARD :: string where "HDR_SHARD = ''x-fabricd-shard''"

definition parse_shard_headers :: "(string \<Rightarrow> string option) \<Rightarrow> (u32 \<times> u32) option" where
  "parse_shard_headers headers =
     (case header_u32 headers HDR_NUM_SHARDS of
        None \<Rightarrow> None
      | Some n \<Rightarrow>
          (let num_shards = max n 1;
               target_shard = (case header_u32 headers HDR_SHARD of Some k \<Rightarrow> k | None \<Rightarrow> 0) mod num_shards
           in Some (target_shard, num_shards)))"

lemma parse_shard_headers_range:
  assumes "parse_shard_headers headers = Some (k, n)" shows "0 < n \<and> k < n"
proof -
  from assms obtain m where n: "n = max m 1"
    and k: "k = (case header_u32 headers HDR_SHARD of Some k \<Rightarrow> k | None \<Rightarrow> 0) mod n"
    unfolding parse_shard_headers_def Let_def by (cases "header_u32 headers HDR_NUM_SHARDS") auto
  have "0 < n" unfolding n by (simp add: word_less_nat_alt unat_max_word)
  then show ?thesis unfolding k by (simp add: word_mod_less_divisor)
qed

end
