(* ===== verification/Fabric.thy ===== *)
theory Fabric
  imports Boxes Caps Usage_Push Envelope Shard Settings Plan_Store
begin

text \<open>
  The application state of the fabric server, \<open>AppState\<close> of \<open>corelink-fabric-server/src/app.rs\<close>:
  what it is wired to, the tables it keeps per lease, and its own methods. \<open>Arc<dyn LeaseLedger>\<close> is
  the record \<open>ledger_ops\<close> of the trait's methods over the backend's state; everything outside the
  process (clock, clouds, mints, the code host) works on one state \<open>'w\<close> that each call may change.
  Counters, log lines and the thread pools of the blocking calls are left out.
\<close>

section \<open>The ledger trait object\<close>

record 's ledger_ops =
  lo_get :: "'s \<Rightarrow> string \<Rightarrow> ledger_error + lease_record option"
  lo_by_tenant :: "'s \<Rightarrow> tenant_id \<Rightarrow> ledger_error + lease_record list"
  lo_held :: "'s \<Rightarrow> ledger_error + lease_record list"
  lo_transition :: "string \<Rightarrow> runner_state \<Rightarrow> u64 \<Rightarrow> (ledger_error, lease_record, 's) op"
  lo_try_admit_with_compute :: "lease_record \<Rightarrow> u32 \<Rightarrow> compute_gate option \<Rightarrow> (ledger_error, admit_outcome, 's) op"
  lo_claim_pending_cleanup :: "string \<Rightarrow> u64 \<Rightarrow> (ledger_error, lease_record option, 's) op"
  lo_claim_stale_pending_cleanup :: "u64 \<Rightarrow> u64 \<Rightarrow> (ledger_error, lease_record list, 's) op"
  lo_finish_pending_cleanup :: "string \<Rightarrow> (ledger_error, bool, 's) op"
  lo_bind_provider_ref :: "string \<Rightarrow> string \<Rightarrow> (ledger_error, lease_record, 's) op"
  lo_get_envelope_checkpoint :: "'s \<Rightarrow> string \<Rightarrow> ledger_error + string option"
  lo_record_tenant_suspension :: "string \<Rightarrow> u64 \<Rightarrow> (ledger_error, unit, 's) op"
  lo_set_tenant_suspended :: "string \<Rightarrow> bool \<Rightarrow> (ledger_error, unit, 's) op"
  lo_is_tenant_suspended_durable :: "'s \<Rightarrow> string \<Rightarrow> ledger_error + bool"
  lo_is_cross_instance_safe :: bool

text \<open>The in-memory ledger behind the trait; the outbox of suspension events keeps its refusing default.\<close>

definition mem_ops :: "json_parser \<Rightarrow> in_memory_inner ledger_ops" where
  "mem_ops js =
     \<lparr>lo_get = mem_get, lo_by_tenant = mem_by_tenant, lo_held = mem_held, lo_transition = mem_transition,
      lo_try_admit_with_compute = mem_try_admit_with_compute,
      lo_claim_pending_cleanup = mem_claim_pending_cleanup,
      lo_claim_stale_pending_cleanup = mem_claim_stale_pending_cleanup,
      lo_finish_pending_cleanup = mem_finish_pending_cleanup,
      lo_bind_provider_ref = mem_bind_provider_ref js,
      lo_get_envelope_checkpoint = mem_get_envelope_checkpoint,
      lo_record_tenant_suspension = (\<lambda>t now s. case mem_set_tenant_suspended t True s of
          (Inl e, s') \<Rightarrow> (Inl e, s')
        | (Inr u, s') \<Rightarrow> (Inl (Unsupported ''tenant suspension event outbox''), s')),
      lo_set_tenant_suspended = mem_set_tenant_suspended,
      lo_is_tenant_suspended_durable = mem_is_tenant_suspended_durable,
      lo_is_cross_instance_safe = False\<rparr>"


section \<open>Wiring\<close>

datatype runner_target = RepoTarget string string | OrgTarget string

record runner_scope =
  rs_target :: runner_target
  rs_labels :: "string list"

datatype ac_outcome = AcHit string | AcMiss | AcFailClosed string

datatype admission_mode = RejectMode | QueueMode

record 'w cas_mint =
  cm_mint :: "string \<Rightarrow> string option \<Rightarrow> string \<Rightarrow> string \<Rightarrow> u64 \<Rightarrow> u64 \<Rightarrow> (string, minted_pat, 'w) op"
  cm_revoke :: "string \<Rightarrow> (string, unit, 'w) op"

record 'w services =
  fb_binding_of_json :: "string \<Rightarrow> provider_binding option"
  fb_clock :: "'w \<Rightarrow> u64 \<times> 'w"
  fb_instant :: "'w \<Rightarrow> nat \<times> 'w"
  fb_mint_lease_id :: "'w \<Rightarrow> string \<times> 'w"
  fb_mint_ready :: "'w \<Rightarrow> bool \<times> 'w"
  fb_ac_lookup :: "string \<Rightarrow> string \<Rightarrow> 'w \<Rightarrow> ac_outcome \<times> 'w"
  fb_resolve_plan :: "tenant_id \<Rightarrow> string \<Rightarrow> string option \<Rightarrow> 'w \<Rightarrow> plan_resolve \<times> 'w"
  fb_ceiling_of :: "'w \<Rightarrow> tenant_id \<Rightarrow> u64"
  fb_runner_broker :: "(runner_scope \<Rightarrow> (string, string, 'w) op) option"
  fb_cas_pat_mint :: "'w cas_mint option"
  fb_cred_signer :: "(string \<Rightarrow> string) option"
  fb_ingest_token :: "string \<Rightarrow> string"
  fb_clw_endpoint :: "string option"
  fb_public_base :: "string option"
  fb_runner_vcpu :: "u32 option"
  fb_admission_mode :: admission_mode
  fb_blake3 :: "string \<Rightarrow> string"
  fb_memo_key :: "string \<Rightarrow> string \<Rightarrow> string \<Rightarrow> string"
  fb_metrics_of_json :: "string \<Rightarrow> intent_metrics option"
  fb_to_lowercase :: "string \<Rightarrow> string"

record ('s, 'w) wiring = "'w services" +
  fb_ledger :: "'s ledger_ops"
  fb_provisioner :: "'w provisioner"


section \<open>State\<close>

record stashed_cred =
  sc_token :: string
  sc_endpoint :: string
  sc_tenant :: string

record hook_entry =
  he_tenant :: tenant_id
  he_hook :: hook_inner
  he_credential :: string
  he_price :: price_card

datatype agent_step_state = StepRunning | StepDone string | StepFailed string

record agent_step_entry =
  as_lease_id :: string
  as_state :: agent_step_state

text \<open>The field \<open>ap_boxes\<close> is not in the program: it holds the leases for which provisioning was
  invoked and whose box no provider has since confirmed destroyed.\<close>

record ('s, 'w) app_state =
  ap_ledger :: 's
  ap_world :: 'w
  ap_slot_meter :: slot_meter
  ap_billing_target :: "push_target option"
  ap_rate_windows :: "(tenant_id, rate_window) hmap"
  ap_suspended_tenants :: "string set"
  ap_images :: "(string, string) hmap"
  ap_runner_leases :: "string set"
  ap_agent_leases :: "string set"
  ap_agent_steps :: "(string, agent_step_entry) hmap"
  ap_toolchain_digests :: "(string, string) hmap"
  ap_pat_ids :: "(string, string) hmap"
  ap_pending_cred :: "(string, stashed_cred) hmap"
  ap_hook_registry :: "(string, hook_entry) hmap"
  ap_this_shard :: u32
  ap_num_shards :: u32
  ap_boxes :: "string set"

definition SHARD_UNKNOWN :: u32 where
  "SHARD_UNKNOWN = - 1"

definition app_new :: "'s \<Rightarrow> 'w \<Rightarrow> push_target option \<Rightarrow> ('s, 'w) app_state" where
  "app_new s w target =
     \<lparr>ap_ledger = s, ap_world = w, ap_slot_meter = slot_meter_new, ap_billing_target = target,
      ap_rate_windows = [], ap_suspended_tenants = {}, ap_images = [], ap_runner_leases = {},
      ap_agent_leases = {}, ap_agent_steps = [], ap_toolchain_digests = [], ap_pat_ids = [],
      ap_pending_cred = [], ap_hook_registry = [], ap_this_shard = SHARD_UNKNOWN, ap_num_shards = 1,
      ap_boxes = {}\<rparr>"

text \<open>A call that only the world sees, and a call of the ledger.\<close>

definition with_world :: "('w \<Rightarrow> 'x \<times> 'w) \<Rightarrow> ('s, 'w) app_state \<Rightarrow> 'x \<times> ('s, 'w) app_state" where
  "with_world f a = (case f (ap_world a) of (x, w) \<Rightarrow> (x, a\<lparr>ap_world := w\<rparr>))"

definition with_ledger :: "('s \<Rightarrow> 'x \<times> 's) \<Rightarrow> ('s, 'w) app_state \<Rightarrow> 'x \<times> ('s, 'w) app_state" where
  "with_ledger f a = (case f (ap_ledger a) of (x, s) \<Rightarrow> (x, a\<lparr>ap_ledger := s\<rparr>))"

definition now_ms :: "('s, 'w) wiring \<Rightarrow> ('s, 'w) app_state \<Rightarrow> u64 \<times> ('s, 'w) app_state" where
  "now_ms E a = with_world (fb_clock E) a"


section \<open>Shard identity and lease ids\<close>

definition observe_shard :: "u32 \<Rightarrow> u32 \<Rightarrow> ('s, 'w) app_state \<Rightarrow> ('s, 'w) app_state" where
  "observe_shard this_shard num_shards a = a\<lparr>ap_num_shards := max num_shards 1, ap_this_shard := this_shard\<rparr>"

definition set_boot_num_shards :: "u32 \<Rightarrow> ('s, 'w) app_state \<Rightarrow> ('s, 'w) app_state" where
  "set_boot_num_shards num_shards a = a\<lparr>ap_num_shards := max num_shards 1\<rparr>"

definition observed_shard :: "('s, 'w) app_state \<Rightarrow> u32 \<times> u32" where
  "observed_shard a = (ap_this_shard a, ap_num_shards a)"

definition observe_shard_from_headers ::
  "(string \<Rightarrow> string option) \<Rightarrow> ('s, 'w) app_state \<Rightarrow> ('s, 'w) app_state" where
  "observe_shard_from_headers headers a =
     (case parse_shard_headers headers of None \<Rightarrow> a | Some (k, n) \<Rightarrow> observe_shard k n a)"

definition acquire_shard_target :: "(string \<Rightarrow> string option) \<Rightarrow> ('s, 'w) app_state \<Rightarrow> u32 \<times> u32" where
  "acquire_shard_target headers a =
     (case parse_shard_headers headers of
        Some v \<Rightarrow> v
      | None \<Rightarrow> (let (k, n) = observed_shard a in (if k = SHARD_UNKNOWN then 0 else k, n)))"

definition SHARD_MINT_MAX_TRIES :: u32 where
  "SHARD_MINT_MAX_TRIES = 64"

definition mint_lease_id_for ::
  "('s, 'w) wiring \<Rightarrow> u32 \<Rightarrow> u32 \<Rightarrow> ('s, 'w) app_state \<Rightarrow> string \<times> ('s, 'w) app_state" where
  "mint_lease_id_for E target_shard num_shards a =
     with_world (mint_lease_id_for_shard target_shard num_shards SHARD_MINT_MAX_TRIES (fb_mint_lease_id E)) a"


section \<open>Suspension\<close>

definition is_tenant_suspended :: "('s, 'w) wiring \<Rightarrow> tenant_id \<Rightarrow> ('s, 'w) app_state \<Rightarrow> bool" where
  "is_tenant_suspended E t a \<longleftrightarrow>
     tenant_str t \<in> ap_suspended_tenants a
     \<or> (ap_num_shards a > 1
        \<and> lo_is_tenant_suspended_durable (fb_ledger E) (ap_ledger a) (tenant_str t) = Inr True)"

definition suspend_tenant_with_event ::
  "('s, 'w) wiring \<Rightarrow> tenant_id \<Rightarrow> u64 \<Rightarrow> (ledger_error, bool, ('s, 'w) app_state) op" where
  "suspend_tenant_with_event E t now a =
     (case with_ledger (lo_record_tenant_suspension (fb_ledger E) (tenant_str t) now) a of
        (Inl e, a) \<Rightarrow> (Inl e, a)
      | (Inr u, a) \<Rightarrow>
          (Inr (tenant_str t \<notin> ap_suspended_tenants a),
           a\<lparr>ap_suspended_tenants := insert (tenant_str t) (ap_suspended_tenants a)\<rparr>))"

definition unsuspend_tenant ::
  "('s, 'w) wiring \<Rightarrow> tenant_id \<Rightarrow> (ledger_error, bool, ('s, 'w) app_state) op" where
  "unsuspend_tenant E t a =
     (case with_ledger (lo_set_tenant_suspended (fb_ledger E) (tenant_str t) False) a of
        (Inl e, a) \<Rightarrow> (Inl e, a)
      | (Inr u, a) \<Rightarrow>
          (Inr (tenant_str t \<in> ap_suspended_tenants a),
           a\<lparr>ap_suspended_tenants := ap_suspended_tenants a - {tenant_str t}\<rparr>))"


section \<open>Tables per lease\<close>

definition stash_cred :: "string \<Rightarrow> stashed_cred \<Rightarrow> ('s, 'w) app_state \<Rightarrow> ('s, 'w) app_state" where
  "stash_cred lid cred a = a\<lparr>ap_pending_cred := hm_insert lid cred (ap_pending_cred a)\<rparr>"

definition take_cred :: "string \<Rightarrow> ('s, 'w) app_state \<Rightarrow> stashed_cred option \<times> ('s, 'w) app_state" where
  "take_cred lid a = (hm_get (ap_pending_cred a) lid, a\<lparr>ap_pending_cred := hm_remove lid (ap_pending_cred a)\<rparr>)"

definition mark_runner_lease :: "string \<Rightarrow> ('s, 'w) app_state \<Rightarrow> ('s, 'w) app_state" where
  "mark_runner_lease lid a = a\<lparr>ap_runner_leases := insert lid (ap_runner_leases a)\<rparr>"

definition is_runner_lease :: "string \<Rightarrow> ('s, 'w) app_state \<Rightarrow> bool" where
  "is_runner_lease lid a \<longleftrightarrow> lid \<in> ap_runner_leases a"

definition mark_agent_lease :: "string \<Rightarrow> ('s, 'w) app_state \<Rightarrow> ('s, 'w) app_state" where
  "mark_agent_lease lid a = a\<lparr>ap_agent_leases := insert lid (ap_agent_leases a)\<rparr>"

definition is_agent_lease :: "string \<Rightarrow> ('s, 'w) app_state \<Rightarrow> bool" where
  "is_agent_lease lid a \<longleftrightarrow> lid \<in> ap_agent_leases a"

definition agent_step_begin :: "string \<Rightarrow> string \<Rightarrow> ('s, 'w) app_state \<Rightarrow> ('s, 'w) app_state" where
  "agent_step_begin sid lid a =
     a\<lparr>ap_agent_steps := hm_insert sid \<lparr>as_lease_id = lid, as_state = StepRunning\<rparr> (ap_agent_steps a)\<rparr>"

definition agent_step_get :: "string \<Rightarrow> ('s, 'w) app_state \<Rightarrow> agent_step_entry option" where
  "agent_step_get sid a = hm_get (ap_agent_steps a) sid"

definition mark_toolchain_digest :: "string \<Rightarrow> string \<Rightarrow> ('s, 'w) app_state \<Rightarrow> ('s, 'w) app_state" where
  "mark_toolchain_digest lid digest a = a\<lparr>ap_toolchain_digests := hm_insert lid digest (ap_toolchain_digests a)\<rparr>"

definition toolchain_digest_of :: "string \<Rightarrow> ('s, 'w) app_state \<Rightarrow> string option" where
  "toolchain_digest_of lid a = hm_get (ap_toolchain_digests a) lid"

definition record_image :: "string \<Rightarrow> string \<Rightarrow> ('s, 'w) app_state \<Rightarrow> ('s, 'w) app_state" where
  "record_image lid image_digest a = a\<lparr>ap_images := hm_insert lid image_digest (ap_images a)\<rparr>"

definition image_of :: "string \<Rightarrow> ('s, 'w) app_state \<Rightarrow> string option" where
  "image_of lid a = hm_get (ap_images a) lid"

definition ZERO_PRICE :: price_card where
  "ZERO_PRICE = \<lparr>input_per_mtok_micros = 0, output_per_mtok_micros = 0,
     cache_read_per_mtok_micros = 0, cache_write_per_mtok_micros = 0\<rparr>"

definition register_priced ::
  "string \<Rightarrow> tenant_id \<Rightarrow> hook_inner \<Rightarrow> string \<Rightarrow> price_card \<Rightarrow> ('s, 'w) app_state \<Rightarrow> ('s, 'w) app_state" where
  "register_priced lid t hook credential price a =
     a\<lparr>ap_hook_registry := hm_insert lid \<lparr>he_tenant = t, he_hook = hook, he_credential = credential,
         he_price = price\<rparr> (ap_hook_registry a)\<rparr>"

definition register :: "string \<Rightarrow> tenant_id \<Rightarrow> hook_inner \<Rightarrow> string \<Rightarrow> ('s, 'w) app_state \<Rightarrow> ('s, 'w) app_state" where
  "register lid t hook credential a = register_priced lid t hook credential ZERO_PRICE a"

definition unregister :: "string \<Rightarrow> ('s, 'w) app_state \<Rightarrow> ('s, 'w) app_state" where
  "unregister lid a = a\<lparr>ap_hook_registry := hm_remove lid (ap_hook_registry a)\<rparr>"

definition close_handle :: "string \<Rightarrow> tenant_id \<Rightarrow> ('s, 'w) app_state \<Rightarrow> (hook_inner \<times> price_card) option" where
  "close_handle lid t a =
     (case hm_get (ap_hook_registry a) lid of
        None \<Rightarrow> None
      | Some e \<Rightarrow> if he_tenant e = t then Some (he_hook e, he_price e) else None)"

definition close_handle_any :: "string \<Rightarrow> ('s, 'w) app_state \<Rightarrow> (hook_inner \<times> price_card) option" where
  "close_handle_any lid a = map_option (\<lambda>e. (he_hook e, he_price e)) (hm_get (ap_hook_registry a) lid)"

text \<open>The hook a handle shares with the registry, written back.\<close>

definition set_hook :: "string \<Rightarrow> hook_inner \<Rightarrow> ('s, 'w) app_state \<Rightarrow> ('s, 'w) app_state" where
  "set_hook lid h a =
     (case hm_get (ap_hook_registry a) lid of
        None \<Rightarrow> a
      | Some e \<Rightarrow> a\<lparr>ap_hook_registry := hm_insert lid (e\<lparr>he_hook := h\<rparr>) (ap_hook_registry a)\<rparr>)"


section \<open>Credentials\<close>

definition revoke_pat_for :: "('s, 'w) wiring \<Rightarrow> string \<Rightarrow> ('s, 'w) app_state \<Rightarrow> ('s, 'w) app_state" where
  "revoke_pat_for E lid a =
     (let a = a\<lparr>ap_pending_cred := hm_remove lid (ap_pending_cred a)\<rparr>;
          pat_id = hm_get (ap_pat_ids a) lid;
          a = a\<lparr>ap_pat_ids := hm_remove lid (ap_pat_ids a)\<rparr>
      in case (pat_id, fb_cas_pat_mint E) of
           (Some p, Some mint) \<Rightarrow> snd (with_world (cm_revoke mint p) a)
         | _ \<Rightarrow> a)"

datatype broker_result = JitConfig string | BrokerUnreachable | BrokerError string

definition mint_jit_offloaded ::
  "('s, 'w) wiring \<Rightarrow> runner_scope \<Rightarrow> ('s, 'w) app_state \<Rightarrow> broker_result \<times> ('s, 'w) app_state" where
  "mint_jit_offloaded E scope a =
     (case fb_runner_broker E of
        None \<Rightarrow> (BrokerUnreachable, a)
      | Some broker \<Rightarrow>
          (case with_world (broker scope) a of
             (Inl e, a) \<Rightarrow> (BrokerError e, a)
           | (Inr jit, a) \<Rightarrow> (JitConfig jit, a)))"


section \<open>Boxes\<close>

datatype provision_failure = BoxFailed box_error | BindFailed ledger_error

fun is_capacity_failure :: "provision_failure \<Rightarrow> bool" where
  "is_capacity_failure (BoxFailed e) = is_capacity_error e"
| "is_capacity_failure (BindFailed e) = False"

text \<open>The provider's part and the ledger's part of provisioning; other handlers run in between.\<close>

definition provision_box ::
  "('s, 'w) wiring \<Rightarrow> string \<Rightarrow> container_spec \<Rightarrow> (provision_failure, unit, ('s, 'w) app_state) op" where
  "provision_box E lid spec a =
     (let a = a\<lparr>ap_boxes := insert lid (ap_boxes a)\<rparr> in
      case with_world (pv_provision (fb_provisioner E) lid spec) a of
        (Inl e, a) \<Rightarrow> (Inl (BoxFailed e), a)
      | (Inr u, a) \<Rightarrow> (Inr (), a))"

definition provision_bind ::
  "('s, 'w) wiring \<Rightarrow> string \<Rightarrow> (provision_failure, unit, ('s, 'w) app_state) op" where
  "provision_bind E lid a =
     (case pv_provider_ref (fb_provisioner E) lid (ap_world a) of
        Inl e \<Rightarrow> (Inl (BoxFailed e), a)
      | Inr ref \<Rightarrow>
          (case with_ledger (lo_bind_provider_ref (fb_ledger E) lid ref) a of
             (Inl e, a) \<Rightarrow> (Inl (BindFailed e), a)
           | (Inr r, a) \<Rightarrow> (Inr (), a)))"

definition provision_lease ::
  "('s, 'w) wiring \<Rightarrow> string \<Rightarrow> container_spec \<Rightarrow> (provision_failure, unit, ('s, 'w) app_state) op" where
  "provision_lease E lid spec a =
     (case provision_box E lid spec a of
        (Inl e, a) \<Rightarrow> (Inl e, a)
      | (Inr u, a) \<Rightarrow> provision_bind E lid a)"

definition restore_lease :: "('s, 'w) wiring \<Rightarrow> string \<Rightarrow> (binding_error, unit, ('s, 'w) app_state) op" where
  "restore_lease E lid a =
     with_world (restore_for_operation (fb_binding_of_json E) (lo_get (fb_ledger E)) (ap_ledger a)
       (pv_restore_provider_ref (fb_provisioner E)) lid) a"

definition teardown_lease :: "('s, 'w) wiring \<Rightarrow> string \<Rightarrow> ('s, 'w) app_state \<Rightarrow> bool \<times> ('s, 'w) app_state" where
  "teardown_lease E lid a =
     (case restore_lease E lid a of
        (Inl e, a) \<Rightarrow> (False, a)
      | (Inr u, a) \<Rightarrow>
          (case with_world (pv_teardown (fb_provisioner E) lid) a of
             (Inl e, a) \<Rightarrow> (False, a)
           | (Inr u, a) \<Rightarrow> (True, a\<lparr>ap_boxes := ap_boxes a - {lid}\<rparr>)))"

definition teardown_pending_lease ::
  "('s, 'w) wiring \<Rightarrow> string \<Rightarrow> ('s, 'w) app_state \<Rightarrow> cleanup_teardown \<times> ('s, 'w) app_state" where
  "teardown_pending_lease E lid a =
     (case restore_lease E lid a of
        (Inl e, a) \<Rightarrow> (Unconfirmed, a)
      | (Inr u, a) \<Rightarrow>
          (case with_world (pv_teardown_pending (fb_provisioner E) lid) a of
             (v, a) \<Rightarrow> (v, if v = ConfirmedDestroyed then a\<lparr>ap_boxes := ap_boxes a - {lid}\<rparr> else a)))"

definition forget_pending_cleanup :: "('s, 'w) wiring \<Rightarrow> string \<Rightarrow> ('s, 'w) app_state \<Rightarrow> ('s, 'w) app_state" where
  "forget_pending_cleanup E lid a = a\<lparr>ap_world := pv_forget_pending_cleanup (fb_provisioner E) lid (ap_world a)\<rparr>"

definition probe_lease :: "('s, 'w) wiring \<Rightarrow> string \<Rightarrow> ('s, 'w) app_state \<Rightarrow> probe_status option \<times> ('s, 'w) app_state" where
  "probe_lease E lid a =
     (case restore_lease E lid a of
        (Inl e, a) \<Rightarrow> (None, a)
      | (Inr u, a) \<Rightarrow>
          (case with_world (pv_probe (fb_provisioner E) lid) a of
             (Inl e, a) \<Rightarrow> (None, a)
           | (Inr p, a) \<Rightarrow> (Some p, a)))"

definition forget_lease :: "('s, 'w) wiring \<Rightarrow> string \<Rightarrow> ('s, 'w) app_state \<Rightarrow> ('s, 'w) app_state" where
  "forget_lease E lid a =
     (let a = forget_pending_cleanup E lid a;
          a = a\<lparr>ap_images := hm_remove lid (ap_images a)\<rparr>;
          a = a\<lparr>ap_runner_leases := ap_runner_leases a - {lid}\<rparr>;
          a = a\<lparr>ap_agent_leases := ap_agent_leases a - {lid}\<rparr>;
          a = a\<lparr>ap_agent_steps := filter (\<lambda>(k, e). as_lease_id e \<noteq> lid) (ap_agent_steps a)\<rparr>;
          a = a\<lparr>ap_toolchain_digests := hm_remove lid (ap_toolchain_digests a)\<rparr>;
          a = unregister lid a;
          a = a\<lparr>ap_pat_ids := hm_remove lid (ap_pat_ids a)\<rparr>
      in a\<lparr>ap_pending_cred := hm_remove lid (ap_pending_cred a)\<rparr>)"


section \<open>Slot events\<close>

text \<open>The export to the billing target cannot fail: its only \<open>None\<close> is the panic of
  \<open>period_key\<close>, which no instant triggers.\<close>

definition record_slot_inner ::
  "('s, 'w) wiring \<Rightarrow> string \<Rightarrow> tenant_id \<Rightarrow> slot_event_kind \<Rightarrow> u64 option \<Rightarrow> ('s, 'w) app_state \<Rightarrow> ('s, 'w) app_state" where
  "record_slot_inner E lid t kind acquired_at_ms a =
     (let (at_ms, a) = now_ms E a;
          ev = \<lparr>se_tenant = t, se_lease_id = lid, se_kind = kind, se_at_ms = at_ms, se_acquired_at_ms = acquired_at_ms\<rparr>;
          a = a\<lparr>ap_slot_meter := sm_record ev (ap_slot_meter a)\<rparr>
      in case ap_billing_target a of
           None \<Rightarrow> a
         | Some target \<Rightarrow>
             (case push_export (fb_blake3 E) ev target of
                None \<Rightarrow> a
              | Some target' \<Rightarrow> a\<lparr>ap_billing_target := Some target'\<rparr>))"

definition record_slot ::
  "('s, 'w) wiring \<Rightarrow> string \<Rightarrow> tenant_id \<Rightarrow> slot_event_kind \<Rightarrow> ('s, 'w) app_state \<Rightarrow> ('s, 'w) app_state" where
  "record_slot E lid t kind a = record_slot_inner E lid t kind None a"

definition record_slot_terminal ::
  "('s, 'w) wiring \<Rightarrow> string \<Rightarrow> tenant_id \<Rightarrow> slot_event_kind \<Rightarrow> u64 option \<Rightarrow> ('s, 'w) app_state \<Rightarrow> ('s, 'w) app_state" where
  "record_slot_terminal E lid t kind acquired_at_ms a = record_slot_inner E lid t kind acquired_at_ms a"

end
