(* ===== verification/Reclaim.thy ===== *)
theory Reclaim
  imports Fabric
begin

text \<open>
  Everything that ends a lease: the fenced clean-up of unfinished admissions
  (\<open>corelink-fabric-server/src/pending_cleanup.rs\<close>), the expiry and crash sweeps (\<open>reaper.rs\<close>), the
  kill of a suspended tenant's leases (\<open>app.rs\<close>), and the status, cancel and close handlers
  (\<open>handlers/leases.rs\<close>, \<open>handlers/close.rs\<close>). A handler runs as one step; a refusal carries its error
  code, not its message.
\<close>

section \<open>Replies\<close>

datatype api_error = NotFound | OverCap | Invalid | FailClosed

datatype 'a reply = Ok200 'a | Refused api_error


section \<open>Unfinished admissions\<close>

datatype rollback_phase = BeforeProvision | AfterProvision

definition finish_claimed :: "('s, 'w) wiring \<Rightarrow> string \<Rightarrow> ('s, 'w) app_state \<Rightarrow> bool \<times> ('s, 'w) app_state" where
  "finish_claimed E lid a =
     (case with_ledger (lo_finish_pending_cleanup (fb_ledger E) lid) a of
        (Inr True, a) \<Rightarrow> (True, forget_pending_cleanup E lid a)
      | (r, a) \<Rightarrow> (False, a))"

definition rollback_pending_admission ::
  "('s, 'w) wiring \<Rightarrow> string \<Rightarrow> rollback_phase \<Rightarrow> ('s, 'w) app_state \<Rightarrow> bool \<times> ('s, 'w) app_state" where
  "rollback_pending_admission E lid phase a =
     (let (now, a) = now_ms E a in
      case with_ledger (lo_claim_pending_cleanup (fb_ledger E) lid now) a of
        (Inr (Some row), a) \<Rightarrow>
          (let (destroyed, a) =
             (case phase of
                BeforeProvision \<Rightarrow> (True, a)
              | AfterProvision \<Rightarrow>
                  (case teardown_pending_lease E (lr_lease_id row) a of (v, a) \<Rightarrow> (v = ConfirmedDestroyed, a)))
           in if destroyed then finish_claimed E (lr_lease_id row) a else (False, a))
      | (r, a) \<Rightarrow> (False, a))"

fun sweep_rows :: "('s, 'w) wiring \<Rightarrow> lease_record list \<Rightarrow> ('s, 'w) app_state \<Rightarrow> nat \<times> ('s, 'w) app_state" where
  "sweep_rows E [] a = (0, a)"
| "sweep_rows E (row # rows) a =
     (let lid = lr_lease_id row in
      case teardown_pending_lease E lid a of (v, a) \<Rightarrow>
        if v \<noteq> ConfirmedDestroyed then sweep_rows E rows a
        else (case finish_claimed E lid a of
                (False, a) \<Rightarrow> sweep_rows E rows a
              | (True, a) \<Rightarrow>
                  (case sweep_rows E rows (forget_lease E lid (revoke_pat_for E lid a)) of
                     (n, a) \<Rightarrow> (n + 1, a))))"

definition sweep_stale_pending :: "('s, 'w) wiring \<Rightarrow> u64 \<Rightarrow> ('s, 'w) app_state \<Rightarrow> nat \<times> ('s, 'w) app_state" where
  "sweep_stale_pending E max_age_ms a =
     (let (now, a) = now_ms E a in
      case with_ledger (lo_claim_stale_pending_cleanup (fb_ledger E) now max_age_ms) a of
        (Inl e, a) \<Rightarrow> (0, a)
      | (Inr rows, a) \<Rightarrow> sweep_rows E rows a)"


section \<open>Killing a tenant's leases\<close>

fun kill_loop :: "('s, 'w) wiring \<Rightarrow> tenant_id \<Rightarrow> string list \<Rightarrow> ('s, 'w) app_state \<Rightarrow> nat \<times> ('s, 'w) app_state" where
  "kill_loop E t [] a = (0, a)"
| "kill_loop E t (lid # lids) a =
     (case teardown_lease E lid a of (torn, a) \<Rightarrow>
        let a = revoke_pat_for E lid a in
        if \<not> torn then kill_loop E t lids a
        else let (now, a) = now_ms E a in
          (case with_ledger (lo_transition (fb_ledger E) lid Crashed now) a of
             (Inl e, a) \<Rightarrow> kill_loop E t lids a
           | (Inr r, a) \<Rightarrow>
               (case kill_loop E t lids (forget_lease E lid (record_slot E lid t SlotCrashed a)) of
                  (n, a) \<Rightarrow> (n + 1, a))))"

definition kill_tenant_leases :: "('s, 'w) wiring \<Rightarrow> tenant_id \<Rightarrow> ('s, 'w) app_state \<Rightarrow> nat \<times> ('s, 'w) app_state" where
  "kill_tenant_leases E t a =
     kill_loop E t
       (map lr_lease_id (filter (\<lambda>r. is_held (lr_state r))
         (case lo_by_tenant (fb_ledger E) (ap_ledger a) t of Inl e \<Rightarrow> [] | Inr rs \<Rightarrow> rs))) a"


section \<open>The partial envelope of an abnormal end\<close>

definition zero_intent_metrics :: intent_metrics where
  "zero_intent_metrics =
     \<lparr>im_tokens = \<lparr>tc_input = 0, tc_output = 0, tc_cache_read = 0, tc_cache_write = 0, tc_total = 0\<rparr>,
      im_wall_ms = 0, im_active_ms = 0, im_tool_calls = 0, im_tool_breakdown = [], im_model_turns = 0,
      im_cost_usd_micros = 0\<rparr>"

definition partial_outcome :: "abnormal_kind \<Rightarrow> intent_metrics \<Rightarrow> close_outcome" where
  "partial_outcome kind metrics = \<lparr>co_status = Killed, co_metrics = metrics, co_capture_incomplete = True,
     co_close_reason = reason_of kind\<rparr>"

definition flush_partial_envelope ::
  "('s, 'w) wiring \<Rightarrow> string \<Rightarrow> abnormal_kind \<Rightarrow> nat \<Rightarrow> ('s, 'w) app_state
     \<Rightarrow> close_outcome option \<times> ('s, 'w) app_state" where
  "flush_partial_envelope E lid kind died a =
     (case close_handle_any lid a of
        Some (hook, price) \<Rightarrow>
          (case close_abnormal kind died price hook of
             (Inr outcome, hook') \<Rightarrow> (Some outcome, set_hook lid hook' a)
           | (Inl e, hook') \<Rightarrow> (None, set_hook lid hook' a))
      | None \<Rightarrow>
          (case lo_get_envelope_checkpoint (fb_ledger E) (ap_ledger a) lid of
             Inr (Some json) \<Rightarrow>
               (case fb_metrics_of_json E json of
                  Some metrics \<Rightarrow> (Some (partial_outcome kind metrics), a)
                | None \<Rightarrow> (Some (partial_outcome kind zero_intent_metrics), a))
           | _ \<Rightarrow> (Some (partial_outcome kind zero_intent_metrics), a)))"


section \<open>The sweeps\<close>

text \<open>What the expiry and the crash sweep do with a lease they have picked, and whether it was reclaimed.\<close>

fun abnormal_state :: "abnormal_kind \<Rightarrow> runner_state" where
  "abnormal_state Expiry = Expired"
| "abnormal_state Crash = Crashed"

fun abnormal_slot :: "abnormal_kind \<Rightarrow> slot_event_kind" where
  "abnormal_slot Expiry = SlotExpired"
| "abnormal_slot Crash = SlotCrashed"

definition reclaim_one ::
  "('s, 'w) wiring \<Rightarrow> abnormal_kind \<Rightarrow> u64 \<Rightarrow> lease_record \<Rightarrow> ('s, 'w) app_state \<Rightarrow> bool \<times> ('s, 'w) app_state" where
  "reclaim_one E kind now rec a =
     (let lid = lr_lease_id rec in
      case teardown_lease E lid a of
        (False, a) \<Rightarrow> (False, a)
      | (True, a) \<Rightarrow>
          (case with_ledger (lo_transition (fb_ledger E) lid (abnormal_state kind) now) a of
             (Inl e, a) \<Rightarrow> (False, a)
           | (Inr r, a) \<Rightarrow>
               (let a = revoke_pat_for E lid a;
                    (died, a) = with_world (fb_instant E) a;
                    (env, a) = flush_partial_envelope E lid kind died a;
                    a = forget_lease E lid a
                in (True, record_slot_terminal E lid (lr_tenant rec) (abnormal_slot kind)
                            (lr_billing_acquired_at_ms rec) a))))"

definition held_or_empty :: "('s, 'w) wiring \<Rightarrow> ('s, 'w) app_state \<Rightarrow> lease_record list" where
  "held_or_empty E a = (case lo_held (fb_ledger E) (ap_ledger a) of Inl e \<Rightarrow> [] | Inr rs \<Rightarrow> rs)"

fun reap_loop :: "('s, 'w) wiring \<Rightarrow> u64 \<Rightarrow> lease_record list \<Rightarrow> ('s, 'w) app_state \<Rightarrow> nat \<times> ('s, 'w) app_state" where
  "reap_loop E now [] a = (0, a)"
| "reap_loop E now (rec # recs) a =
     (case reclaim_one E Expiry now rec a of (ok, a) \<Rightarrow>
        case reap_loop E now recs a of (n, a) \<Rightarrow> (if ok then n + 1 else n, a))"

definition is_overdue :: "u64 \<Rightarrow> lease_record \<Rightarrow> bool" where
  "is_overdue now rec \<longleftrightarrow> now \<ge> (case lr_deadline_ms rec of Some d \<Rightarrow> d | None \<Rightarrow> - 1)"

definition reap_once :: "('s, 'w) wiring \<Rightarrow> ('s, 'w) app_state \<Rightarrow> nat \<times> ('s, 'w) app_state" where
  "reap_once E a =
     (let (now, a) = now_ms E a in reap_loop E now (filter (is_overdue now) (held_or_empty E a)) a)"

fun crash_loop :: "('s, 'w) wiring \<Rightarrow> u64 \<Rightarrow> lease_record list \<Rightarrow> ('s, 'w) app_state \<Rightarrow> nat \<times> ('s, 'w) app_state" where
  "crash_loop E now [] a = (0, a)"
| "crash_loop E now (rec # recs) a =
     (case probe_lease E (lr_lease_id rec) a of (p, a) \<Rightarrow>
        if p \<noteq> Some Dead then crash_loop E now recs a
        else case reclaim_one E Crash now rec a of (ok, a) \<Rightarrow>
          case crash_loop E now recs a of (n, a) \<Rightarrow> (if ok then n + 1 else n, a))"

definition surface_crashes_once :: "('s, 'w) wiring \<Rightarrow> ('s, 'w) app_state \<Rightarrow> nat \<times> ('s, 'w) app_state" where
  "surface_crashes_once E a =
     (let (now, a) = now_ms E a in crash_loop E now (held_or_empty E a) a)"


section \<open>Status and cancel\<close>

definition lease_status ::
  "('s, 'w) wiring \<Rightarrow> tenant_id \<Rightarrow> string \<Rightarrow> ('s, 'w) app_state \<Rightarrow> (string \<times> runner_state) reply" where
  "lease_status E t lid a =
     (case lo_get (fb_ledger E) (ap_ledger a) lid of
        Inl e \<Rightarrow> Refused FailClosed
      | Inr None \<Rightarrow> Refused NotFound
      | Inr (Some rec) \<Rightarrow>
          if lr_tenant rec \<noteq> t then Refused NotFound
          else (case lr_state rec of Pending \<Rightarrow> Refused NotFound | Wire st \<Rightarrow> Ok200 (lr_lease_id rec, st)))"

definition cancel_lease ::
  "('s, 'w) wiring \<Rightarrow> tenant_id \<Rightarrow> string \<Rightarrow> ('s, 'w) app_state \<Rightarrow> string reply \<times> ('s, 'w) app_state" where
  "cancel_lease E t lid a =
     (case lo_get (fb_ledger E) (ap_ledger a) lid of
        Inl e \<Rightarrow> (Refused FailClosed, a)
      | Inr None \<Rightarrow> (Refused NotFound, a)
      | Inr (Some rec) \<Rightarrow>
          if lr_tenant rec \<noteq> t then (Refused NotFound, a)
          else (case lr_state rec of
              Pending \<Rightarrow> (Refused NotFound, a)
            | Wire Released \<Rightarrow> (Ok200 (lr_lease_id rec), a)
            | Wire Expired \<Rightarrow> (Refused Invalid, a)
            | Wire Crashed \<Rightarrow> (Refused Invalid, a)
            | Wire Held \<Rightarrow>
                (case teardown_lease E lid a of
                   (False, a) \<Rightarrow> (Refused FailClosed, a)
                 | (True, a) \<Rightarrow>
                     (let (now, a) = now_ms E a in
                      case with_ledger (lo_transition (fb_ledger E) lid Released now) a of
                        (Inl e, a) \<Rightarrow>
                          (case lo_get (fb_ledger E) (ap_ledger a) lid of
                             Inr (Some rec') \<Rightarrow>
                               if lr_state rec' = Wire Released then (Ok200 (lr_lease_id rec'), a) else (Refused FailClosed, a)
                           | _ \<Rightarrow> (Refused FailClosed, a))
                      | (Inr r, a) \<Rightarrow>
                          (Ok200 lid, forget_lease E lid (revoke_pat_for E lid (record_slot E lid t SlotReleased a)))))))"


section \<open>Close\<close>

record check_result =
  cr_tree_hash :: string
  cr_def_digest :: string
  cr_toolchain_digest :: string
  cr_memo_key :: string

record close_request =
  cq_status :: string
  cq_check_result :: "check_result option"
  cq_cost_usd_micros :: "u64 option"

record close_body =
  cb_lease_id :: string
  cb_capture_incomplete :: bool
  cb_metrics :: intent_metrics

definition parse_close_status :: "string \<Rightarrow> job_status option" where
  "parse_close_status s =
     (if s = ''succeeded'' then Some Succeeded else if s = ''failed'' then Some job_status.Failed else None)"

definition memo_key_honest :: "('s, 'w) wiring \<Rightarrow> check_result option \<Rightarrow> bool" where
  "memo_key_honest E res \<longleftrightarrow>
     (case res of None \<Rightarrow> True
      | Some r \<Rightarrow> cr_memo_key r = fb_memo_key E (cr_tree_hash r) (cr_def_digest r) (cr_toolchain_digest r))"

text \<open>What subscribers do to the hook while the close waits for its acknowledgement.\<close>

datatype subscriber_act = TakeEvent | TakeMeta | SendAck string

fun subscriber_step :: "subscriber_act \<Rightarrow> hook_inner \<Rightarrow> hook_inner" where
  "subscriber_step TakeEvent h = snd (next_event h)"
| "subscriber_step TakeMeta h = snd (next_meta h)"
| "subscriber_step (SendAck cred) h = snd (hook_ack cred h)"

text \<open>The close machinery on a lease: \<open>None\<close> is its refusal.\<close>

definition drive_close ::
  "job_status \<Rightarrow> nat \<Rightarrow> price_card \<Rightarrow> subscriber_act list \<Rightarrow> hook_inner \<Rightarrow> close_outcome option \<times> hook_inner" where
  "drive_close status died price acts h =
     (case close_publish status died price h of
        (Inl e, h) \<Rightarrow> (None, h)
      | (Inr metrics, h) \<Rightarrow>
          (case close_settle status metrics (fold subscriber_step acts h) of (out, h) \<Rightarrow> (Some out, h)))"

definition close_lease ::
  "('s, 'w) wiring \<Rightarrow> subscriber_act list \<Rightarrow> tenant_id \<Rightarrow> string \<Rightarrow> close_request \<Rightarrow> ('s, 'w) app_state
     \<Rightarrow> close_body reply \<times> ('s, 'w) app_state" where
  "close_lease E acts t lid req a =
     (case lo_get (fb_ledger E) (ap_ledger a) lid of
        Inl e \<Rightarrow> (Refused FailClosed, a)
      | Inr None \<Rightarrow> (Refused NotFound, a)
      | Inr (Some rec) \<Rightarrow>
          if lr_tenant rec \<noteq> t then (Refused NotFound, a)
          else if lr_state rec = Pending then (Refused NotFound, a)
          else if lr_state rec \<noteq> Wire Held then (Refused Invalid, a)
          else (case parse_close_status (cq_status req) of
              None \<Rightarrow> (Refused Invalid, a)
            | Some status \<Rightarrow>
                if \<not> memo_key_honest E (cq_check_result req) then (Refused Invalid, a)
                else (case teardown_lease E lid a of
                    (False, a) \<Rightarrow> (Refused FailClosed, a)
                  | (True, a) \<Rightarrow>
                      (let (closed, a) =
                         (case close_handle lid t a of
                            None \<Rightarrow> (Some (zero_intent_metrics, False), a)
                          | Some (hook, price) \<Rightarrow>
                              (let (died, a) = with_world (fb_instant E) a in
                               case drive_close status died price acts hook of
                                 (None, h) \<Rightarrow> (None, set_hook lid h a)
                               | (Some out, h) \<Rightarrow> (Some (co_metrics out, co_capture_incomplete out), set_hook lid h a)))
                       in case closed of
                            None \<Rightarrow> (Refused FailClosed, a)
                          | Some (metrics, incomplete) \<Rightarrow>
                              (let metrics = (case cq_cost_usd_micros req of
                                     Some cost \<Rightarrow> metrics\<lparr>im_cost_usd_micros := cost\<rparr> | None \<Rightarrow> metrics);
                                   (now, a) = now_ms E a
                               in case with_ledger (lo_transition (fb_ledger E) lid Released now) a of
                                    (Inl e, a) \<Rightarrow> (Refused FailClosed, a)
                                  | (Inr released, a) \<Rightarrow>
                                      (let a = unregister lid a;
                                           a = record_slot_terminal E lid t SlotReleased (lr_billing_acquired_at_ms released) a;
                                           a = forget_lease E lid (revoke_pat_for E lid a)
                                       in (Ok200 \<lparr>cb_lease_id = lid, cb_capture_incomplete = incomplete,
                                                  cb_metrics = metrics\<rparr>, a)))))))"

end
