(* ===== verification/Acquire.thy ===== *)
theory Acquire
  imports Reclaim
begin

text \<open>
  The acquire handler of \<open>corelink-fabric-server/src/handlers/leases.rs\<close>: its guards in order, the rate
  window, the minted lease and its container specification, the atomic reservation, and the finalisation that
  provisions the box. The finalisation is split where it calls the provider, so that other handlers can run in
  between; \<open>finalize_admitted_lease\<close> is the composition of the parts.
\<close>

section \<open>Requests\<close>

datatype runner_target_dto = RepoDto string string | OrgDto string

record runner_spec =
  rp_target :: runner_target_dto
  rp_labels :: "string list"

record acquire_request =
  aq_image_digest :: string
  aq_net_policy :: string
  aq_tmp_root :: string
  aq_expiry_ms :: u64
  aq_runner :: "runner_spec option"
  aq_toolchain_digest :: "string option"
  aq_agent :: "unit option"
  aq_repo_full_name :: "string option"
  aq_installation_id :: "string option"

record minted_lease =
  ml_lease_id :: string
  ml_lease :: runner_lease
  ml_spec :: container_spec

definition runner_scope_from_dto :: "runner_spec \<Rightarrow> runner_scope" where
  "runner_scope_from_dto r =
     \<lparr>rs_target = (case rp_target r of RepoDto owner repo \<Rightarrow> RepoTarget owner repo | OrgDto org \<Rightarrow> OrgTarget org),
      rs_labels = rp_labels r\<rparr>"

fun canonical_target :: "(string \<Rightarrow> string) \<Rightarrow> runner_target \<Rightarrow> string" where
  "canonical_target lower (RepoTarget owner repo) = ''repo:'' @ lower owner @ ''/'' @ lower repo"
| "canonical_target lower (OrgTarget org) = ''org:'' @ lower org"


section \<open>Guards\<close>

definition MAX_EXPIRY_MS :: u64 where
  "MAX_EXPIRY_MS = 3600000"

definition clamp_expiry :: "acquire_request \<Rightarrow> acquire_request" where
  "clamp_expiry req = req\<lparr>aq_expiry_ms := min (aq_expiry_ms req) MAX_EXPIRY_MS\<rparr>"

definition mode_guards :: "('s, 'w) wiring \<Rightarrow> acquire_request \<Rightarrow> bool" where
  "mode_guards E req \<longleftrightarrow>
     \<not> (aq_runner req \<noteq> None \<and> fb_runner_broker E = None)
     \<and> \<not> (aq_runner req \<noteq> None \<and> \<not> pv_binds_boxes (fb_provisioner E))
     \<and> \<not> (aq_agent req \<noteq> None \<and> aq_runner req \<noteq> None)
     \<and> \<not> (aq_agent req \<noteq> None \<and> \<not> pv_binds_boxes (fb_provisioner E))"

text \<open>Everything before the action cache: the instant, the shard to mint for, and the clamped request.\<close>

definition acquire_preflight ::
  "('s, 'w) wiring \<Rightarrow> tenant_id \<Rightarrow> (string \<Rightarrow> string option) \<Rightarrow> acquire_request
     \<Rightarrow> (api_error, u64 \<times> (u32 \<times> u32) \<times> acquire_request, ('s, 'w) app_state) op" where
  "acquire_preflight E t headers req a =
     (case with_world (fb_mint_ready E) a of
        (False, a) \<Rightarrow> (Inl FailClosed, a)
      | (True, a) \<Rightarrow>
          (let (now, a) = now_ms E a;
               a = observe_shard_from_headers headers a;
               (shard_target, num_shards) = acquire_shard_target headers a
           in if num_shards > 1 \<and> \<not> lo_is_cross_instance_safe (fb_ledger E) then (Inl FailClosed, a)
              else if is_tenant_suspended E t a then (Inl OverCap, a)
              else let req = clamp_expiry req in
                if \<not> mode_guards E req then (Inl Invalid, a)
                else (Inr (now, (shard_target, num_shards), req), a)))"

definition acquire_plan ::
  "('s, 'w) wiring \<Rightarrow> tenant_id \<Rightarrow> string \<Rightarrow> string option \<Rightarrow> (api_error, tenant_plan, ('s, 'w) app_state) op" where
  "acquire_plan E t pat cached a =
     (case with_world (fb_resolve_plan E t pat cached) a of
        (PlanOk (Some p), a) \<Rightarrow> (Inr p, a)
      | (PlanOk None, a) \<Rightarrow> (Inl OverCap, a)
      | (ResolveUnreachable, a) \<Rightarrow> (Inl FailClosed, a)
      | (ResolveShed, a) \<Rightarrow> (Inl FailClosed, a)
      | (ResolvePanicked, a) \<Rightarrow> (Inl FailClosed, a))"

definition runner_target_permitted :: "('s, 'w) wiring \<Rightarrow> tenant_plan \<Rightarrow> acquire_request \<Rightarrow> bool" where
  "runner_target_permitted E plan req \<longleftrightarrow>
     (case aq_runner req of
        None \<Rightarrow> True
      | Some r \<Rightarrow>
          (let target = canonical_target (fb_to_lowercase E) (rs_target (runner_scope_from_dto r)) in
           list_ex (\<lambda>entry. fb_to_lowercase E (str_trim entry) = target) (tp_repo_allowlist plan)))"


section \<open>The rate window\<close>

definition effective_ceiling :: "u32 \<Rightarrow> u32 \<Rightarrow> nat" where
  "effective_ceiling ceiling num_shards =
     (if num_shards > 1 then (unat ceiling + unat num_shards - 1) div unat num_shards else unat ceiling)"

text \<open>Idle windows are evicted, the attempt is counted whatever the verdict.\<close>

definition rate_attempt ::
  "tenant_id \<Rightarrow> nat \<Rightarrow> u64 \<Rightarrow> (tenant_id, rate_window) hmap \<Rightarrow> bool \<times> (tenant_id, rate_window) hmap" where
  "rate_attempt t ceiling now windows =
     (let windows = filter (\<lambda>(u, w). u = t \<or> \<not> is_idle_at w now) windows;
          window = (case hm_get windows t of Some w \<Rightarrow> w | None \<Rightarrow> rate_window_new);
          over_rate = count_within_60s window now \<ge> ceiling
      in (over_rate, hm_insert t (rate_push now window) windows))"


section \<open>Minting\<close>

definition lease_net_policy :: "acquire_request \<Rightarrow> string" where
  "lease_net_policy req =
     (if aq_runner req \<noteq> None then ''egress-runner''
      else if aq_agent req \<noteq> None then ''egress-agent'' else aq_net_policy req)"

definition lease_of :: "tenant_id \<Rightarrow> string \<Rightarrow> u64 \<Rightarrow> acquire_request \<Rightarrow> runner_lease" where
  "lease_of t lid now req =
     \<lparr>rl_lease_id = lid, rl_principal_chain = [''tenant:'' @ tenant_str t], rl_path_set = [aq_tmp_root req],
      rl_expiry = sat_add now (aq_expiry_ms req), rl_net_policy = lease_net_policy req,
      rl_tmp_root = aq_tmp_root req, rl_state = Held\<rparr>"

definition spec_of :: "runner_lease \<Rightarrow> acquire_request \<Rightarrow> spec_error + container_spec" where
  "spec_of lease req =
     (if aq_runner req \<noteq> None then from_runner_lease lease (aq_image_digest req)
      else if aq_agent req \<noteq> None then from_agent_lease lease (aq_image_digest req)
      else from_lease lease (aq_image_digest req))"

text \<open>The lease, its specification with the injected environment, and the toolchain marker.\<close>

definition mint_lease ::
  "('s, 'w) wiring \<Rightarrow> tenant_id \<Rightarrow> u64 \<Rightarrow> u32 \<times> u32 \<Rightarrow> acquire_request
     \<Rightarrow> (api_error, minted_lease, ('s, 'w) app_state) op" where
  "mint_lease E t now shard req a =
     (let (lid, a) = mint_lease_id_for E (fst shard) (snd shard) a;
          lease = lease_of t lid now req
      in case spec_of lease req of
           Inl e \<Rightarrow> (Inl Invalid, a)
         | Inr spec \<Rightarrow>
             (let spec = (if aq_runner req = None \<and> aq_agent req = None
                          then inject_ingest_env_with (fb_public_base E) lid (fb_ingest_token E lid) spec else spec);
                  (spec, a) = (case aq_toolchain_digest req of
                     Some d \<Rightarrow> if aq_runner req = None
                               then (push_env ''TOOLCHAIN_DIGEST'' d spec, mark_toolchain_digest lid d a) else (spec, a)
                   | None \<Rightarrow> (spec, a))
              in (Inr \<lparr>ml_lease_id = lid, ml_lease = lease, ml_spec = spec\<rparr>, a)))"

definition pending_record :: "tenant_id \<Rightarrow> minted_lease \<Rightarrow> u64 \<Rightarrow> lease_record" where
  "pending_record t m now =
     \<lparr>lr_lease_id = ml_lease_id m, lr_tenant = t, lr_state = Pending, lr_box_ref = box_marker (ml_lease_id m),
      lr_created_at_ms = now, lr_updated_at_ms = now, lr_deadline_ms = Some (rl_expiry (ml_lease m)),
      lr_billing_acquired_at_ms = None\<rparr>"


section \<open>Reserving\<close>

datatype acquire_outcome =
    AcquireRefused api_error
  | AcquireCached nat
  | AcquireReserved minted_lease acquire_request
  | AcquireQueue minted_lease acquire_request

text \<open>The panic of \<open>period_key\<close> is answered like a failed gate.\<close>

definition reserve_slot ::
  "('s, 'w) wiring \<Rightarrow> tenant_id \<Rightarrow> tenant_plan \<Rightarrow> u64 \<Rightarrow> acquire_request \<Rightarrow> minted_lease
     \<Rightarrow> ('s, 'w) app_state \<Rightarrow> acquire_outcome \<times> ('s, 'w) app_state" where
  "reserve_slot E t plan now req m a =
     (case build_compute_gate (fb_runner_vcpu E) (fb_ceiling_of E (ap_world a)) t (aq_expiry_ms req) now of
        Some (Inr gate) \<Rightarrow>
          (case with_ledger (lo_try_admit_with_compute (fb_ledger E) (pending_record t m now) (tp_max_concurrency plan) gate) a of
             (Inr Admitted, a) \<Rightarrow> (AcquireReserved m req, a)
           | (Inr OverConcurrency, a) \<Rightarrow>
               (case fb_admission_mode E of RejectMode \<Rightarrow> (AcquireRefused OverCap, a) | QueueMode \<Rightarrow> (AcquireQueue m req, a))
           | (Inr OverCompute, a) \<Rightarrow> (AcquireRefused OverCap, a)
           | (Inl e, a) \<Rightarrow> (AcquireRefused FailClosed, a))
      | _ \<Rightarrow> (AcquireRefused FailClosed, a))"

definition acquire_admit ::
  "('s, 'w) wiring \<Rightarrow> tenant_id \<Rightarrow> tenant_plan \<Rightarrow> u64 \<Rightarrow> u32 \<times> u32 \<Rightarrow> acquire_request
     \<Rightarrow> ('s, 'w) app_state \<Rightarrow> acquire_outcome \<times> ('s, 'w) app_state" where
  "acquire_admit E t plan now shard req a =
     (if \<not> runner_target_permitted E plan req then (AcquireRefused Invalid, a)
      else let (over_rate, windows) =
               rate_attempt t (effective_ceiling (tp_rate_ceiling_per_min plan) (snd shard)) now (ap_rate_windows a);
             a = a\<lparr>ap_rate_windows := windows\<rparr>
        in if over_rate then (AcquireRefused OverCap, a)
           else (case mint_lease E t now shard req a of
               (Inl e, a) \<Rightarrow> (AcquireRefused e, a)
             | (Inr m, a) \<Rightarrow> reserve_slot E t plan now req m a))"

definition acquire_reserve ::
  "('s, 'w) wiring \<Rightarrow> tenant_id \<Rightarrow> string \<Rightarrow> string option \<Rightarrow> (string \<Rightarrow> string option) \<Rightarrow> acquire_request
     \<Rightarrow> ('s, 'w) app_state \<Rightarrow> acquire_outcome \<times> ('s, 'w) app_state" where
  "acquire_reserve E t pat cached headers req a =
     (case acquire_preflight E t headers req a of
        (Inl e, a) \<Rightarrow> (AcquireRefused e, a)
      | (Inr (now, shard, req), a) \<Rightarrow>
          (case with_world (fb_ac_lookup E (tenant_str t) (fb_blake3 E (aq_image_digest req))) a of
             (AcHit bytes, a) \<Rightarrow> (AcquireCached (length bytes), a)
           | (AcFailClosed reason, a) \<Rightarrow> (AcquireRefused FailClosed, a)
           | (AcMiss, a) \<Rightarrow>
               (case acquire_plan E t pat cached a of
                  (Inl e, a) \<Rightarrow> (AcquireRefused e, a)
                | (Inr plan, a) \<Rightarrow> acquire_admit E t plan now shard req a)))"


section \<open>Finalising\<close>

record acquire_response =
  ar_lease :: runner_lease
  ar_exec_endpoint :: string
  ar_envelope_ingest :: "(string \<times> string) option"

datatype finalize_outcome = FinalizeDone "acquire_response reply" | FinalizeCapacityError

definition EXEC_PATH :: string where
  "EXEC_PATH = ''/v1/leases/{lease_id}/exec''"

definition roll_back ::
  "('s, 'w) wiring \<Rightarrow> string \<Rightarrow> rollback_phase \<Rightarrow> ('s, 'w) app_state \<Rightarrow> ('s, 'w) app_state" where
  "roll_back E lid phase a = snd (rollback_pending_admission E lid phase a)"

text \<open>The runner's registration: \<open>None\<close> has been rolled back.\<close>

definition prepare_runner ::
  "('s, 'w) wiring \<Rightarrow> string \<Rightarrow> acquire_request \<Rightarrow> container_spec
     \<Rightarrow> ('s, 'w) app_state \<Rightarrow> container_spec option \<times> ('s, 'w) app_state" where
  "prepare_runner E lid req spec a =
     (case aq_runner req of
        None \<Rightarrow> (Some spec, a)
      | Some r \<Rightarrow>
          if fb_runner_broker E = None then (None, roll_back E lid BeforeProvision a)
          else (case mint_jit_offloaded E (runner_scope_from_dto r) a of
                  (JitConfig jit, a) \<Rightarrow> (Some (inject_runner_jitconfig jit spec), a)
                | (_, a) \<Rightarrow> (None, roll_back E lid BeforeProvision a)))"

text \<open>Delivery of a minted credential: by a single-use ticket when a signer is configured, in the environment
  otherwise.\<close>

definition deliver_credential ::
  "('s, 'w) wiring \<Rightarrow> tenant_id \<Rightarrow> string \<Rightarrow> minted_pat \<Rightarrow> container_spec
     \<Rightarrow> ('s, 'w) app_state \<Rightarrow> container_spec \<times> ('s, 'w) app_state" where
  "deliver_credential E t lid minted spec a =
     (let endpoint = (case fb_clw_endpoint E of Some e \<Rightarrow> e | None \<Rightarrow> []);
          (spec, a) = (case fb_cred_signer E of
             Some ticket_of \<Rightarrow>
               (inject_cred_ticket_env_with (fb_public_base E) (ticket_of lid) lid endpoint (tenant_str t) spec,
                stash_cred lid \<lparr>sc_token = mp_token minted, sc_endpoint = endpoint, sc_tenant = tenant_str t\<rparr> a)
           | None \<Rightarrow> (inject_clw_env minted endpoint (tenant_str t) spec, a))
      in (spec, a\<lparr>ap_pat_ids := hm_insert lid (mp_pat_id minted) (ap_pat_ids a)\<rparr>))"

definition prepare_credential ::
  "('s, 'w) wiring \<Rightarrow> tenant_id \<Rightarrow> string \<Rightarrow> string \<Rightarrow> u64 \<Rightarrow> acquire_request \<Rightarrow> container_spec
     \<Rightarrow> ('s, 'w) app_state \<Rightarrow> container_spec option \<times> ('s, 'w) app_state" where
  "prepare_credential E t pat lid deadline req spec a =
     (case fb_cas_pat_mint E of
        None \<Rightarrow> (Some spec, a)
      | Some mint \<Rightarrow>
          (case (aq_repo_full_name req, aq_installation_id req) of
             (None, None) \<Rightarrow> (Some spec, a)
           | (None, Some inst) \<Rightarrow> (None, roll_back E lid BeforeProvision a)
           | (Some repo, inst) \<Rightarrow>
               (let a = revoke_pat_for E lid a;
                    (now, a) = now_ms E a
                in case with_world (cm_mint mint repo inst pat lid deadline now) a of
                     (Inl e, a) \<Rightarrow> (None, roll_back E lid BeforeProvision a)
                   | (Inr minted, a) \<Rightarrow>
                       (case deliver_credential E t lid minted spec a of (spec, a) \<Rightarrow> (Some spec, a)))))"

text \<open>The part before the provider is called: the instant and the specification to provision.\<close>

definition finalize_prepare ::
  "('s, 'w) wiring \<Rightarrow> tenant_id \<Rightarrow> string \<Rightarrow> minted_lease \<Rightarrow> acquire_request
     \<Rightarrow> ('s, 'w) app_state \<Rightarrow> (u64 \<times> container_spec) option \<times> ('s, 'w) app_state" where
  "finalize_prepare E t pat m req a =
     (let (now, a) = now_ms E a in
      case prepare_runner E (ml_lease_id m) req (ml_spec m) a of
        (None, a) \<Rightarrow> (None, a)
      | (Some spec, a) \<Rightarrow>
          (case prepare_credential E t pat (ml_lease_id m) (rl_expiry (ml_lease m)) req spec a of
             (None, a) \<Rightarrow> (None, a)
           | (Some spec, a) \<Rightarrow> (Some (now, spec), a)))"

definition provision_failed ::
  "('s, 'w) wiring \<Rightarrow> string \<Rightarrow> provision_failure \<Rightarrow> ('s, 'w) app_state \<Rightarrow> finalize_outcome \<times> ('s, 'w) app_state" where
  "provision_failed E lid e a =
     (case rollback_pending_admission E lid AfterProvision a of (cleaned, a) \<Rightarrow>
        if is_capacity_failure e
        then (if cleaned then (FinalizeCapacityError, a)
              else (FinalizeDone (Refused FailClosed), revoke_pat_for E lid a))
        else (FinalizeDone (Refused FailClosed), revoke_pat_for E lid a))"

definition finalize_commit ::
  "('s, 'w) wiring \<Rightarrow> tenant_id \<Rightarrow> string \<Rightarrow> u64 \<Rightarrow> minted_lease \<Rightarrow> acquire_request
     \<Rightarrow> ('s, 'w) app_state \<Rightarrow> finalize_outcome \<times> ('s, 'w) app_state" where
  "finalize_commit E t pat now m req a =
     (let lid = ml_lease_id m in
      case with_ledger (lo_transition (fb_ledger E) lid Held now) a of
        (Inl e, a) \<Rightarrow> (FinalizeDone (Refused FailClosed), revoke_pat_for E lid (roll_back E lid AfterProvision a))
      | (Inr r, a) \<Rightarrow>
          (let a = record_slot E lid t SlotAcquired a;
               a = record_image lid (aq_image_digest req) a;
               a = (if aq_runner req \<noteq> None then mark_runner_lease lid a else a);
               a = (if aq_agent req \<noteq> None then mark_agent_lease lid a else a);
               (born, a) = with_world (fb_instant E) a;
               (opened, a) = with_world (fb_instant E) a;
               a = register lid t (hook_open 256 pat (collector_new born) opened opened) pat a
           in (FinalizeDone (Ok200 \<lparr>ar_lease = ml_lease m, ar_exec_endpoint = str_replace ''{lease_id}'' lid EXEC_PATH,
                 ar_envelope_ingest = (if aq_runner req = None
                   then Some (str_replace ''{lease_id}'' lid ENVELOPE_INGEST, fb_ingest_token E lid) else None)\<rparr>), a)))"

definition finalize_admitted_lease ::
  "('s, 'w) wiring \<Rightarrow> tenant_id \<Rightarrow> string \<Rightarrow> minted_lease \<Rightarrow> acquire_request
     \<Rightarrow> ('s, 'w) app_state \<Rightarrow> finalize_outcome \<times> ('s, 'w) app_state" where
  "finalize_admitted_lease E t pat m req a =
     (case finalize_prepare E t pat m req a of
        (None, a) \<Rightarrow> (FinalizeDone (Refused FailClosed), a)
      | (Some (now, spec), a) \<Rightarrow>
          (case provision_lease E (ml_lease_id m) spec a of
             (Inl e, a) \<Rightarrow> provision_failed E (ml_lease_id m) e a
           | (Inr u, a) \<Rightarrow> finalize_commit E t pat now m req a))"

text \<open>The handler up to the queue: a queued acquire is handed on with its minted lease.\<close>

datatype acquire_reply = AcquireAnswer "acquire_response reply" | AcquireHit nat | AcquireParked minted_lease acquire_request

definition acquire ::
  "('s, 'w) wiring \<Rightarrow> tenant_id \<Rightarrow> string \<Rightarrow> string option \<Rightarrow> (string \<Rightarrow> string option) \<Rightarrow> acquire_request
     \<Rightarrow> ('s, 'w) app_state \<Rightarrow> acquire_reply \<times> ('s, 'w) app_state" where
  "acquire E t pat cached headers req a =
     (case acquire_reserve E t pat cached headers req a of
        (AcquireRefused e, a) \<Rightarrow> (AcquireAnswer (Refused e), a)
      | (AcquireCached n, a) \<Rightarrow> (AcquireHit n, a)
      | (AcquireQueue m req, a) \<Rightarrow> (AcquireParked m req, a)
      | (AcquireReserved m req, a) \<Rightarrow>
          (case finalize_admitted_lease E t pat m req a of
             (FinalizeDone r, a) \<Rightarrow> (AcquireAnswer r, a)
           | (FinalizeCapacityError, a) \<Rightarrow>
               (AcquireAnswer (Refused FailClosed), revoke_pat_for E (ml_lease_id m) a)))"

end
