(* ===== verification/Lease_System.thy ===== *)
theory Lease_System
  imports Acquire
begin

text \<open>
  The handlers and sweeps together. The locale \<open>kept_ledger\<close> is what they rely on in a ledger, the locale
  \<open>lease_system\<close> adds the provisioner's contract and services that leave its book of handles alone; inside
  it every operation is shown to keep one invariant, for acquisitions that are interrupted anywhere between
  their reservation and their commit. It is interpreted on the in-memory ledger with the Northflank and with the
  Cloudflare provisioner.
\<close>

section \<open>The invariant\<close>

text \<open>A lease with a box that nobody has confirmed destroyed is Pending or Held. The leases \<open>F\<close> are
  reserved but not provisioned, the leases \<open>S\<close> are stuck in that state: no provisioner has a handle
  for them and their row is as it was reserved; those of \<open>F\<close> have no box. Handles and rows exist for
  issued lease ids \<open>I\<close> only.\<close>

definition active_row :: "lease_record option \<Rightarrow> bool" where
  "active_row x \<longleftrightarrow> (\<exists>r. x = Some r \<and> (lr_state r = Pending \<or> lr_state r = Wire Held))"

definition untouched_row :: "string \<Rightarrow> lease_record option \<Rightarrow> bool" where
  "untouched_row lid x \<longleftrightarrow> (\<exists>r. x = Some r \<and> lr_state r = Pending \<and> lr_box_ref r = box_marker lid)"

definition lease_inv ::
  "('s \<Rightarrow> string \<Rightarrow> lease_record option) \<Rightarrow> ('s \<Rightarrow> bool) \<Rightarrow> ('w \<Rightarrow> string \<Rightarrow> bool) \<Rightarrow> string set \<Rightarrow> string set
     \<Rightarrow> string set \<Rightarrow> ('s, 'w) app_state \<Rightarrow> bool" where
  "lease_inv row P known I F S a \<longleftrightarrow>
     P (ap_ledger a)
     \<and> (\<forall>lid \<in> ap_boxes a. active_row (row (ap_ledger a) lid))
     \<and> (\<forall>lid \<in> F \<union> S. untouched_row lid (row (ap_ledger a) lid) \<and> \<not> known (ap_world a) lid)
     \<and> F \<inter> ap_boxes a = {}
     \<and> (\<forall>lid. known (ap_world a) lid \<or> row (ap_ledger a) lid \<noteq> None \<longrightarrow> lid \<in> I)"

lemma untouched_active: "untouched_row lid x \<Longrightarrow> active_row x"
  by (auto simp: untouched_row_def active_row_def)

lemma lease_inv_subset: "lease_inv row P known I F S a \<Longrightarrow> F' \<subseteq> F \<Longrightarrow> lease_inv row P known I F' S a"
  by (auto simp: lease_inv_def)

text \<open>A service that leaves the book of handles alone, and a step that changes neither ledger nor boxes.\<close>

definition quiet :: "('w \<Rightarrow> string \<Rightarrow> bool) \<Rightarrow> ('w \<Rightarrow> 'x \<times> 'w) \<Rightarrow> bool" where
  "quiet known f \<longleftrightarrow> (\<forall>w l. known (snd (f w)) l \<longrightarrow> known w l)"

definition quiet_step :: "('w \<Rightarrow> string \<Rightarrow> bool) \<Rightarrow> ('s, 'w) app_state \<Rightarrow> ('s, 'w) app_state \<Rightarrow> bool" where
  "quiet_step known a a' \<longleftrightarrow>
     ap_ledger a' = ap_ledger a \<and> ap_boxes a' = ap_boxes a \<and> (\<forall>l. known (ap_world a') l \<longrightarrow> known (ap_world a) l)"

lemma quiet_step_refl: "quiet_step known a a"
  by (simp add: quiet_step_def)

lemma quiet_step_trans: "quiet_step known a b \<Longrightarrow> quiet_step known b c \<Longrightarrow> quiet_step known a c"
  by (simp add: quiet_step_def)

lemma quiet_step_inv: "quiet_step known a a' \<Longrightarrow> lease_inv row P known I F S a \<Longrightarrow> lease_inv row P known I F S a'"
  by (auto simp: quiet_step_def lease_inv_def)

lemma quiet_with_world: "quiet known f \<Longrightarrow> with_world f a = (x, a') \<Longrightarrow> quiet_step known a a'"
  by (auto simp: with_world_def quiet_def quiet_step_def split: prod.splits)

lemma with_ledgerD:
  "with_ledger f a = (x, a') \<Longrightarrow> f (ap_ledger a) = (x, ap_ledger a') \<and> ap_boxes a' = ap_boxes a \<and> ap_world a' = ap_world a"
  by (auto simp: with_ledger_def split: prod.splits)

lemma with_worldD:
  "with_world f a = (x, a') \<Longrightarrow> f (ap_world a) = (x, ap_world a') \<and> ap_boxes a' = ap_boxes a \<and> ap_ledger a' = ap_ledger a"
  by (auto simp: with_world_def split: prod.splits)


section \<open>Acquisitions in flight\<close>

text \<open>A finalisation between two of its calls: before the runner's registration and credential, before the
  provider is called, before its reference is recorded, before the commit, and before the roll-back of a failed
  provisioning.\<close>

datatype flight =
    Reserved tenant_id string minted_lease acquire_request
  | Prepared tenant_id string minted_lease acquire_request u64 container_spec
  | Spawned tenant_id string minted_lease acquire_request u64
  | Bound tenant_id string minted_lease acquire_request u64
  | Failing string provision_failure

fun flight_lease :: "flight \<Rightarrow> string" where
  "flight_lease (Reserved t pat m req) = ml_lease_id m"
| "flight_lease (Prepared t pat m req now spec) = ml_lease_id m"
| "flight_lease (Spawned t pat m req now) = ml_lease_id m"
| "flight_lease (Bound t pat m req now) = ml_lease_id m"
| "flight_lease (Failing lid e) = lid"

definition answered :: "string \<Rightarrow> ('s, 'w) wiring \<Rightarrow> finalize_outcome \<times> ('s, 'w) app_state \<Rightarrow> acquire_response reply \<times> ('s, 'w) app_state" where
  "answered lid E r = (case r of
     (FinalizeDone reply, a) \<Rightarrow> (reply, a)
   | (FinalizeCapacityError, a) \<Rightarrow> (Refused FailClosed, revoke_pat_for E lid a))"

fun advance :: "('s, 'w) wiring \<Rightarrow> flight \<Rightarrow> ('s, 'w) app_state \<Rightarrow> (flight + acquire_response reply) \<times> ('s, 'w) app_state" where
  "advance E (Reserved t pat m req) a =
     (case finalize_prepare E t pat m req a of
        (None, a) \<Rightarrow> (Inr (Refused FailClosed), a)
      | (Some (now, spec), a) \<Rightarrow> (Inl (Prepared t pat m req now spec), a))"
| "advance E (Prepared t pat m req now spec) a =
     (case provision_box E (ml_lease_id m) spec a of
        (Inl e, a) \<Rightarrow> (Inl (Failing (ml_lease_id m) e), a)
      | (Inr u, a) \<Rightarrow> (Inl (Spawned t pat m req now), a))"
| "advance E (Spawned t pat m req now) a =
     (case provision_bind E (ml_lease_id m) a of
        (Inl e, a) \<Rightarrow> (Inl (Failing (ml_lease_id m) e), a)
      | (Inr u, a) \<Rightarrow> (Inl (Bound t pat m req now), a))"
| "advance E (Bound t pat m req now) a =
     (case answered (ml_lease_id m) E (finalize_commit E t pat now m req a) of (r, a) \<Rightarrow> (Inr r, a))"
| "advance E (Failing lid e) a =
     (case answered lid E (provision_failed E lid e a) of (r, a) \<Rightarrow> (Inr r, a))"

fun stages_left :: "flight \<Rightarrow> nat" where
  "stages_left (Reserved t pat m req) = 4"
| "stages_left (Prepared t pat m req now spec) = 3"
| "stages_left (Spawned t pat m req now) = 2"
| "stages_left (Bound t pat m req now) = 1"
| "stages_left (Failing lid e) = 1"

fun land :: "nat \<Rightarrow> ('s, 'w) wiring \<Rightarrow> flight \<Rightarrow> ('s, 'w) app_state \<Rightarrow> acquire_response reply option \<times> ('s, 'w) app_state" where
  "land 0 E f a = (None, a)"
| "land (Suc n) E f a =
     (case advance E f a of (Inr r, a) \<Rightarrow> (Some r, a) | (Inl f, a) \<Rightarrow> land n E f a)"

text \<open>Stages that nothing interrupts are the finalisation.\<close>

lemma advance_stages: "advance E f a = (Inl f', a') \<Longrightarrow> stages_left f' < stages_left f \<and> flight_lease f' = flight_lease f"
  by (cases f) (auto split: prod.splits sum.splits option.splits)

lemma land_finalize:
  "land 4 E (Reserved t pat m req) a = map_prod Some id (answered (ml_lease_id m) E (finalize_admitted_lease E t pat m req a))"
  by (auto simp: numeral_eq_Suc finalize_admitted_lease_def provision_lease_def answered_def
      split: prod.splits sum.splits option.splits finalize_outcome.splits)


section \<open>The server\<close>

text \<open>The flights are the requests that wait between two calls. \<open>sv_ids\<close> is not in the program: it
  lists the ids of all reserved leases, oldest first.\<close>

record ('s, 'w) server =
  sv_app :: "('s, 'w) app_state"
  sv_flights :: "flight list"
  sv_ids :: "string list"

datatype server_act =
    SvAcquire tenant_id string "string option" "string \<Rightarrow> string option" acquire_request
  | SvAdvance nat
  | SvDrop nat
  | SvSweep u64
  | SvSweepRow lease_record
  | SvReap
  | SvCrashes
  | SvReclaim abnormal_kind u64 lease_record
  | SvKill tenant_id
  | SvKillLease tenant_id string
  | SvCancel tenant_id string
  | SvClose "subscriber_act list" tenant_id string close_request
  | SvSuspend tenant_id u64
  | SvUnsuspend tenant_id

definition drop_flight :: "nat \<Rightarrow> flight list \<Rightarrow> flight list" where
  "drop_flight i fs = take i fs @ drop (Suc i) fs"

definition advance_flight :: "('s, 'w) wiring \<Rightarrow> nat \<Rightarrow> ('s, 'w) server \<Rightarrow> ('s, 'w) server" where
  "advance_flight E i sv =
     (if i < length (sv_flights sv)
      then (case advance E (sv_flights sv ! i) (sv_app sv) of
              (Inl f, a) \<Rightarrow> sv\<lparr>sv_app := a, sv_flights := (sv_flights sv)[i := f]\<rparr>
            | (Inr r, a) \<Rightarrow> sv\<lparr>sv_app := a, sv_flights := drop_flight i (sv_flights sv)\<rparr>)
      else sv)"

definition on_app :: "(('s, 'w) app_state \<Rightarrow> 'x \<times> ('s, 'w) app_state) \<Rightarrow> ('s, 'w) server \<Rightarrow> ('s, 'w) server" where
  "on_app f sv = sv\<lparr>sv_app := snd (f (sv_app sv))\<rparr>"

text \<open>The sweeps also run row by row, with whatever rows they once read; a dropped request leaves its
  reservation behind.\<close>

fun server_step :: "('s, 'w) wiring \<Rightarrow> server_act \<Rightarrow> ('s, 'w) server \<Rightarrow> ('s, 'w) server" where
  "server_step E (SvAcquire t pat cached headers req) sv =
     (case acquire_reserve E t pat cached headers req (sv_app sv) of
        (AcquireReserved m req, a) \<Rightarrow>
          sv\<lparr>sv_app := a, sv_flights := sv_flights sv @ [Reserved t pat m req], sv_ids := sv_ids sv @ [ml_lease_id m]\<rparr>
      | (_, a) \<Rightarrow> sv\<lparr>sv_app := a\<rparr>)"
| "server_step E (SvAdvance i) sv = advance_flight E i sv"
| "server_step E (SvDrop i) sv = sv\<lparr>sv_flights := drop_flight i (sv_flights sv)\<rparr>"
| "server_step E (SvSweep age) sv = on_app (sweep_stale_pending E age) sv"
| "server_step E (SvSweepRow rec) sv = on_app (sweep_rows E [rec]) sv"
| "server_step E SvReap sv = on_app (reap_once E) sv"
| "server_step E SvCrashes sv = on_app (surface_crashes_once E) sv"
| "server_step E (SvReclaim kind now rec) sv = on_app (reclaim_one E kind now rec) sv"
| "server_step E (SvKill t) sv = on_app (kill_tenant_leases E t) sv"
| "server_step E (SvKillLease t lid) sv = on_app (kill_loop E t [lid]) sv"
| "server_step E (SvCancel t lid) sv = on_app (cancel_lease E t lid) sv"
| "server_step E (SvClose acts t lid req) sv = on_app (close_lease E acts t lid req) sv"
| "server_step E (SvSuspend t now) sv = on_app (suspend_tenant_with_event E t now) sv"
| "server_step E (SvUnsuspend t) sv = on_app (unsuspend_tenant E t) sv"

definition server_run :: "('s, 'w) wiring \<Rightarrow> server_act list \<Rightarrow> ('s, 'w) server \<Rightarrow> ('s, 'w) server" where
  "server_run E acts sv = fold (server_step E) acts sv"

fun grounded :: "flight \<Rightarrow> bool" where
  "grounded (Reserved t pat m req) = True"
| "grounded (Prepared t pat m req now spec) = True"
| "grounded _ = False"

fun failing :: "flight \<Rightarrow> bool" where
  "failing (Failing lid e) = True"
| "failing _ = False"

definition on_ground :: "flight list \<Rightarrow> string set" where
  "on_ground fs = flight_lease ` set (filter grounded fs)"

definition server_inv ::
  "('s \<Rightarrow> string \<Rightarrow> lease_record option) \<Rightarrow> ('s \<Rightarrow> bool) \<Rightarrow> ('w \<Rightarrow> string \<Rightarrow> bool) \<Rightarrow> string set
     \<Rightarrow> ('s, 'w) server \<Rightarrow> bool" where
  "server_inv row P known S sv \<longleftrightarrow>
     lease_inv row P known (set (sv_ids sv)) (on_ground (sv_flights sv)) S (sv_app sv)
     \<and> distinct (map flight_lease (sv_flights sv))
     \<and> flight_lease ` set (sv_flights sv) \<subseteq> set (sv_ids sv)
     \<and> (\<forall>f \<in> set (sv_flights sv). flight_lease f \<in> S \<longrightarrow> failing f)"

lemma grounded_before: "advance E f a = (Inl f', a') \<Longrightarrow> grounded f' \<Longrightarrow> grounded f"
  by (cases f) (auto split: prod.splits sum.splits option.splits)

lemma failing_stays: "advance E f a = (Inl f', a') \<Longrightarrow> \<not> failing f"
  by (cases f) (auto split: prod.splits)

lemma on_ground_reserved: "on_ground (fs @ [Reserved t pat m req]) = insert (ml_lease_id m) (on_ground fs)"
  by (simp add: on_ground_def)

lemma on_ground_mono: "set fs \<subseteq> set gs \<Longrightarrow> on_ground fs \<subseteq> on_ground gs"
  by (auto simp: on_ground_def)

lemma on_ground_member:
  "distinct (map flight_lease (xs @ f # ys)) \<Longrightarrow> flight_lease f \<in> on_ground (xs @ f # ys) \<longleftrightarrow> grounded f"
  by (auto simp: on_ground_def)

lemma on_ground_without:
  "distinct (map flight_lease (xs @ f # ys)) \<Longrightarrow> on_ground (xs @ ys) = on_ground (xs @ f # ys) - {flight_lease f}"
  by (auto simp: on_ground_def image_iff)

lemma on_ground_replace:
  "distinct (map flight_lease (xs @ f # ys)) \<Longrightarrow> flight_lease f' = flight_lease f \<Longrightarrow> (grounded f' \<Longrightarrow> grounded f)
    \<Longrightarrow> on_ground (xs @ f' # ys) = (if grounded f' then on_ground (xs @ f # ys) else on_ground (xs @ f # ys) - {flight_lease f})"
  by (auto simp: on_ground_def image_iff)


section \<open>What the handlers rely on\<close>

text \<open>Every admission that a resolved plan and the wired ceiling can lead to is within \<open>ok\<close>.\<close>

definition plans_fit ::
  "('s, 'w) wiring \<Rightarrow> (lease_record \<Rightarrow> u32 \<Rightarrow> compute_gate option \<Rightarrow> bool) \<Rightarrow> bool" where
  "plans_fit E ok \<longleftrightarrow>
     (\<forall>t pat cached w plan w' w2 ttl now gate m.
        fb_resolve_plan E t pat cached w = (PlanOk (Some plan), w')
        \<longrightarrow> build_compute_gate (fb_runner_vcpu E) (fb_ceiling_of E w2) t ttl now = Some (Inr gate)
        \<longrightarrow> ok (pending_record t m now) (tp_max_concurrency plan) gate)"

lemma quietD: "quiet known f \<Longrightarrow> f w = (x, w') \<Longrightarrow> known w' l \<Longrightarrow> known w l"
  unfolding quiet_def by (metis snd_conv)

lemma quiet_mint_loop: "quiet known mint \<Longrightarrow> mint_loop mint n target k lid w = (x, w') \<Longrightarrow> known w' l \<Longrightarrow> known w l"
proof (induction k arbitrary: lid w)
  case (Suc k)
  obtain lid1 w1 where m: "mint w = (lid1, w1)" by (cases "mint w")
  have "known w1 l"
    using Suc.prems m Suc.IH [OF Suc.prems(1), of lid1 w1] by (cases "shard_of lid1 n = target") simp_all
  with quietD [OF Suc.prems(1) m] show ?case .
qed simp

lemma quiet_mint_for_shard:
  assumes "quiet known mint"
  shows "quiet known (mint_lease_id_for_shard k n tries mint)"
  unfolding quiet_def
proof (intro allI impI)
  fix w l
  assume l: "known (snd (mint_lease_id_for_shard k n tries mint w)) l"
  obtain lid1 w1 where m: "mint w = (lid1, w1)" by (cases "mint w")
  let ?n = "max n 1"
  let ?loop = "mint_loop mint ?n (k mod ?n) (unat (max tries 1) - 1) lid1 w1"
  have "known (snd ?loop) l \<Longrightarrow> known w1 l" using quiet_mint_loop [OF assms] by (metis prod.collapse)
  with l m have "known w1 l" by (simp add: mint_lease_id_for_shard_def Let_def split: if_splits)
  with quietD [OF assms m] show "known w l" .
qed

locale kept_ledger =
  fixes L :: "'s ledger_ops" and row :: "'s \<Rightarrow> string \<Rightarrow> lease_record option" and P :: "'s \<Rightarrow> bool"
    and ok :: "lease_record \<Rightarrow> u32 \<Rightarrow> compute_gate option \<Rightarrow> bool"
  assumes get_row: "P s \<Longrightarrow> lo_get L s lid = Inr (row s lid)"
    and transition_ok: "P s \<Longrightarrow> lo_transition L lid to now s = (Inr r', s') \<Longrightarrow>
      P s' \<and> (\<exists>r. row s lid = Some r \<and> transition_is_legal (lr_state r) to) \<and> lr_state r' = Wire to \<and> row s' = (row s)(lid \<mapsto> r')"
    and transition_err: "P s \<Longrightarrow> lo_transition L lid to now s = (Inl e, s') \<Longrightarrow> P s' \<and> row s' = row s"
    and admit_ok: "P s \<Longrightarrow> ok rec m g \<Longrightarrow> lo_try_admit_with_compute L rec m g s = (Inr Admitted, s') \<Longrightarrow>
      P s' \<and> row s (lr_lease_id rec) = None \<and> row s' = (row s)(lr_lease_id rec \<mapsto> rec)"
    and admit_no: "P s \<Longrightarrow> ok rec m g \<Longrightarrow> lo_try_admit_with_compute L rec m g s = (x, s') \<Longrightarrow> x \<noteq> Inr Admitted \<Longrightarrow>
      P s' \<and> row s' = row s"
    and claim: "P s \<Longrightarrow> lo_claim_pending_cleanup L lid now s = (c, s') \<Longrightarrow>
      P s' \<and> row s' = row s \<and> (\<forall>q. c = Inr (Some q) \<longrightarrow> lr_lease_id q = lid)"
    and claim_stale: "P s \<Longrightarrow> lo_claim_stale_pending_cleanup L now age s = (cs, s') \<Longrightarrow> P s' \<and> row s' = row s"
    and finish_ok: "P s \<Longrightarrow> lo_finish_pending_cleanup L lid s = (Inr True, s') \<Longrightarrow> P s' \<and> row s' = (row s)(lid := None)"
    and finish_no: "P s \<Longrightarrow> lo_finish_pending_cleanup L lid s = (b, s') \<Longrightarrow> b \<noteq> Inr True \<Longrightarrow> P s' \<and> row s' = row s"
    and bind_ok: "P s \<Longrightarrow> lo_bind_provider_ref L lid ref s = (Inr r', s') \<Longrightarrow>
      P s' \<and> (\<exists>r. row s lid = Some r \<and> lr_state r = Pending) \<and> lr_state r' = Pending \<and> row s' = (row s)(lid \<mapsto> r')"
    and bind_err: "P s \<Longrightarrow> lo_bind_provider_ref L lid ref s = (Inl e, s') \<Longrightarrow> P s' \<and> row s' = row s"
    and record_suspension: "P s \<Longrightarrow> lo_record_tenant_suspension L t now s = (u, s') \<Longrightarrow> P s' \<and> row s' = row s"
    and set_suspended: "P s \<Longrightarrow> lo_set_tenant_suspended L t sus s = (u, s') \<Longrightarrow> P s' \<and> row s' = row s"

locale lease_system = kept_ledger "fb_ledger E" row P ok + handle_book "fb_provisioner E" known
  for E :: "('s, 'w) wiring" and row :: "'s \<Rightarrow> string \<Rightarrow> lease_record option" and P :: "'s \<Rightarrow> bool"
    and ok :: "lease_record \<Rightarrow> u32 \<Rightarrow> compute_gate option \<Rightarrow> bool" and known :: "'w \<Rightarrow> string \<Rightarrow> bool" +
  assumes quiet_clock: "quiet known (fb_clock E)"
    and quiet_instant: "quiet known (fb_instant E)"
    and quiet_mint_id: "quiet known (fb_mint_lease_id E)"
    and quiet_ready: "quiet known (fb_mint_ready E)"
    and quiet_ac: "quiet known (fb_ac_lookup E x d)"
    and quiet_plan: "quiet known (fb_resolve_plan E t p c)"
    and quiet_broker: "fb_runner_broker E = Some broker \<Longrightarrow> quiet known (broker sc)"
    and quiet_mint: "fb_cas_pat_mint E = Some mint \<Longrightarrow> quiet known (cm_mint mint rp inst p lid dl nw)"
    and quiet_revoke: "fb_cas_pat_mint E = Some mint \<Longrightarrow> quiet known (cm_revoke mint pid)"
begin

abbreviation Inv :: "string set \<Rightarrow> string set \<Rightarrow> string set \<Rightarrow> ('s, 'w) app_state \<Rightarrow> bool" where
  "Inv \<equiv> lease_inv row P known"

subsection \<open>Quiet steps\<close>

lemma q_now: "now_ms E a = (now, a') \<Longrightarrow> quiet_step known a a'"
  unfolding now_ms_def by (rule quiet_with_world [OF quiet_clock])

lemma q_revoke: "quiet_step known a (revoke_pat_for E lid a)"
proof -
  let ?a = "a\<lparr>ap_pending_cred := hm_remove lid (ap_pending_cred a), ap_pat_ids := hm_remove lid (ap_pat_ids a)\<rparr>"
  have "quiet_step known a ?a" by (simp add: quiet_step_def)
  moreover have "quiet_step known ?a (snd (with_world (cm_revoke mint p) ?a))" if "fb_cas_pat_mint E = Some mint" for mint p
    using quiet_with_world [OF quiet_revoke [OF that]] by (metis prod.collapse)
  ultimately show ?thesis
    by (auto simp: revoke_pat_for_def Let_def intro: quiet_step_trans split: option.splits)
qed

lemma q_forget_pending: "quiet_step known a (forget_pending_cleanup E lid a)"
  by (auto simp: forget_pending_cleanup_def quiet_step_def dest: forget_known)

lemma q_forget: "quiet_step known a (forget_lease E lid a)"
proof -
  have "quiet_step known (forget_pending_cleanup E lid a) (forget_lease E lid a)"
    by (simp add: forget_lease_def Let_def quiet_step_def unregister_def)
  with q_forget_pending show ?thesis by (rule quiet_step_trans)
qed

lemma q_slot_inner: "quiet_step known a (record_slot_inner E lid t k acq a)"
proof -
  obtain now a1 where n: "now_ms E a = (now, a1)" by (cases "now_ms E a")
  have "quiet_step known a1 (record_slot_inner E lid t k acq a)"
    by (simp add: record_slot_inner_def n Let_def quiet_step_def split: option.splits)
  with q_now [OF n] show ?thesis by (rule quiet_step_trans)
qed

lemma q_slot: "quiet_step known a (record_slot E lid t k a)" "quiet_step known a (record_slot_terminal E lid t k acq a)"
  by (simp_all add: record_slot_def record_slot_terminal_def q_slot_inner)

lemma q_flush: "flush_partial_envelope E lid k d a = (x, a') \<Longrightarrow> quiet_step known a a'"
  by (auto simp: flush_partial_envelope_def set_hook_def quiet_step_def split: option.splits prod.splits sum.splits)

lemma q_set_hook: "quiet_step known a (set_hook lid h a)"
  by (simp add: set_hook_def quiet_step_def split: option.splits)

lemma q_unregister: "quiet_step known a (unregister lid a)"
  by (simp add: unregister_def quiet_step_def)

subsection \<open>Ledger steps\<close>

lemma inv_same_rows:
  "Inv I F S a \<Longrightarrow> P (ap_ledger a') \<Longrightarrow> row (ap_ledger a') = row (ap_ledger a) \<Longrightarrow> ap_boxes a' = ap_boxes a
    \<Longrightarrow> ap_world a' = ap_world a \<Longrightarrow> Inv I F S a'"
  by (simp add: lease_inv_def)

lemma inv_P: "Inv I F S a \<Longrightarrow> P (ap_ledger a)"
  by (simp add: lease_inv_def)

lemma inv_untouched: "Inv I F S a \<Longrightarrow> lid \<in> F \<union> S \<Longrightarrow> untouched_row lid (row (ap_ledger a) lid) \<and> \<not> known (ap_world a) lid"
  by (simp add: lease_inv_def)

lemma inv_transition:
  assumes inv: "Inv I F S a" and call: "with_ledger (lo_transition (fb_ledger E) lid to now) a = (x, a')"
    and free: "lid \<notin> F \<union> S" and gone: "to = Held \<or> lid \<notin> ap_boxes a"
  shows "Inv I F S a'"
proof (cases x)
  case (Inl e)
  with with_ledgerD [OF call] transition_err [OF inv_P [OF inv], of lid to now e "ap_ledger a'"] inv show ?thesis
    by (auto intro: inv_same_rows)
next
  case (Inr r')
  with with_ledgerD [OF call] transition_ok [OF inv_P [OF inv], of lid to now r' "ap_ledger a'"]
  have st: "row (ap_ledger a) lid \<noteq> None" "P (ap_ledger a')" "lr_state r' = Wire to" "row (ap_ledger a') = (row (ap_ledger a))(lid \<mapsto> r')"
    "ap_boxes a' = ap_boxes a" "ap_world a' = ap_world a" by auto
  have "active_row (Some r')" if "to = Held" using st(3) that by (simp add: active_row_def)
  with st inv free gone show ?thesis by (auto simp: lease_inv_def)
qed

lemma inv_claim:
  assumes inv: "Inv I F S a" and call: "with_ledger (lo_claim_pending_cleanup (fb_ledger E) lid now) a = (x, a')"
  shows "Inv I F S a' \<and> (\<forall>q. x = Inr (Some q) \<longrightarrow> lr_lease_id q = lid)"
  using with_ledgerD [OF call] claim [OF inv_P [OF inv], of lid now x "ap_ledger a'"] inv by (auto intro: inv_same_rows)

lemma inv_claim_stale:
  assumes inv: "Inv I F S a" and call: "with_ledger (lo_claim_stale_pending_cleanup (fb_ledger E) now age) a = (x, a')"
  shows "Inv I F S a'"
  using with_ledgerD [OF call] claim_stale [OF inv_P [OF inv], of now age x "ap_ledger a'"] inv by (auto intro: inv_same_rows)

lemma inv_finish:
  assumes inv: "Inv I F S a" and call: "with_ledger (lo_finish_pending_cleanup (fb_ledger E) lid) a = (x, a')"
    and free: "lid \<notin> F \<union> S" and gone: "lid \<notin> ap_boxes a"
  shows "Inv I F S a'"
proof (cases "x = Inr True")
  case True
  with with_ledgerD [OF call] finish_ok [OF inv_P [OF inv], of lid "ap_ledger a'"] inv free gone show ?thesis
    by (auto simp: lease_inv_def)
next
  case False
  with with_ledgerD [OF call] finish_no [OF inv_P [OF inv], of lid x "ap_ledger a'"] inv show ?thesis
    by (auto intro: inv_same_rows)
qed

lemma inv_bind:
  assumes inv: "Inv I F S a" and call: "with_ledger (lo_bind_provider_ref (fb_ledger E) lid ref) a = (x, a')"
    and free: "lid \<notin> F \<union> S"
  shows "Inv I F S a'"
proof (cases x)
  case (Inl e)
  with with_ledgerD [OF call] bind_err [OF inv_P [OF inv], of lid ref e "ap_ledger a'"] inv show ?thesis
    by (auto intro: inv_same_rows)
next
  case (Inr r')
  with with_ledgerD [OF call] bind_ok [OF inv_P [OF inv], of lid ref r' "ap_ledger a'"] inv free show ?thesis
    by (auto simp: lease_inv_def active_row_def)
qed

subsection \<open>Boxes\<close>

lemma inv_restore:
  assumes inv: "Inv I F S a" and call: "restore_lease E lid a = (x, a')"
  shows "Inv I F S a'"
proof -
  note w = with_worldD [OF call [unfolded restore_lease_def]]
  have "known (ap_world a) l \<or> l \<notin> F \<union> S \<and> row (ap_ledger a) l \<noteq> None" if "known (ap_world a') l" for l
  proof (cases "row (ap_ledger a) lid")
    case None
    with w that get_row [OF inv_P [OF inv], of lid] show ?thesis by (auto simp: restore_for_operation_def)
  next
    case (Some r)
    show ?thesis
    proof (cases "lr_box_ref r = box_marker lid")
      case True
      with Some w that get_row [OF inv_P [OF inv], of lid] show ?thesis by (auto simp: restore_for_operation_def)
    next
      case False
      with Some inv_untouched [OF inv, of lid] have "lid \<notin> F \<union> S" by (auto simp: untouched_row_def)
      moreover from w have "known (ap_world a) l \<or> l = lid" using that restore_known
        by (auto simp: restore_for_operation_def split: sum.splits option.splits if_splits prod.splits)
      ultimately show ?thesis using Some by auto
    qed
  qed
  with w inv show ?thesis unfolding lease_inv_def by metis
qed

lemma inv_remove_box: "Inv I F S a \<Longrightarrow> Inv I F S (a\<lparr>ap_boxes := ap_boxes a - {lid}\<rparr>)"
  by (auto simp: lease_inv_def)

lemma inv_teardown:
  assumes inv: "Inv I F S a" and call: "teardown_lease E lid a = (torn, a')"
  shows "Inv I F S a' \<and> (torn \<longrightarrow> lid \<notin> ap_boxes a' \<and> lid \<notin> F \<union> S)"
proof -
  obtain x a1 where r: "restore_lease E lid a = (x, a1)" by (cases "restore_lease E lid a")
  note inv1 = inv_restore [OF inv r]
  show ?thesis
  proof (cases x)
    case (Inl e)
    with call r inv1 show ?thesis by (auto simp: teardown_lease_def)
  next
    case (Inr u)
    obtain y a2 where t: "with_world (pv_teardown (fb_provisioner E) lid) a1 = (y, a2)"
      by (cases "with_world (pv_teardown (fb_provisioner E) lid) a1")
    note w = with_worldD [OF t]
    from w have "quiet_step known a1 a2" by (auto simp: quiet_step_def dest: teardown_known)
    then have inv2: "Inv I F S a2" using inv1 by (rule quiet_step_inv)
    have "lid \<notin> F \<union> S" if "y = Inr ()" using w that torn_known inv_untouched [OF inv1, of lid] by blast
    with call r Inr t inv2 show ?thesis
      by (cases y) (auto simp: teardown_lease_def intro: inv_remove_box)
  qed
qed

lemma inv_teardown_pending:
  assumes inv: "Inv I F S a" and call: "teardown_pending_lease E lid a = (v, a')"
  shows "Inv I F S a' \<and> (v = ConfirmedDestroyed \<longrightarrow> lid \<notin> ap_boxes a' \<and> lid \<notin> F \<union> S)"
proof -
  obtain x a1 where r: "restore_lease E lid a = (x, a1)" by (cases "restore_lease E lid a")
  note inv1 = inv_restore [OF inv r]
  show ?thesis
  proof (cases x)
    case (Inl e)
    with call r inv1 show ?thesis by (auto simp: teardown_pending_lease_def)
  next
    case (Inr u)
    obtain y a2 where t: "with_world (pv_teardown_pending (fb_provisioner E) lid) a1 = (y, a2)"
      by (cases "with_world (pv_teardown_pending (fb_provisioner E) lid) a1")
    note w = with_worldD [OF t]
    from w have "quiet_step known a1 a2" by (auto simp: quiet_step_def dest: pending_known)
    then have inv2: "Inv I F S a2" using inv1 by (rule quiet_step_inv)
    have "lid \<notin> F \<union> S" if "y = ConfirmedDestroyed" using w that confirmed_known inv_untouched [OF inv1, of lid] by blast
    with call r Inr t inv2 show ?thesis
      by (cases y) (auto simp: teardown_pending_lease_def intro: inv_remove_box)
  qed
qed

lemma inv_probe: "Inv I F S a \<Longrightarrow> probe_lease E lid a = (p, a') \<Longrightarrow> Inv I F S a'"
proof -
  assume inv: "Inv I F S a" and call: "probe_lease E lid a = (p, a')"
  obtain x a1 where r: "restore_lease E lid a = (x, a1)" by (cases "restore_lease E lid a")
  obtain y a2 where t: "with_world (pv_probe (fb_provisioner E) lid) a1 = (y, a2)"
    by (cases "with_world (pv_probe (fb_provisioner E) lid) a1")
  from with_worldD [OF t] have "quiet_step known a1 a2" by (auto simp: quiet_step_def dest: probe_known)
  from quiet_step_inv [OF this inv_restore [OF inv r]] inv_restore [OF inv r] call r t show "Inv I F S a'"
    by (auto simp: probe_lease_def split: sum.splits)
qed

subsection \<open>Ending leases\<close>

lemmas q_misc = q_now q_revoke q_forget_pending q_forget q_slot q_flush q_set_hook q_unregister

lemma inv_quiet: "Inv I F S a \<Longrightarrow> quiet_step known a a' \<Longrightarrow> Inv I F S a'"
  using quiet_step_inv by blast

lemma inv_finish_claimed:
  assumes inv: "Inv I F S a" and call: "finish_claimed E lid a = (b, a')"
    and "lid \<notin> F \<union> S" and "lid \<notin> ap_boxes a"
  shows "Inv I F S a'"
proof -
  obtain x a1 where f: "with_ledger (lo_finish_pending_cleanup (fb_ledger E) lid) a = (x, a1)"
    by (cases "with_ledger (lo_finish_pending_cleanup (fb_ledger E) lid) a")
  from inv_finish [OF inv f assms(3,4)] have inv1: "Inv I F S a1" .
  with inv_quiet [OF inv1 q_forget_pending, of lid] call f show ?thesis
    by (auto simp: finish_claimed_def split: sum.splits bool.splits)
qed

lemma inv_rollback:
  assumes inv: "Inv I F S a" and call: "rollback_pending_admission E lid phase a = (b, a')"
    and before: "phase = BeforeProvision \<Longrightarrow> lid \<notin> F \<union> S \<and> lid \<notin> ap_boxes a"
  shows "Inv I F S a'"
proof -
  obtain now a1 where n: "now_ms E a = (now, a1)" by (cases "now_ms E a")
  obtain x a2 where c: "with_ledger (lo_claim_pending_cleanup (fb_ledger E) lid now) a1 = (x, a2)"
    by (cases "with_ledger (lo_claim_pending_cleanup (fb_ledger E) lid now) a1")
  have inv1: "Inv I F S a1" using inv q_now [OF n] by (rule inv_quiet)
  have inv2: "Inv I F S a2" and q: "\<And>q. x = Inr (Some q) \<Longrightarrow> lr_lease_id q = lid" using inv_claim [OF inv1 c] by auto
  have same: "ap_boxes a2 = ap_boxes a" using with_ledgerD [OF c] q_now [OF n] by (simp add: quiet_step_def)
  show ?thesis
  proof (cases "\<exists>q. x = Inr (Some q)")
    case False
    with call n c inv2 show ?thesis by (auto simp: rollback_pending_admission_def split: sum.splits option.splits)
  next
    case True
    then obtain r where r: "x = Inr (Some r)" "lr_lease_id r = lid" using q by blast
    show ?thesis
    proof (cases phase)
      case BeforeProvision
      with call n c r have "finish_claimed E lid a2 = (b, a')" by (simp add: rollback_pending_admission_def)
      then show ?thesis using inv_finish_claimed [OF inv2] before [OF BeforeProvision] same by auto
    next
      case AfterProvision
      obtain v a3 where t: "teardown_pending_lease E lid a2 = (v, a3)" by (cases "teardown_pending_lease E lid a2")
      note inv3 = inv_teardown_pending [OF inv2 t]
      from AfterProvision call n c r t have "(if v = ConfirmedDestroyed then finish_claimed E lid a3 else (False, a3)) = (b, a')"
        by (auto simp: rollback_pending_admission_def)
      then show ?thesis using inv3 inv_finish_claimed [of I F S a3 lid b a'] by (auto split: if_splits)
    qed
  qed
qed

lemma inv_sweep_rows: "Inv I F S a \<Longrightarrow> sweep_rows E rows a = (n, a') \<Longrightarrow> Inv I F S a'"
proof (induction rows arbitrary: a n)
  case (Cons r rows)
  let ?lid = "lr_lease_id r"
  obtain v a1 where t: "teardown_pending_lease E ?lid a = (v, a1)" by (cases "teardown_pending_lease E ?lid a")
  note inv1 = inv_teardown_pending [OF Cons.prems(1) t]
  show ?case
  proof (cases "v = ConfirmedDestroyed")
    case False
    with Cons.prems(2) t inv1 show ?thesis by (auto intro: Cons.IH)
  next
    case True
    obtain b a2 where f: "finish_claimed E ?lid a1 = (b, a2)" by (cases "finish_claimed E ?lid a1")
    have inv2: "Inv I F S a2" using inv_finish_claimed [OF _ f] inv1 True by auto
    have "Inv I F S (forget_lease E ?lid (revoke_pat_for E ?lid a2))"
      using inv_quiet [OF inv_quiet [OF inv2 q_revoke] q_forget] .
    with Cons.prems(2) t True f inv2 show ?thesis
      by (cases b) (auto simp: Let_def intro: Cons.IH split: prod.splits)
  qed
qed simp

lemma inv_sweep: "Inv I F S a \<Longrightarrow> Inv I F S (snd (sweep_stale_pending E age a))"
proof -
  assume inv: "Inv I F S a"
  obtain now a1 where n: "now_ms E a = (now, a1)" by (cases "now_ms E a")
  obtain x a2 where c: "with_ledger (lo_claim_stale_pending_cleanup (fb_ledger E) now age) a1 = (x, a2)"
    by (cases "with_ledger (lo_claim_stale_pending_cleanup (fb_ledger E) now age) a1")
  have inv2: "Inv I F S a2" using inv_claim_stale [OF inv_quiet [OF inv q_now [OF n]] c] .
  then show ?thesis using inv_sweep_rows [OF inv2] n c
    by (cases x) (auto simp: sweep_stale_pending_def, metis prod.collapse)
qed

lemma inv_kill_loop: "Inv I F S a \<Longrightarrow> kill_loop E t lids a = (n, a') \<Longrightarrow> Inv I F S a'"
proof (induction lids arbitrary: a n)
  case (Cons lid lids)
  obtain torn a1 where t: "teardown_lease E lid a = (torn, a1)" by (cases "teardown_lease E lid a")
  note inv1 = inv_teardown [OF Cons.prems(1) t]
  let ?a2 = "revoke_pat_for E lid a1"
  have inv2: "Inv I F S ?a2" using inv1 inv_quiet [OF _ q_revoke] by blast
  have same2: "ap_boxes ?a2 = ap_boxes a1" using q_revoke [of a1 lid] by (simp add: quiet_step_def)
  show ?case
  proof (cases torn)
    case False
    with Cons.prems(2) t inv2 show ?thesis by (auto simp: Let_def intro: Cons.IH)
  next
    case True
    obtain now a3 where m: "now_ms E ?a2 = (now, a3)" by (cases "now_ms E ?a2")
    have inv3: "Inv I F S a3" using inv2 q_now [OF m] by (rule inv_quiet)
    have same3: "ap_boxes a3 = ap_boxes a1" using q_now [OF m] same2 by (simp add: quiet_step_def)
    obtain x a4 where l: "with_ledger (lo_transition (fb_ledger E) lid Crashed now) a3 = (x, a4)"
      by (cases "with_ledger (lo_transition (fb_ledger E) lid Crashed now) a3")
    have inv4: "Inv I F S a4" using inv_transition [OF inv3 l] inv1 True same3 by auto
    have "Inv I F S (forget_lease E lid (record_slot E lid t SlotCrashed a4))"
      using inv_quiet [OF inv_quiet [OF inv4 q_slot(1)] q_forget] .
    with Cons.prems(2) t True m l inv4 show ?thesis
      by (cases x) (auto simp: Let_def intro: Cons.IH split: prod.splits)
  qed
qed simp

lemma inv_kill: "Inv I F S a \<Longrightarrow> Inv I F S (snd (kill_tenant_leases E t a))"
  unfolding kill_tenant_leases_def using inv_kill_loop by (metis prod.collapse)

lemma inv_reclaim:
  assumes inv: "Inv I F S a" and call: "reclaim_one E kind now rec a = (b, a')"
  shows "Inv I F S a'"
proof -
  let ?lid = "lr_lease_id rec"
  obtain torn a1 where t: "teardown_lease E ?lid a = (torn, a1)" by (cases "teardown_lease E ?lid a")
  note inv1 = inv_teardown [OF inv t]
  obtain x a2 where l: "with_ledger (lo_transition (fb_ledger E) ?lid (abnormal_state kind) now) a1 = (x, a2)"
    by (cases "with_ledger (lo_transition (fb_ledger E) ?lid (abnormal_state kind) now) a1")
  have inv2: "Inv I F S a2" if torn using inv_transition [OF _ l] inv1 that by auto
  obtain d a3 where w: "with_world (fb_instant E) (revoke_pat_for E ?lid a2) = (d, a3)"
    by (cases "with_world (fb_instant E) (revoke_pat_for E ?lid a2)")
  obtain e a4 where f: "flush_partial_envelope E ?lid kind d a3 = (e, a4)" by (cases "flush_partial_envelope E ?lid kind d a3")
  have "Inv I F S (record_slot_terminal E ?lid (lr_tenant rec) (abnormal_slot kind) (lr_billing_acquired_at_ms rec)
      (forget_lease E ?lid a4))" if torn
    using inv_quiet [OF inv_quiet [OF inv_quiet [OF inv_quiet [OF inv_quiet [OF inv2 [OF that] q_revoke]
      quiet_with_world [OF quiet_instant w]] q_flush [OF f]] q_forget] q_slot(2)] .
  with call t l w f inv1 inv2 show ?thesis
    by (cases torn; cases x) (auto simp: reclaim_one_def Let_def)
qed

lemma inv_reap_loop: "Inv I F S a \<Longrightarrow> reap_loop E now recs a = (n, a') \<Longrightarrow> Inv I F S a'"
  by (induction recs arbitrary: a n) (auto split: prod.splits dest: inv_reclaim)

lemma inv_crash_loop: "Inv I F S a \<Longrightarrow> crash_loop E now recs a = (n, a') \<Longrightarrow> Inv I F S a'"
  by (induction recs arbitrary: a n) (auto split: prod.splits if_splits dest: inv_probe, (metis inv_reclaim inv_probe)+)

lemma inv_reap: "Inv I F S a \<Longrightarrow> Inv I F S (snd (reap_once E a))"
proof -
  assume inv: "Inv I F S a"
  obtain now a1 where n: "now_ms E a = (now, a1)" by (cases "now_ms E a")
  with inv_reap_loop [OF inv_quiet [OF inv q_now [OF n]]] show ?thesis
    by (simp add: reap_once_def) (metis prod.collapse)
qed

lemma inv_surface: "Inv I F S a \<Longrightarrow> Inv I F S (snd (surface_crashes_once E a))"
proof -
  assume inv: "Inv I F S a"
  obtain now a1 where n: "now_ms E a = (now, a1)" by (cases "now_ms E a")
  with inv_crash_loop [OF inv_quiet [OF inv q_now [OF n]]] show ?thesis
    by (simp add: surface_crashes_once_def) (metis prod.collapse)
qed

lemma inv_cancel: "Inv I F S a \<Longrightarrow> Inv I F S (snd (cancel_lease E t lid a))"
proof -
  assume inv: "Inv I F S a"
  obtain torn a1 where d: "teardown_lease E lid a = (torn, a1)" by (cases "teardown_lease E lid a")
  note inv1 = inv_teardown [OF inv d]
  obtain now a2 where n: "now_ms E a1 = (now, a2)" by (cases "now_ms E a1")
  have inv2: "Inv I F S a2" "ap_boxes a2 = ap_boxes a1" using inv_quiet [OF _ q_now [OF n]] inv1 q_now [OF n]
    by (auto simp: quiet_step_def)
  obtain x a3 where l: "with_ledger (lo_transition (fb_ledger E) lid Released now) a2 = (x, a3)"
    by (cases "with_ledger (lo_transition (fb_ledger E) lid Released now) a2")
  have inv3: "Inv I F S a3" if torn using inv_transition [OF inv2(1) l] inv1 inv2(2) that by auto
  have "Inv I F S (forget_lease E lid (revoke_pat_for E lid (record_slot E lid t SlotReleased a3)))" if torn
    using inv_quiet [OF inv_quiet [OF inv_quiet [OF inv3 [OF that] q_slot(1)] q_revoke] q_forget] .
  with inv inv1 inv3 d n l show ?thesis
    by (cases torn; cases x)
      (auto simp: cancel_lease_def Let_def split: sum.splits option.splits lease_state.splits runner_state.splits)
qed

lemma inv_close: "Inv I F S a \<Longrightarrow> Inv I F S (snd (close_lease E acts t lid req a))"
proof -
  assume inv: "Inv I F S a"
  obtain torn a1 where d: "teardown_lease E lid a = (torn, a1)" by (cases "teardown_lease E lid a")
  note inv1 = inv_teardown [OF inv d]
  let ?shut = "case close_handle lid t a1 of
      None \<Rightarrow> (Some (zero_intent_metrics, False), a1)
    | Some (hook, price) \<Rightarrow>
        (let (died, a) = with_world (fb_instant E) a1 in
         case drive_close (the (parse_close_status (cq_status req))) died price acts hook of
           (None, h) \<Rightarrow> (None, set_hook lid h a)
         | (Some out, h) \<Rightarrow> (Some (co_metrics out, co_capture_incomplete out), set_hook lid h a))"
  obtain closed a2 where c: "?shut = (closed, a2)" by (cases ?shut)
  have q2: "quiet_step known a1 a2"
    using c by (auto simp: Let_def split: option.splits prod.splits
        intro: quiet_step_refl quiet_step_trans [OF quiet_with_world [OF quiet_instant] q_set_hook])
  obtain now a3 where n: "now_ms E a2 = (now, a3)" by (cases "now_ms E a2")
  have q3: "quiet_step known a1 a3" using q2 q_now [OF n] by (rule quiet_step_trans)
  obtain x a4 where l: "with_ledger (lo_transition (fb_ledger E) lid Released now) a3 = (x, a4)"
    by (cases "with_ledger (lo_transition (fb_ledger E) lid Released now) a3")
  have inv2: "Inv I F S a2" and inv3: "Inv I F S a3" using inv1 q2 q3 inv_quiet by blast+
  have inv4: "Inv I F S a4" if torn using inv_transition [OF inv3 l] inv1 q3 that by (auto simp: quiet_step_def)
  have "Inv I F S (forget_lease E lid (revoke_pat_for E lid (record_slot_terminal E lid t SlotReleased acq (unregister lid a4))))"
    if torn for acq
    using inv_quiet [OF inv_quiet [OF inv_quiet [OF inv_quiet [OF inv4 [OF that] q_unregister] q_slot(2)] q_revoke] q_forget] .
  with inv inv1 inv2 inv4 d c n l show ?thesis
    by (cases torn; cases closed; cases x)
      (auto simp: close_lease_def Let_def split: sum.splits option.splits)
qed

subsection \<open>Finalising\<close>

lemma inv_roll_back_reserved:
  assumes inv: "Inv I F S a" and lid: "lid \<in> F" "lid \<notin> S"
  shows "Inv I (F - {lid}) S (roll_back E lid BeforeProvision a)"
proof -
  obtain b a' where r: "rollback_pending_admission E lid BeforeProvision a = (b, a')"
    by (cases "rollback_pending_admission E lid BeforeProvision a")
  have "lid \<notin> ap_boxes a" using inv lid by (auto simp: lease_inv_def)
  with inv_rollback [OF lease_inv_subset [OF inv] r, of "F - {lid}"] lid r show ?thesis by (auto simp: roll_back_def)
qed

lemma inv_prepare_runner:
  assumes inv: "Inv I F S a" and lid: "lid \<in> F" "lid \<notin> S" and call: "prepare_runner E lid req spec a = (x, a')"
  shows "Inv I (if x = None then F - {lid} else F) S a'"
proof (cases "aq_runner req")
  case None
  with call inv show ?thesis by (auto simp: prepare_runner_def)
next
  case (Some r)
  obtain b a1 where m: "mint_jit_offloaded E (runner_scope_from_dto r) a = (b, a1)"
    by (cases "mint_jit_offloaded E (runner_scope_from_dto r) a")
  have "quiet_step known a a1" using m
    by (auto simp: mint_jit_offloaded_def quiet_step_refl split: option.splits prod.splits sum.splits
        intro: quiet_with_world [OF quiet_broker])
  then have inv1: "Inv I F S a1" using inv inv_quiet by blast
  with Some call m inv lid show ?thesis
    by (auto simp: prepare_runner_def intro: inv_roll_back_reserved split: broker_result.splits if_splits)
qed

lemma q_deliver: "deliver_credential E t lid minted spec a = (x, a') \<Longrightarrow> quiet_step known a a'"
  by (auto simp: deliver_credential_def Let_def stash_cred_def quiet_step_def split: option.splits)

lemma inv_prepare_credential:
  assumes inv: "Inv I F S a" and lid: "lid \<in> F" "lid \<notin> S"
    and call: "prepare_credential E t pat lid deadline req spec a = (x, a')"
  shows "Inv I (if x = None then F - {lid} else F) S a'"
proof (cases "fb_cas_pat_mint E")
  case None
  with call inv show ?thesis by (auto simp: prepare_credential_def)
next
  case (Some mint)
  show ?thesis
  proof (cases "aq_repo_full_name req")
    case None
    with Some call inv lid show ?thesis
      by (auto simp: prepare_credential_def intro: inv_roll_back_reserved split: option.splits)
  next
    case (Some repo)
    let ?inst = "aq_installation_id req"
    obtain now a1 where n: "now_ms E (revoke_pat_for E lid a) = (now, a1)" by (cases "now_ms E (revoke_pat_for E lid a)")
    obtain y a2 where w: "with_world (cm_mint mint repo ?inst pat lid deadline now) a1 = (y, a2)"
      by (cases "with_world (cm_mint mint repo ?inst pat lid deadline now) a1")
    have inv2: "Inv I F S a2" using inv_quiet [OF inv_quiet [OF inv_quiet [OF inv q_revoke] q_now [OF n]]
        quiet_with_world [OF quiet_mint [OF \<open>fb_cas_pat_mint E = Some mint\<close>] w]] .
    with Some \<open>fb_cas_pat_mint E = Some mint\<close> call n w lid show ?thesis
      by (auto simp: prepare_credential_def Let_def intro: inv_roll_back_reserved inv_quiet dest: q_deliver
          split: sum.splits prod.splits)
  qed
qed

lemma inv_finalize_prepare:
  assumes inv: "Inv I F S a" and lid: "ml_lease_id m \<in> F" "ml_lease_id m \<notin> S"
    and call: "finalize_prepare E t pat m req a = (x, a')"
  shows "Inv I (if x = None then F - {ml_lease_id m} else F) S a'"
proof -
  obtain now a1 where n: "now_ms E a = (now, a1)" by (cases "now_ms E a")
  obtain y a2 where r: "prepare_runner E (ml_lease_id m) req (ml_spec m) a1 = (y, a2)"
    by (cases "prepare_runner E (ml_lease_id m) req (ml_spec m) a1")
  note inv2 = inv_prepare_runner [OF inv_quiet [OF inv q_now [OF n]] lid r]
  show ?thesis
  proof (cases y)
    case None
    with call n r inv2 show ?thesis by (auto simp: finalize_prepare_def)
  next
    case (Some spec)
    obtain z a3 where c: "prepare_credential E t pat (ml_lease_id m) (rl_expiry (ml_lease m)) req spec a2 = (z, a3)"
      by (cases "prepare_credential E t pat (ml_lease_id m) (rl_expiry (ml_lease m)) req spec a2")
    from inv2 Some have "Inv I F S a2" by simp
    from inv_prepare_credential [OF this lid c] call n r Some c show ?thesis
      by (auto simp: finalize_prepare_def split: option.splits)
  qed
qed

lemma inv_provision_box:
  assumes inv: "Inv I F S a" and lid: "lid \<in> F" "lid \<notin> S" and call: "provision_box E lid spec a = (x, a')"
  shows "Inv I (F - {lid}) S a'"
proof -
  let ?a = "a\<lparr>ap_boxes := insert lid (ap_boxes a)\<rparr>"
  obtain y a1 where w: "with_world (pv_provision (fb_provisioner E) lid spec) ?a = (y, a1)"
    by (cases "with_world (pv_provision (fb_provisioner E) lid spec) ?a")
  note w' = with_worldD [OF w]
  have "active_row (row (ap_ledger a) lid)" "row (ap_ledger a) lid \<noteq> None" using inv_untouched [OF inv, of lid] lid
    by (auto simp: untouched_row_def active_row_def)
  moreover have "known (ap_world a) l \<or> l = lid" if "known (ap_world a1) l" for l
    using w' that provision_known [of lid spec "ap_world a" y "ap_world a1" l] by auto
  moreover from calculation have "lid \<in> I" using inv by (auto simp: lease_inv_def)
  ultimately have "Inv I (F - {lid}) S a1" using w' inv lid unfolding lease_inv_def by (auto, blast)
  with call w show ?thesis by (auto simp: provision_box_def split: sum.splits)
qed

lemma inv_provision_bind:
  "Inv I F S a \<Longrightarrow> lid \<notin> F \<union> S \<Longrightarrow> provision_bind E lid a = (x, a') \<Longrightarrow> Inv I F S a'"
  by (auto simp: provision_bind_def split: sum.splits prod.splits dest: inv_bind)

lemma inv_provision_failed:
  assumes inv: "Inv I F S a" and call: "provision_failed E lid e a = (x, a')"
  shows "Inv I F S a'"
proof -
  obtain b a1 where r: "rollback_pending_admission E lid AfterProvision a = (b, a1)"
    by (cases "rollback_pending_admission E lid AfterProvision a")
  have inv1: "Inv I F S a1" using inv_rollback [OF inv r] by simp
  with inv_quiet [OF inv1 q_revoke, of lid] call r show ?thesis by (auto simp: provision_failed_def split: if_splits)
qed

lemma inv_finalize_commit:
  assumes inv: "Inv I F S a" and lid: "ml_lease_id m \<notin> F \<union> S" and call: "finalize_commit E t pat now m req a = (x, a')"
  shows "Inv I F S a'"
proof -
  let ?lid = "ml_lease_id m"
  obtain y a1 where l: "with_ledger (lo_transition (fb_ledger E) ?lid Held now) a = (y, a1)"
    by (cases "with_ledger (lo_transition (fb_ledger E) ?lid Held now) a")
  have inv1: "Inv I F S a1" using inv_transition [OF inv l lid] by simp
  show ?thesis
  proof (cases y)
    case (Inl e)
    obtain b a2 where r: "rollback_pending_admission E ?lid AfterProvision a1 = (b, a2)"
      by (cases "rollback_pending_admission E ?lid AfterProvision a1")
    have "Inv I F S a2" using inv_rollback [OF inv1 r] by simp
    from inv_quiet [OF this q_revoke, of ?lid] call l Inl r show ?thesis
      by (auto simp: finalize_commit_def roll_back_def)
  next
    case (Inr r)
    let ?a2 = "record_slot E ?lid t SlotAcquired a1"
    let ?a3 = "record_image ?lid (aq_image_digest req) ?a2"
    let ?a4 = "if aq_runner req \<noteq> None then mark_runner_lease ?lid ?a3 else ?a3"
    let ?a5 = "if aq_agent req \<noteq> None then mark_agent_lease ?lid ?a4 else ?a4"
    obtain born a6 where b: "with_world (fb_instant E) ?a5 = (born, a6)" by (cases "with_world (fb_instant E) ?a5")
    obtain opened a7 where o: "with_world (fb_instant E) a6 = (opened, a7)" by (cases "with_world (fb_instant E) a6")
    have marks: "quiet_step known ?a2 ?a5"
      by (simp add: quiet_step_def record_image_def mark_runner_lease_def mark_agent_lease_def)
    have reg: "quiet_step known a7 (register ?lid t h pat a7)" for h
      by (simp add: quiet_step_def register_def register_priced_def)
    have "Inv I F S (register ?lid t h pat a7)" for h
      by (rule inv_quiet [OF inv_quiet [OF inv_quiet [OF inv_quiet [OF inv_quiet [OF inv1 q_slot(1)] marks]
        quiet_with_world [OF quiet_instant b]] quiet_with_world [OF quiet_instant o]] reg])
    moreover have "\<exists>h. snd (finalize_commit E t pat now m req a) = register ?lid t h pat a7"
      unfolding finalize_commit_def Let_def l Inr prod.case sum.case b o by auto
    ultimately show ?thesis using call by auto
  qed
qed

lemma inv_answered:
  "(\<And>x a'. r = (x, a') \<Longrightarrow> Inv I F S a') \<Longrightarrow> answered lid E r = (y, b) \<Longrightarrow> Inv I F S b"
  by (auto simp: answered_def split: prod.splits finalize_outcome.splits intro: inv_quiet [OF _ q_revoke])

subsection \<open>Reserving\<close>

lemma q_preflight: "acquire_preflight E t headers req a = (x, a') \<Longrightarrow> quiet_step known a a'"
proof -
  assume call: "acquire_preflight E t headers req a = (x, a')"
  obtain ready a1 where r: "with_world (fb_mint_ready E) a = (ready, a1)" by (cases "with_world (fb_mint_ready E) a")
  obtain now a2 where n: "now_ms E a1 = (now, a2)" by (cases "now_ms E a1")
  have "quiet_step known a2 (observe_shard_from_headers headers a2)"
    by (simp add: quiet_step_def observe_shard_from_headers_def observe_shard_def split: option.splits)
  from quiet_step_trans [OF quiet_step_trans [OF quiet_with_world [OF quiet_ready r] q_now [OF n]] this]
    quiet_with_world [OF quiet_ready r] call r n
  show ?thesis
    by (cases ready) (auto simp: acquire_preflight_def Let_def split: prod.splits if_splits)
qed

lemma q_plan: "acquire_plan E t pat cached a = (x, a') \<Longrightarrow> quiet_step known a a'"
  by (auto simp: acquire_plan_def split: prod.splits plan_resolve.splits option.splits
      dest: quiet_with_world [OF quiet_plan])

lemma q_mint: "mint_lease E t now shard req a = (x, a') \<Longrightarrow> quiet_step known a a'"
proof -
  assume call: "mint_lease E t now shard req a = (x, a')"
  obtain lid a1 where m: "mint_lease_id_for E (fst shard) (snd shard) a = (lid, a1)"
    by (cases "mint_lease_id_for E (fst shard) (snd shard) a")
  have "quiet_step known a a1"
    using quiet_with_world [OF quiet_mint_for_shard [OF quiet_mint_id] m [unfolded mint_lease_id_for_def]] .
  moreover have "quiet_step known a1 a'" using call m
    by (auto simp: mint_lease_def Let_def mark_toolchain_digest_def quiet_step_def split: sum.splits option.splits if_splits)
  ultimately show ?thesis by (rule quiet_step_trans)
qed

lemma inv_reserve_slot:
  assumes inv: "Inv I F S a" and call: "reserve_slot E t plan now req m a = (x, a')"
    and ok: "\<And>gate. build_compute_gate (fb_runner_vcpu E) (fb_ceiling_of E (ap_world a)) t (aq_expiry_ms req) now = Some (Inr gate)
      \<Longrightarrow> ok (pending_record t m now) (tp_max_concurrency plan) gate"
  shows "case x of
      AcquireReserved m' req' \<Rightarrow> ml_lease_id m' \<notin> I \<longrightarrow> Inv (insert (ml_lease_id m') I) (insert (ml_lease_id m') F) S a'
    | _ \<Rightarrow> Inv I F S a'"
proof (cases "\<exists>gate. build_compute_gate (fb_runner_vcpu E) (fb_ceiling_of E (ap_world a)) t (aq_expiry_ms req) now = Some (Inr gate)")
  case False
  with call inv show ?thesis by (auto simp: reserve_slot_def split: option.splits sum.splits)
next
  case True
  then obtain gate where
    g: "build_compute_gate (fb_runner_vcpu E) (fb_ceiling_of E (ap_world a)) t (aq_expiry_ms req) now = Some (Inr gate)" ..
  let ?rec = "pending_record t m now"
  obtain y a1 where l: "with_ledger (lo_try_admit_with_compute (fb_ledger E) ?rec (tp_max_concurrency plan) gate) a = (y, a1)"
    by (cases "with_ledger (lo_try_admit_with_compute (fb_ledger E) ?rec (tp_max_concurrency plan) gate) a")
  note w = with_ledgerD [OF l]
  have id: "lr_lease_id ?rec = ml_lease_id m" by (simp add: pending_record_def)
  show ?thesis
  proof (cases "y = Inr Admitted")
    case True
    with admit_ok [OF inv_P [OF inv] ok [OF g], of "ap_ledger a1"] w
    have st: "P (ap_ledger a1)" "row (ap_ledger a) (ml_lease_id m) = None"
      "row (ap_ledger a1) = (row (ap_ledger a))(ml_lease_id m \<mapsto> ?rec)" by (simp_all add: id)
    have "untouched_row (ml_lease_id m) (Some ?rec)" by (simp add: untouched_row_def pending_record_def)
    with st inv w have "Inv (insert (ml_lease_id m) I) (insert (ml_lease_id m) F) S a1" if "ml_lease_id m \<notin> I"
      using that untouched_active unfolding lease_inv_def by (auto simp: active_row_def)
    with call g l True show ?thesis by (auto simp: reserve_slot_def)
  next
    case False
    with admit_no [OF inv_P [OF inv] ok [OF g], of y "ap_ledger a1"] w inv have "Inv I F S a1" by (auto intro: inv_same_rows)
    with call g l False show ?thesis
      by (auto simp: reserve_slot_def split: sum.splits admit_outcome.splits admission_mode.splits)
  qed
qed

lemma inv_acquire_admit:
  assumes inv: "Inv I F S a" and call: "acquire_admit E t plan now shard req a = (x, a')"
    and ok: "\<And>w ttl now' gate m. build_compute_gate (fb_runner_vcpu E) (fb_ceiling_of E w) t ttl now' = Some (Inr gate)
      \<Longrightarrow> ok (pending_record t m now') (tp_max_concurrency plan) gate"
  shows "case x of
      AcquireReserved m' req' \<Rightarrow> ml_lease_id m' \<notin> I \<longrightarrow> Inv (insert (ml_lease_id m') I) (insert (ml_lease_id m') F) S a'
    | _ \<Rightarrow> Inv I F S a'"
proof -
  let ?ra = "rate_attempt t (effective_ceiling (tp_rate_ceiling_per_min plan) (snd shard)) now (ap_rate_windows a)"
  let ?a1 = "a\<lparr>ap_rate_windows := snd ?ra\<rparr>"
  have inv1: "Inv I F S ?a1" using inv by (simp add: lease_inv_def)
  obtain y a2 where m: "mint_lease E t now shard req ?a1 = (y, a2)" by (cases "mint_lease E t now shard req ?a1")
  have inv2: "Inv I F S a2" using inv1 q_mint [OF m] by (rule inv_quiet)
  show ?thesis
  proof (cases "runner_target_permitted E plan req \<and> \<not> fst ?ra \<and> (\<exists>v. y = Inr v)")
    case False
    with call m inv inv1 inv2 show ?thesis
      by (auto simp: acquire_admit_def Let_def case_prod_unfold split: if_splits sum.splits)
  next
    case True
    then obtain v where "y = Inr v" by blast
    with True call m have "reserve_slot E t plan now req v a2 = (x, a')"
      by (simp add: acquire_admit_def Let_def case_prod_unfold)
    then show ?thesis by (rule inv_reserve_slot [OF inv2 _ ok])
  qed
qed

lemma inv_acquire_reserve:
  assumes inv: "Inv I F S a" and call: "acquire_reserve E t pat cached headers req a = (x, a')" and plans: "plans_fit E ok"
  shows "case x of
      AcquireReserved m' req' \<Rightarrow> ml_lease_id m' \<notin> I \<longrightarrow> Inv (insert (ml_lease_id m') I) (insert (ml_lease_id m') F) S a'
    | _ \<Rightarrow> Inv I F S a'"
proof -
  obtain y a1 where p: "acquire_preflight E t headers req a = (y, a1)" by (cases "acquire_preflight E t headers req a")
  have inv1: "Inv I F S a1" using inv q_preflight [OF p] by (rule inv_quiet)
  show ?thesis
  proof (cases y)
    case (Inl e)
    with call p inv1 show ?thesis by (auto simp: acquire_reserve_def)
  next
    case (Inr v)
    obtain now shard rq where v: "v = (now, shard, rq)" by (cases v)
    let ?look = "fb_ac_lookup E (tenant_str t) (fb_blake3 E (aq_image_digest rq))"
    obtain z a2 where c: "with_world ?look a1 = (z, a2)" by (cases "with_world ?look a1")
    have inv2: "Inv I F S a2" using inv1 quiet_with_world [OF quiet_ac c] by (rule inv_quiet)
    obtain pl a3 where r: "acquire_plan E t pat cached a2 = (pl, a3)" by (cases "acquire_plan E t pat cached a2")
    have inv3: "Inv I F S a3" using inv2 q_plan [OF r] by (rule inv_quiet)
    show ?thesis
    proof (cases "z = AcMiss \<and> (\<exists>plan. pl = Inr plan)")
      case False
      with call p Inr v c r inv2 inv3 show ?thesis
        by (auto simp: acquire_reserve_def split: ac_outcome.splits sum.splits)
    next
      case True
      then obtain plan where z: "z = AcMiss" "pl = Inr plan" by blast
      with call p Inr v c r have adm: "acquire_admit E t plan now shard rq a3 = (x, a')" by (simp add: acquire_reserve_def)
      from r z obtain w' where "fb_resolve_plan E t pat cached (ap_world a2) = (PlanOk (Some plan), w')"
        by (auto simp: acquire_plan_def with_world_def split: prod.splits plan_resolve.splits option.splits)
      with plans have ok: "ok (pending_record t m now') (tp_max_concurrency plan) gate"
        if "build_compute_gate (fb_runner_vcpu E) (fb_ceiling_of E w) t ttl now' = Some (Inr gate)" for w ttl now' gate m
        using that unfolding plans_fit_def by blast
      show ?thesis by (rule inv_acquire_admit [OF inv3 adm ok])
    qed
  qed
qed

subsection \<open>Any interleaving\<close>

lemma inv_advance:
  assumes inv: "Inv I F S a" and call: "advance E f a = (r, a')"
    and grounded: "grounded f \<longleftrightarrow> flight_lease f \<in> F" and live: "flight_lease f \<in> S \<Longrightarrow> failing f"
  shows "Inv I (if \<exists>f'. r = Inl f' \<and> grounded f' then F else F - {flight_lease f}) S a'"
proof (cases f)
  case (Reserved t pat m req)
  obtain x a1 where c: "finalize_prepare E t pat m req a = (x, a1)" by (cases "finalize_prepare E t pat m req a")
  have "ml_lease_id m \<in> F" "ml_lease_id m \<notin> S" using Reserved grounded live by auto
  from inv_finalize_prepare [OF inv this c] Reserved call c show ?thesis by (auto split: option.splits)
next
  case (Prepared t pat m req now spec)
  with inv_provision_box [OF inv, of "ml_lease_id m" spec] grounded live call show ?thesis
    by (auto split: prod.splits sum.splits)
next
  case (Spawned t pat m req now)
  with inv_provision_bind [OF inv, of "ml_lease_id m"] grounded live call show ?thesis
    by (auto split: prod.splits sum.splits)
next
  case (Bound t pat m req now)
  then have "ml_lease_id m \<notin> F \<union> S" using grounded live by auto
  from inv_answered [OF inv_finalize_commit [OF inv this]] Bound call grounded show ?thesis
    by (auto split: prod.splits)
next
  case (Failing lid e)
  from inv_answered [OF inv_provision_failed [OF inv]] Failing call grounded show ?thesis
    by (auto split: prod.splits)
qed

lemma inv_advance_flight:
  assumes inv: "server_inv row P known S sv"
  shows "server_inv row P known S (advance_flight E i sv)"
proof (cases "i < length (sv_flights sv)")
  case False
  with inv show ?thesis by (simp add: advance_flight_def)
next
  case True
  define f xs ys where parts: "f = sv_flights sv ! i" "xs = take i (sv_flights sv)" "ys = drop (Suc i) (sv_flights sv)"
  have fs: "sv_flights sv = xs @ f # ys" and i: "i = length xs" using True by (simp_all add: parts id_take_nth_drop)
  obtain r a where c: "advance E f (sv_app sv) = (r, a)" by (cases "advance E f (sv_app sv)")
  from inv fs have lease: "Inv (set (sv_ids sv)) (on_ground (xs @ f # ys)) S (sv_app sv)"
    and dist: "distinct (map flight_lease (xs @ f # ys))" and ids: "flight_lease ` set (xs @ f # ys) \<subseteq> set (sv_ids sv)"
    and live: "\<And>g. g \<in> set (xs @ f # ys) \<Longrightarrow> flight_lease g \<in> S \<Longrightarrow> failing g"
    by (auto simp: server_inv_def)
  note step = inv_advance [OF lease c on_ground_member [OF dist, symmetric] live [of f], simplified]
  show ?thesis
  proof (cases r)
    case (Inr x)
    then have "server_inv row P known S (sv\<lparr>sv_app := a, sv_flights := xs @ ys\<rparr>)"
      using step dist ids live on_ground_without [OF dist] by (auto simp: server_inv_def)
    with Inr c fs i show ?thesis by (simp add: advance_flight_def drop_flight_def)
  next
    case (Inl f')
    note same = advance_stages [OF c [unfolded Inl], THEN conjunct2] grounded_before [OF c [unfolded Inl]]
    have "server_inv row P known S (sv\<lparr>sv_app := a, sv_flights := xs @ f' # ys\<rparr>)"
      using step Inl dist ids live same failing_stays [OF c [unfolded Inl]] on_ground_replace [OF dist, of f']
      by (auto simp: server_inv_def)
    with Inl c fs i show ?thesis by (simp add: advance_flight_def)
  qed
qed

lemma inv_drop_flight:
  assumes inv: "server_inv row P known S sv"
  shows "server_inv row P known S (sv\<lparr>sv_flights := drop_flight i (sv_flights sv)\<rparr>)"
proof -
  have "set (drop_flight i (sv_flights sv)) \<subseteq> set (sv_flights sv)"
    by (auto simp: drop_flight_def dest: in_set_takeD in_set_dropD)
  moreover have "distinct (map flight_lease (drop_flight i (sv_flights sv)))"
    if "distinct (map flight_lease (sv_flights sv))"
  proof (cases "i < length (sv_flights sv)")
    case True
    with that show ?thesis by (subst (asm) id_take_nth_drop [OF True]) (simp add: drop_flight_def)
  qed (use that in \<open>simp add: drop_flight_def\<close>)
  ultimately show ?thesis using inv unfolding server_inv_def
    by (auto intro: lease_inv_subset [OF _ on_ground_mono])
qed

lemma inv_on_app:
  "server_inv row P known S sv
    \<Longrightarrow> (\<And>I F a. Inv I F S a \<Longrightarrow> Inv I F S (snd (f a))) \<Longrightarrow> server_inv row P known S (on_app f sv)"
  by (simp add: server_inv_def on_app_def)

lemma inv_suspend: "Inv I F S a \<Longrightarrow> Inv I F S (snd (suspend_tenant_with_event E t now a))"
proof -
  assume inv: "Inv I F S a"
  obtain x a1 where l: "with_ledger (lo_record_tenant_suspension (fb_ledger E) (tenant_str t) now) a = (x, a1)"
    by (cases "with_ledger (lo_record_tenant_suspension (fb_ledger E) (tenant_str t) now) a")
  have "Inv I F S a1"
    using with_ledgerD [OF l] record_suspension [OF inv_P [OF inv]] inv by (auto intro: inv_same_rows)
  with l show ?thesis by (auto simp: suspend_tenant_with_event_def lease_inv_def split: sum.splits)
qed

lemma inv_unsuspend: "Inv I F S a \<Longrightarrow> Inv I F S (snd (unsuspend_tenant E t a))"
proof -
  assume inv: "Inv I F S a"
  obtain x a1 where l: "with_ledger (lo_set_tenant_suspended (fb_ledger E) (tenant_str t) False) a = (x, a1)"
    by (cases "with_ledger (lo_set_tenant_suspended (fb_ledger E) (tenant_str t) False) a")
  have "Inv I F S a1"
    using with_ledgerD [OF l] set_suspended [OF inv_P [OF inv]] inv by (auto intro: inv_same_rows)
  with l show ?thesis by (auto simp: unsuspend_tenant_def lease_inv_def split: sum.splits)
qed

lemma inv_acquire_step:
  assumes inv: "server_inv row P known S sv" and plans: "plans_fit E ok"
    and fresh: "distinct (sv_ids (server_step E (SvAcquire t pat cached headers req) sv))"
  shows "server_inv row P known S (server_step E (SvAcquire t pat cached headers req) sv)"
proof -
  obtain x a where c: "acquire_reserve E t pat cached headers req (sv_app sv) = (x, a)"
    by (cases "acquire_reserve E t pat cached headers req (sv_app sv)")
  from inv have lease: "Inv (set (sv_ids sv)) (on_ground (sv_flights sv)) S (sv_app sv)"
    by (simp add: server_inv_def)
  note step = inv_acquire_reserve [OF lease c plans]
  show ?thesis
  proof (cases x)
    case (AcquireReserved m req')
    with fresh c have new: "ml_lease_id m \<notin> set (sv_ids sv)" by simp
    have "ml_lease_id m \<notin> S"
    proof
      assume "ml_lease_id m \<in> S"
      then have "row (ap_ledger (sv_app sv)) (ml_lease_id m) \<noteq> None"
        using inv_untouched [OF lease, of "ml_lease_id m"] by (auto simp: untouched_row_def)
      with lease new show False by (simp add: lease_inv_def)
    qed
    moreover have "ml_lease_id m \<notin> flight_lease ` set (sv_flights sv)" using inv new by (auto simp: server_inv_def)
    ultimately show ?thesis using AcquireReserved step inv c new by (auto simp: server_inv_def on_ground_reserved)
  qed (use step inv c in \<open>simp_all add: server_inv_def\<close>)
qed

lemma inv_server_step:
  assumes inv: "server_inv row P known S sv" and plans: "plans_fit E ok" and fresh: "distinct (sv_ids (server_step E act sv))"
  shows "server_inv row P known S (server_step E act sv)"
proof (cases act)
  case (SvAcquire t pat cached headers req)
  with inv_acquire_step [OF inv plans] fresh show ?thesis by blast
next
  case (SvSweepRow rec)
  then show ?thesis unfolding SvSweepRow server_step.simps
    by (intro inv_on_app [OF inv]) (metis inv_sweep_rows prod.collapse)
next
  case (SvReclaim kind now rec)
  then show ?thesis unfolding SvReclaim server_step.simps
    by (intro inv_on_app [OF inv]) (metis inv_reclaim prod.collapse)
next
  case (SvKillLease t lid)
  then show ?thesis unfolding SvKillLease server_step.simps
    by (intro inv_on_app [OF inv]) (metis inv_kill_loop prod.collapse)
qed (auto simp del: sweep_rows.simps kill_loop.simps intro: inv_on_app [OF inv] inv_advance_flight [OF inv] inv_drop_flight [OF inv]
    inv_sweep inv_reap inv_surface inv_kill inv_cancel inv_close inv_suspend inv_unsuspend)

lemma server_step_ids: "\<exists>new. sv_ids (server_step E' act sv) = sv_ids sv @ new"
  by (cases act) (auto simp: on_app_def advance_flight_def split: prod.splits sum.splits acquire_outcome.splits)

lemma server_run_ids: "\<exists>new. sv_ids (server_run E' acts sv) = sv_ids sv @ new"
proof (induction acts arbitrary: sv)
  case (Cons act acts)
  then show ?case using server_step_ids [of E' act sv] by (metis append_assoc fold_simps(2) server_run_def)
qed (simp add: server_run_def)

lemma inv_server_run:
  "server_inv row P known S sv \<Longrightarrow> plans_fit E ok \<Longrightarrow> distinct (sv_ids (server_run E acts sv))
    \<Longrightarrow> server_inv row P known S (server_run E acts sv)"
proof (induction acts arbitrary: sv)
  case (Cons act acts)
  let ?sv = "server_step E act sv"
  have run: "server_run E (act # acts) sv = server_run E acts ?sv" by (simp add: server_run_def)
  with Cons.prems(3) server_run_ids [of E acts ?sv] have "distinct (sv_ids ?sv)" by auto
  with inv_server_step [OF Cons.prems(1,2)] Cons.IH Cons.prems(2,3) run show ?case by simp
qed (simp add: server_run_def)

end

end
