(* ===== verification/Spec2Isabelle.thy ===== *)
theory Spec2Isabelle
  imports Caps Interference Usage_Push Global_Gate Coalesce Admin Shard Box_Engine Envelope Lease_System
begin

text \<open>
  Verification development of the control plane of corelink-runners, a service that leases runner boxes
  to tenants. The Rust workspace under \<open>src/crates\<close> is modelled by shallow embedding: every definition
  translates the named item of the source, and the theorems are about those definitions.

  \<^bold>\<open>The program.\<close> A tenant authenticates with a token (\<open>auth.rs\<close>, over the introspection endpoint), its plan
  and compute ceiling are resolved (\<open>corelink_plans.rs\<close>, \<open>app.rs\<close>), and the ledger (\<open>ledger.rs\<close>) admits a
  lease if the tenant is under its concurrency cap and its monthly compute ceiling. A lease moves from
  Pending to Held to a terminal state; its end charges compute to the month and is billed by the slot meter
  (\<open>billing.rs\<close>), whose journal is exported to a sink (\<open>billing_export.rs\<close>) and pushed as usage records
  (\<open>corelink_billing.rs\<close>). Requests over the cap may wait in the fair scheduler (\<open>scheduler.rs\<close>); a global
  gate (\<open>global_gate.rs\<close>) bounds all tenants together.

  \<^bold>\<open>Conventions.\<close> \<open>u64\<close> and \<open>u32\<close> are words of that width with the saturating, wrapping and checked
  operations written as in the source; \<open>usize\<close> counts and instants are naturals. A struct is a record, an
  enum a datatype, a \<open>HashMap\<close> or \<open>BTreeMap\<close> an association list with distinct keys, a string its UTF-8
  bytes. A \<open>&mut self\<close> method returns its result and the state it leaves; every error is a value. Code outside
  the repository (JSON codec, HTTP transport, digest, database, clock, disk) is a parameter, with what is
  relied on as hypotheses of the theorem and an instance in its witness.

  \<^bold>\<open>Theories.\<close>
  \<^item> \<open>Prelude\<close>, \<open>Rust_Str\<close>, \<open>Json\<close>: saturating arithmetic, association lists, Rust strings, JSON values.
  \<^item> \<open>Tenant\<close> (\<open>tenant.rs\<close>, \<open>plans.rs\<close>, \<open>tenant_plan_repo.rs\<close>), \<open>Compute_Meter\<close> (\<open>compute_meter.rs\<close>): tenants, tiers, vCPU
    milliseconds and calendar months; the month of an instant is the Gregorian one.
  \<^item> \<open>Ledger\<close> (\<open>ledger.rs\<close>, \<open>ledger/*.rs\<close>): \<open>InMemoryInner\<close>, one \<open>mem_*\<close> definition per method. \<open>Journal\<close>: the
    journal lines and their replay, and that every call is a replay of lines. \<open>Ledger_Safety\<close>: over every
    sequence of calls, caps and ceilings hold, charges are exact, leases follow the matrix, cleanup is fenced.
  \<^item> \<open>File_Ledger\<close>: \<open>FileInner\<close> over an explicit disk whose writes may fail or be torn; it refines the
    in-memory ledger, survives restarts, is crash consistent, and three ways in which it does not do what
    its comments say.
  \<^item> \<open>Lifecycle\<close> (\<open>lifecycle.rs\<close>), \<open>Caps\<close> (\<open>caps.rs\<close>, \<open>downgrade_grace.rs\<close>): the sweeps
    and the gates in front of the ledger, shown to agree with it.
  \<^item> \<open>Scheduler\<close> (\<open>scheduler.rs\<close>), \<open>Interference\<close> (\<open>interference.rs\<close>): the deficit round robin is fair, work
    conserving and bounded; waiting statistics are exact and isolated.
  \<^item> \<open>Global_Gate\<close> (\<open>global_gate.rs\<close>): the wall and the shares hold over every history of guards.
  \<^item> \<open>Billing\<close> (\<open>meter.rs\<close>, \<open>billing.rs\<close>, \<open>billing_sink.rs\<close>, \<open>billing_export.rs\<close>), \<open>Usage_Push\<close>
    (\<open>corelink_billing.rs\<close>): no event is lost between meter and sink, no usage record between buffer and
    endpoint, and the bill does not depend on restarts.
  \<^item> \<open>Decimal\<close> (\<open>decimal.rs\<close>): the parsed ceiling is the exact decimal, truncated to milliseconds.
  \<^item> \<open>Introspect\<close> (\<open>introspect_breaker.rs\<close>, \<open>introspect_cache.rs\<close>, \<open>corelink_auth.rs\<close>, \<open>auth.rs\<close>): the breaker
    trips exactly at its threshold and probes once per cooldown; no admission without a recent verdict of
    the endpoint on that token. \<open>Coalesce\<close> (\<open>introspect_coalesce.rs\<close>): a step relation over all interleavings of
    callers, with one leader per key and no outcome that outlives its flight.
  \<^item> \<open>Plan_Store\<close> (\<open>corelink_plans.rs\<close>, plan sources of \<open>app.rs\<close>, \<open>build_compute_gate\<close>, boot guards of
    \<open>server.rs\<close>), \<open>Admin\<close> (\<open>handlers/admin.rs\<close>): token-free reads give the last answer, static mode is always
    metered, onboarding is exact; and an interleaving that admits past an exhausted ceiling.

  \<^bold>\<open>Interfaces.\<close> What a client needs of a component is a locale, interpreted on the model: the sink of the
  export loop (\<open>billing_sink\<close>, by the in-memory sink), the plan source (\<open>plan_source\<close>, by the introspecting
  store and by the bootstrap composite), the ledger under the life-cycle sweeps (\<open>lease_ledger\<close>, by the
  in-memory and by the file ledger).

  \<^bold>\<open>Bounds.\<close> No definition runs on fuel: loops are structural recursions or functions with a termination
  proof, and histories are lists of steps of any length. Bounded loops of the source (three introspection
  attempts, batches of the flush) are recursions on the same bounds.

  \<^bold>\<open>Not modelled.\<close> The Postgres backends, whose behaviour is that of SQL; the asynchronous runtime, beyond the
  interleavings of the coalescer and of the export loop; HTTP routing and handlers other than those named;
  provisioning and tear-down at cloud providers; the runner agent inside the box; signatures, HMACs and
  attestation; the command line, SDKs, workers and scripts. Lock poisoning is recovered in the source and
  has no effect in the model, except for the global gate, where it is the value \<open>None\<close>.
\<close>

end
